(* ===== verification/Prelude.thy ===== *)
theory Prelude
  imports Main "HOL-Library.Word"
begin

text \<open>
  Shared vocabulary of the development: the integer and byte types of the Rust sources, byte-string
  literals, the slice and ASCII operations of the standard library that the crate calls, and the
  generic lemmas about them.  A Rust \<^verbatim>\<open>u8\<close> is an \<open>8 word\<close> and a \<^verbatim>\<open>u16\<close> a \<open>16 word\<close>; a \<^verbatim>\<open>&[u8]\<close> or
  \<^verbatim>\<open>Vec<u8>\<close> is a list of \<open>8 word\<close>.  A \<^verbatim>\<open>usize\<close> is a \<open>nat\<close>; where the crate lets a value overflow the
  machine width (the checked arithmetic of the number parser) the bound \<open>usize_limit\<close> of a 64-bit
  target is written out.
\<close>

section \<open>Types and literals\<close>

type_synonym u8 = "8 word"
type_synonym u16 = "16 word"
type_synonym usize = nat

definition usize_limit :: nat where
  "usize_limit = 2 ^ 64"

text \<open>The Rust literal \<^verbatim>\<open>b"..."\<close>.\<close>

definition bytes :: "string \<Rightarrow> u8 list" where
  "bytes s = map of_char s"

text \<open>Facts that evaluate closed byte-level terms, and the definitions of byte classes.\<close>

named_theorems byte_eval
named_theorems byte_class

declare bytes_def [byte_eval]

lemma bytes_eq_Nil [simp]: "bytes s = [] \<longleftrightarrow> s = []" "[] = bytes s \<longleftrightarrow> s = []"
  by (auto simp: bytes_def)

section \<open>Slices\<close>

text \<open>\<^verbatim>\<open>slice.get(i)\<close>, \<^verbatim>\<open>iter().position(p)\<close>, \<^verbatim>\<open>slice.split(p)\<close>, \<^verbatim>\<open>slice.splitn(2, p)\<close>,
  \<^verbatim>\<open>first()\<close>, \<^verbatim>\<open>last()\<close> and \<^verbatim>\<open>[..].join(sep)\<close>.\<close>

definition slice_get :: "'a list \<Rightarrow> usize \<Rightarrow> 'a option" where
  "slice_get xs i = (if i < length xs then Some (xs ! i) else None)"

fun position :: "('a \<Rightarrow> bool) \<Rightarrow> 'a list \<Rightarrow> usize option" where
  "position p [] = None"
| "position p (x # xs) = (if p x then Some 0 else map_option Suc (position p xs))"

fun split_on :: "('a \<Rightarrow> bool) \<Rightarrow> 'a list \<Rightarrow> 'a list list" where
  "split_on p [] = [[]]"
| "split_on p (x # xs) =
     (if p x then [] # split_on p xs
      else (case split_on p xs of [] \<Rightarrow> [[x]] | y # ys \<Rightarrow> (x # y) # ys))"

fun splitn2 :: "('a \<Rightarrow> bool) \<Rightarrow> 'a list \<Rightarrow> 'a list list" where
  "splitn2 p [] = [[]]"
| "splitn2 p (x # xs) =
     (if p x then [[], xs]
      else (case splitn2 p xs of [] \<Rightarrow> [[x]] | y # ys \<Rightarrow> (x # y) # ys))"

fun slice_first :: "'a list \<Rightarrow> 'a option" where
  "slice_first [] = None"
| "slice_first (x # _) = Some x"

fun slice_last :: "'a list \<Rightarrow> 'a option" where
  "slice_last [] = None"
| "slice_last [x] = Some x"
| "slice_last (_ # xs) = slice_last xs"

fun slice_join :: "'a list \<Rightarrow> 'a list list \<Rightarrow> 'a list" where
  "slice_join sep [] = []"
| "slice_join sep [x] = x"
| "slice_join sep (x # xs) = x @ sep @ slice_join sep xs"

definition starts_with :: "'a list \<Rightarrow> 'a list \<Rightarrow> bool" where
  "starts_with xs pre = (take (length pre) xs = pre)"

text \<open>\<^verbatim>\<open>collect::<Option<Vec<_>>>()\<close>: the first \<open>None\<close> ends the iteration.\<close>

fun collect_options :: "'a option list \<Rightarrow> 'a list option" where
  "collect_options [] = Some []"
| "collect_options (None # _) = None"
| "collect_options (Some x # xs) = map_option (Cons x) (collect_options xs)"

lemma slice_get_Some [simp]: "slice_get xs i = Some x \<longleftrightarrow> i < length xs \<and> xs ! i = x"
  by (auto simp: slice_get_def)

lemma slice_get_None [simp]: "slice_get xs i = None \<longleftrightarrow> length xs \<le> i"
  by (auto simp: slice_get_def)

lemma slice_get_append: "slice_get (xs @ ys) i =
    (if i < length xs then slice_get xs i else slice_get ys (i - length xs))"
  by (auto simp: slice_get_def nth_append)

lemma position_Some:
  "position p xs = Some i \<longleftrightarrow> i < length xs \<and> p (xs ! i) \<and> (\<forall>j < i. \<not> p (xs ! j))"
proof (induction xs arbitrary: i)
  case (Cons x xs)
  then show ?case
    by (cases i) (auto simp: nth_Cons split: nat.splits)
qed simp

lemma position_None: "position p xs = None \<longleftrightarrow> (\<forall>x \<in> set xs. \<not> p x)"
  by (induction xs) auto

lemma slice_first_conv: "slice_first xs = (if xs = [] then None else Some (hd xs))"
  by (cases xs) auto

lemma slice_last_conv: "slice_last xs = (if xs = [] then None else Some (last xs))"
  by (induction xs rule: slice_last.induct) auto

lemma slice_last_snoc [simp]: "slice_last (xs @ [x]) = Some x"
  by (simp add: slice_last_conv)

lemma split_on_not_Nil [simp]: "split_on p xs \<noteq> []"
  by (cases xs) (auto split: list.splits)

lemma splitn2_not_Nil [simp]: "splitn2 p xs \<noteq> []"
  by (cases xs) (auto split: list.splits)

lemma split_on_no_sep: "\<forall>x \<in> set xs. \<not> p x \<Longrightarrow> split_on p xs = [xs]"
  by (induction xs) auto

lemma split_on_append_sep:
  assumes "\<forall>x \<in> set xs. \<not> p x" and "p s"
  shows "split_on p (xs @ s # ys) = xs # split_on p ys"
  using assms by (induction xs) auto

lemma split_on_pieces: "piece \<in> set (split_on p xs) \<Longrightarrow> x \<in> set piece \<Longrightarrow> x \<in> set xs \<and> \<not> p x"
proof (induction xs arbitrary: piece)
  case (Cons a xs)
  obtain y ys where ys: "split_on p xs = y # ys" by (cases "split_on p xs") auto
  with Cons show ?case by (fastforce split: if_splits)
qed simp

lemma split_on_append:
  "split_on p (xs @ ys) =
     butlast (split_on p xs) @ (last (split_on p xs) @ hd (split_on p ys)) # tl (split_on p ys)"
proof (induction xs)
  case Nil
  then show ?case by (cases "split_on p ys") auto
next
  case (Cons a xs)
  then show ?case by (cases "split_on p xs") (auto split: list.splits)
qed

lemma set_slice_join: "set (slice_join sep xss) \<subseteq> set sep \<union> (\<Union>xs \<in> set xss. set xs)"
  by (induction sep xss rule: slice_join.induct) auto

lemma collect_options_Some:
  "collect_options xs = Some ys \<longleftrightarrow> xs = map Some ys"
proof (induction xs arbitrary: ys)
  case (Cons a xs)
  then show ?case by (cases a; cases ys) auto
qed auto

lemma collect_options_None: "collect_options xs = None \<longleftrightarrow> None \<in> set xs"
proof (induction xs)
  case (Cons a xs)
  then show ?case by (cases a) auto
qed simp

section \<open>ASCII classes\<close>

definition is_ascii_digit :: "u8 \<Rightarrow> bool" where
  "is_ascii_digit b \<longleftrightarrow> 0x30 \<le> b \<and> b \<le> 0x39"

definition is_ascii_lowercase :: "u8 \<Rightarrow> bool" where
  "is_ascii_lowercase b \<longleftrightarrow> 0x61 \<le> b \<and> b \<le> 0x7a"

definition is_ascii_uppercase :: "u8 \<Rightarrow> bool" where
  "is_ascii_uppercase b \<longleftrightarrow> 0x41 \<le> b \<and> b \<le> 0x5a"

definition is_ascii_alphanumeric :: "u8 \<Rightarrow> bool" where
  "is_ascii_alphanumeric b \<longleftrightarrow> is_ascii_lowercase b \<or> is_ascii_uppercase b \<or> is_ascii_digit b"

definition is_ascii_hexdigit :: "u8 \<Rightarrow> bool" where
  "is_ascii_hexdigit b \<longleftrightarrow>
     is_ascii_digit b \<or> (0x61 \<le> b \<and> b \<le> 0x66) \<or> (0x41 \<le> b \<and> b \<le> 0x46)"

definition is_ascii_graphic :: "u8 \<Rightarrow> bool" where
  "is_ascii_graphic b \<longleftrightarrow> 0x21 \<le> b \<and> b \<le> 0x7e"

definition to_ascii_lowercase :: "u8 \<Rightarrow> u8" where
  "to_ascii_lowercase b = (if is_ascii_uppercase b then b + 0x20 else b)"

definition eq_ignore_ascii_case :: "u8 list \<Rightarrow> u8 list \<Rightarrow> bool" where
  "eq_ignore_ascii_case xs ys \<longleftrightarrow> map to_ascii_lowercase xs = map to_ascii_lowercase ys"

text \<open>\<^verbatim>\<open>(byte as char).to_digit(radix)\<close> for a radix of at most 36.\<close>

definition to_digit :: "nat \<Rightarrow> u8 \<Rightarrow> nat option" where
  "to_digit radix b =
     (let d = (if is_ascii_digit b then Some (unat b - 0x30)
               else if is_ascii_lowercase b then Some (unat b - 0x61 + 10)
               else if is_ascii_uppercase b then Some (unat b - 0x41 + 10)
               else None)
      in case d of None \<Rightarrow> None | Some v \<Rightarrow> if v < radix then Some v else None)"

lemmas ascii_defs [byte_class] =
  is_ascii_digit_def is_ascii_lowercase_def is_ascii_uppercase_def is_ascii_alphanumeric_def
  is_ascii_hexdigit_def is_ascii_graphic_def

declare ascii_defs [byte_eval] to_ascii_lowercase_def [byte_eval]
  eq_ignore_ascii_case_def [byte_eval]

text \<open>The control bytes that delimit lines and optional whitespace.\<close>

abbreviation CR :: u8 where "CR \<equiv> 0x0d"
abbreviation LF :: u8 where "LF \<equiv> 0x0a"
abbreviation SP :: u8 where "SP \<equiv> 0x20"
abbreviation HTAB :: u8 where "HTAB \<equiv> 0x09"
abbreviation CRLF :: "u8 list" where "CRLF \<equiv> [CR, LF]"

lemma eq_ignore_ascii_case_refl [simp]: "eq_ignore_ascii_case xs xs"
  by (simp add: eq_ignore_ascii_case_def)

lemma eq_ignore_ascii_case_sym: "eq_ignore_ascii_case xs ys \<longleftrightarrow> eq_ignore_ascii_case ys xs"
  by (auto simp: eq_ignore_ascii_case_def)

lemma eq_ignore_ascii_case_trans:
  "eq_ignore_ascii_case xs ys \<Longrightarrow> eq_ignore_ascii_case ys zs \<Longrightarrow> eq_ignore_ascii_case xs zs"
  by (simp add: eq_ignore_ascii_case_def)

lemma eq_ignore_ascii_case_length: "eq_ignore_ascii_case xs ys \<Longrightarrow> length xs = length ys"
  by (auto simp: eq_ignore_ascii_case_def dest: map_eq_imp_length_eq)

lemma eq_ignore_ascii_case_Nil [simp]:
  "eq_ignore_ascii_case [] ys \<longleftrightarrow> ys = []" "eq_ignore_ascii_case xs [] \<longleftrightarrow> xs = []"
  by (auto simp: eq_ignore_ascii_case_def)

section \<open>Results\<close>

text \<open>
  A fallible operation returns \<open>'e + 'a\<close>, the error on the left.  An operation on \<^verbatim>\<open>&mut self\<close> returns
  the result paired with the state it leaves behind, on the error path too.
\<close>

abbreviation is_ok :: "'e + 'a \<Rightarrow> bool" where
  "is_ok r \<equiv> \<not> isl r"

definition ok_or :: "'a option \<Rightarrow> 'e \<Rightarrow> 'e + 'a" where
  "ok_or v e = (case v of None \<Rightarrow> Inl e | Some x \<Rightarrow> Inr x)"

definition map_err :: "('e \<Rightarrow> 'f) \<Rightarrow> 'e + 'a \<Rightarrow> 'f + 'a" where
  "map_err f r = (case r of Inl e \<Rightarrow> Inl (f e) | Inr x \<Rightarrow> Inr x)"

text \<open>The operator \<^verbatim>\<open>?\<close> behind a call that also changes the state.\<close>

definition and_then ::
  "('e + 'a) \<times> 's \<Rightarrow> ('a \<Rightarrow> 's \<Rightarrow> ('e + 'b) \<times> 's) \<Rightarrow> ('e + 'b) \<times> 's" where
  "and_then m f = (case m of (Inl e, s) \<Rightarrow> (Inl e, s) | (Inr x, s) \<Rightarrow> f x s)"

lemma and_then_simps [simp]:
  "and_then (Inl e, s) f = (Inl e, s)" "and_then (Inr x, s) f = f x s"
  by (simp_all add: and_then_def)

lemma and_then_Inr:
  "and_then m f = (Inr y, t) \<longleftrightarrow> (\<exists>x s. m = (Inr x, s) \<and> f x s = (Inr y, t))"
  by (auto simp: and_then_def split: prod.splits sum.splits)

lemma and_then_Inl:
  "and_then m f = (Inl e, t) \<longleftrightarrow> m = (Inl e, t) \<or> (\<exists>x s. m = (Inr x, s) \<and> f x s = (Inl e, t))"
  by (auto simp: and_then_def split: prod.splits sum.splits)

lemma map_err_Inr [simp]: "map_err f r = Inr x \<longleftrightarrow> r = Inr x"
  by (cases r) (auto simp: map_err_def)

lemma map_err_simps [simp]: "map_err f (Inl e) = Inl (f e)" "map_err f (Inr x) = Inr x"
  by (simp_all add: map_err_def)

lemma isl_map_err [simp]: "isl (map_err f r) = isl r"
  by (cases r) auto

lemma ok_or_Inr [simp]: "ok_or v e = Inr x \<longleftrightarrow> v = Some x"
  by (cases v) (auto simp: ok_or_def)

end
