(* ===== verification/State.thy ===== *)
theory State
  imports Prelude
begin

text \<open>
  The request and response lifecycle (\<^verbatim>\<open>crates/h11r/src/state.rs\<close>).  One \<open>ConnectionState\<close> holds the
  lifecycle of both protocol actors, the keep-alive flag and the pending switch proposals.  An event
  first advances one actor (\<open>direct_transition\<close>), then \<open>process_event\<close> applies its effect on the other
  fields, and \<open>stabilize\<close> runs the joint rules to a fixed point.  The theory shows that the loop of
  \<open>stabilize\<close> ends and settles after one pass, and characterises the direct transitions by a table.
\<close>

section \<open>Roles, states and events\<close>

datatype Role = Client | Server

fun peer :: "Role \<Rightarrow> Role" where
  "peer Client = Server"
| "peer Server = Client"

datatype State =
    Idle
  | SendResponse
  | SendBody
  | Done
  | MightSwitchProtocol
  | SwitchedProtocol
  | MustClose
  | Closed
  | Error

datatype SwitchKind = Connect | Upgrade

record SwitchProposals =
  connect :: bool
  upgrade :: bool

definition NONE :: SwitchProposals where
  "NONE = \<lparr>connect = False, upgrade = False\<rparr>"

fun contains :: "SwitchProposals \<Rightarrow> SwitchKind \<Rightarrow> bool" where
  "contains self Connect = connect self"
| "contains self Upgrade = upgrade self"

definition from_flags :: "bool \<Rightarrow> bool \<Rightarrow> SwitchProposals" where
  "from_flags c u = \<lparr>connect = c, upgrade = u\<rparr>"

definition is_empty :: "SwitchProposals \<Rightarrow> bool" where
  "is_empty self \<longleftrightarrow> \<not> connect self \<and> \<not> upgrade self"

datatype StateEvent =
    SE_Request SwitchProposals
  | SE_InformationalResponse
  | SE_Response
  | SE_Data
  | SE_EndOfMessage
  | SE_ProtocolSwitch SwitchKind
  | SE_ConnectionClosed

datatype InvalidTransition = InvalidTransition

record ConnectionState =
  client :: State
  server :: State
  keep_alive :: bool
  proposals :: SwitchProposals

section \<open>Operations\<close>

definition state_new :: ConnectionState where
  "state_new = \<lparr>client = Idle, server = Idle, keep_alive = True, proposals = NONE\<rparr>"

fun state :: "ConnectionState \<Rightarrow> Role \<Rightarrow> State" where
  "state self Client = client self"
| "state self Server = server self"

fun set_state :: "Role \<Rightarrow> State \<Rightarrow> ConnectionState \<Rightarrow> ConnectionState" where
  "set_state Client s self = self\<lparr>client := s\<rparr>"
| "set_state Server s self = self\<lparr>server := s\<rparr>"

fun reject :: "StateEvent \<Rightarrow> State option" where
  "reject (SE_Request _) = None"
| "reject SE_InformationalResponse = None"
| "reject SE_Response = None"
| "reject SE_Data = None"
| "reject SE_EndOfMessage = None"
| "reject (SE_ProtocolSwitch _) = None"
| "reject SE_ConnectionClosed = None"

definition direct_transition :: "Role \<Rightarrow> State \<Rightarrow> StateEvent \<Rightarrow> State option" where
  "direct_transition role s event =
    (case role of
       Client \<Rightarrow>
         (case s of
            Idle \<Rightarrow>
              (case event of
                 SE_Request _ \<Rightarrow> Some SendBody
               | SE_ConnectionClosed \<Rightarrow> Some Closed
               | _ \<Rightarrow> reject event)
          | SendBody \<Rightarrow>
              (case event of
                 SE_Data \<Rightarrow> Some SendBody
               | SE_EndOfMessage \<Rightarrow> Some Done
               | _ \<Rightarrow> reject event)
          | Done \<Rightarrow> (case event of SE_ConnectionClosed \<Rightarrow> Some Closed | _ \<Rightarrow> reject event)
          | MustClose \<Rightarrow> (case event of SE_ConnectionClosed \<Rightarrow> Some Closed | _ \<Rightarrow> reject event)
          | Closed \<Rightarrow> (case event of SE_ConnectionClosed \<Rightarrow> Some Closed | _ \<Rightarrow> reject event)
          | SendResponse \<Rightarrow> reject event
          | MightSwitchProtocol \<Rightarrow> reject event
          | SwitchedProtocol \<Rightarrow> reject event
          | Error \<Rightarrow> reject event)
     | Server \<Rightarrow>
         (case s of
            Idle \<Rightarrow>
              (case event of
                 SE_Response \<Rightarrow> Some SendBody
               | SE_ConnectionClosed \<Rightarrow> Some Closed
               | _ \<Rightarrow> reject event)
          | SendResponse \<Rightarrow>
              (case event of
                 SE_InformationalResponse \<Rightarrow> Some SendResponse
               | SE_Response \<Rightarrow> Some SendBody
               | SE_ProtocolSwitch _ \<Rightarrow> Some SwitchedProtocol
               | _ \<Rightarrow> reject event)
          | SendBody \<Rightarrow>
              (case event of
                 SE_Data \<Rightarrow> Some SendBody
               | SE_EndOfMessage \<Rightarrow> Some Done
               | _ \<Rightarrow> reject event)
          | Done \<Rightarrow> (case event of SE_ConnectionClosed \<Rightarrow> Some Closed | _ \<Rightarrow> reject event)
          | MustClose \<Rightarrow> (case event of SE_ConnectionClosed \<Rightarrow> Some Closed | _ \<Rightarrow> reject event)
          | Closed \<Rightarrow> (case event of SE_ConnectionClosed \<Rightarrow> Some Closed | _ \<Rightarrow> reject event)
          | MightSwitchProtocol \<Rightarrow> reject event
          | SwitchedProtocol \<Rightarrow> reject event
          | Error \<Rightarrow> reject event))"

text \<open>
  One iteration of the loop body of \<^verbatim>\<open>stabilize\<close>: its five statements, in order.  A completed request
  waits for the server's switch decision; the decision resolves the wait; a completed switch clears
  the proposals; a disabled keep-alive closes an actor whose message ended; a closed or poisoned
  actor keeps the other from starting another message.
\<close>

definition wait_for_switch :: "ConnectionState \<Rightarrow> ConnectionState" where
  "wait_for_switch self =
     (if client self = Done \<and> \<not> is_empty (proposals self)
      then self\<lparr>client := MightSwitchProtocol\<rparr> else self)"

definition resolve_switch :: "ConnectionState \<Rightarrow> ConnectionState" where
  "resolve_switch self =
     (if client self = MightSwitchProtocol \<and> server self = SwitchedProtocol
      then self\<lparr>client := SwitchedProtocol\<rparr>
      else if client self = MightSwitchProtocol \<and> is_empty (proposals self)
      then self\<lparr>client := Done\<rparr> else self)"

definition clear_switch :: "ConnectionState \<Rightarrow> ConnectionState" where
  "clear_switch self =
     (if client self = SwitchedProtocol \<and> server self = SwitchedProtocol
      then self\<lparr>proposals := NONE\<rparr> else self)"

definition close_unless_kept :: "ConnectionState \<Rightarrow> ConnectionState" where
  "close_unless_kept self =
     (if \<not> keep_alive self
      then (let self = (if client self = Done then self\<lparr>client := MustClose\<rparr> else self)
            in (if server self = Done then self\<lparr>server := MustClose\<rparr> else self))
      else self)"

definition close_with_other :: "ConnectionState \<Rightarrow> ConnectionState" where
  "close_with_other self =
     (if (client self = Closed \<and> (server self = Done \<or> server self = Idle))
          \<or> (client self = Error \<and> server self = Done)
      then self\<lparr>server := MustClose\<rparr>
      else if ((client self = Done \<or> client self = Idle) \<and> server self = Closed)
          \<or> (client self = Done \<and> server self = Error)
      then self\<lparr>client := MustClose\<rparr>
      else self)"

definition stabilize_pass :: "ConnectionState \<Rightarrow> ConnectionState" where
  "stabilize_pass self =
     close_with_other (close_unless_kept (clear_switch (resolve_switch (wait_for_switch self))))"

lemmas stabilize_pass_defs = stabilize_pass_def close_with_other_def close_unless_kept_def
  clear_switch_def resolve_switch_def wait_for_switch_def

text \<open>
  The loop repeats the pass until the state stops changing.  Its measure adds a weight for pending
  proposals to the ranks of the two actors; with proposals pending a finished client moves to the
  waiting state, without them it moves back, so the client's rank depends on them.
\<close>

fun client_rank :: "bool \<Rightarrow> State \<Rightarrow> nat" where
  "client_rank pending Idle = 3"
| "client_rank True Done = 3"
| "client_rank True MightSwitchProtocol = 2"
| "client_rank False Done = 2"
| "client_rank False MightSwitchProtocol = 3"
| "client_rank pending SwitchedProtocol = 1"
| "client_rank pending _ = 0"

fun server_rank :: "State \<Rightarrow> nat" where
  "server_rank Idle = 1"
| "server_rank Done = 1"
| "server_rank _ = 0"

definition stabilize_rank :: "ConnectionState \<Rightarrow> nat" where
  "stabilize_rank self =
     (if is_empty (proposals self) then 0 else 5)
     + client_rank (\<not> is_empty (proposals self)) (client self) + server_rank (server self)"

lemma is_empty_NONE [simp]: "is_empty NONE"
  by (simp add: is_empty_def NONE_def)

lemma is_empty_iff: "is_empty p \<longleftrightarrow> p = NONE"
  by (cases p) (auto simp: is_empty_def NONE_def)

lemma contains_NONE [simp]: "\<not> contains NONE k"
  by (cases k) (auto simp: NONE_def)

text \<open>Case analysis over every configuration: both actors, the flag, and whether a switch is pending.\<close>

lemma configuration_cases:
  assumes "\<And>c s k p. \<lbrakk>self = \<lparr>client = c, server = s, keep_alive = k, proposals = p\<rparr>\<rbrakk> \<Longrightarrow> P"
  shows P
  by (rule assms [of "client self" "server self" "keep_alive self" "proposals self"]) simp

lemma stabilize_pass_decreases:
  "stabilize_pass self \<noteq> self \<Longrightarrow> stabilize_rank (stabilize_pass self) < stabilize_rank self"
proof (rule configuration_cases [of self])
  fix c s k p
  assume eq: "self = \<lparr>client = c, server = s, keep_alive = k, proposals = p\<rparr>"
    and changes: "stabilize_pass self \<noteq> self"
  from changes show ?thesis
    unfolding eq
    by (cases c; cases s; cases k; cases "p = NONE";
        simp add: stabilize_pass_defs stabilize_rank_def is_empty_iff)
qed

function stabilize :: "ConnectionState \<Rightarrow> ConnectionState" where
  "stabilize self =
     (let before = self; after = stabilize_pass self
      in if after = before then after else stabilize after)"
  by pat_completeness auto
termination
  by (relation "measure stabilize_rank") (auto simp: Let_def stabilize_pass_decreases)

declare stabilize.simps [simp del]

text \<open>The effect of an accepted event on the fields other than the acting role's own state.\<close>

fun joint_effect ::
  "Role \<Rightarrow> StateEvent \<Rightarrow> State \<Rightarrow> ConnectionState \<Rightarrow> ConnectionState option" where
  "joint_effect Client (SE_Request ps) current next =
     (if server next \<noteq> Idle then None
      else Some (next\<lparr>proposals := ps, server := SendResponse\<rparr>))"
| "joint_effect Server (SE_ProtocolSwitch kind) current next =
     (if \<not> contains (proposals next) kind then None else Some next)"
| "joint_effect Server SE_Response current next =
     (let next = (if contains (proposals next) Connect then next\<lparr>keep_alive := False\<rparr> else next);
          next = next\<lparr>proposals := NONE\<rparr>
      in Some (if current = Idle then next\<lparr>keep_alive := False\<rparr> else next))"
| "joint_effect _ _ current next = Some next"

definition process_event ::
  "ConnectionState \<Rightarrow> Role \<Rightarrow> StateEvent \<Rightarrow> (InvalidTransition + unit) \<times> ConnectionState" where
  "process_event self role event =
    (let current = state self role in
     case direct_transition role current event of
       None \<Rightarrow> (Inl InvalidTransition, self)
     | Some transitioned \<Rightarrow>
         (case joint_effect role event current self of
            None \<Rightarrow> (Inl InvalidTransition, self)
          | Some next \<Rightarrow> (Inr (), stabilize (set_state role transitioned next))))"

definition disable_keep_alive :: "ConnectionState \<Rightarrow> ConnectionState" where
  "disable_keep_alive self = stabilize (self\<lparr>keep_alive := False\<rparr>)"

definition process_error :: "ConnectionState \<Rightarrow> Role \<Rightarrow> ConnectionState" where
  "process_error self role = stabilize (set_state role Error self)"

definition state_start_next_cycle ::
  "ConnectionState \<Rightarrow> (InvalidTransition + unit) \<times> ConnectionState" where
  "state_start_next_cycle self =
     (if client self \<noteq> Done \<or> server self \<noteq> Done \<or> \<not> keep_alive self \<or> \<not> is_empty (proposals self)
      then (Inl InvalidTransition, self)
      else (Inr (), state_new))"

section \<open>Direct transitions as a table\<close>

text \<open>The protocol contract of the unit tests, as one rule per legal transition of one actor.\<close>

inductive direct_contract :: "Role \<Rightarrow> State \<Rightarrow> StateEvent \<Rightarrow> State \<Rightarrow> bool" where
  client_request: "direct_contract Client Idle (SE_Request ps) SendBody"
| server_response: "s \<in> {Idle, SendResponse} \<Longrightarrow> direct_contract Server s SE_Response SendBody"
| server_info: "direct_contract Server SendResponse SE_InformationalResponse SendResponse"
| server_switch: "direct_contract Server SendResponse (SE_ProtocolSwitch k) SwitchedProtocol"
| body_data: "direct_contract r SendBody SE_Data SendBody"
| body_end: "direct_contract r SendBody SE_EndOfMessage Done"
| close: "s \<in> {Idle, Done, MustClose, Closed} \<Longrightarrow> direct_contract r s SE_ConnectionClosed Closed"

lemma reject_None [simp]: "reject e = None"
  by (cases e) auto

lemma direct_transition_iff: "direct_transition r s e = Some t \<longleftrightarrow> direct_contract r s e t"
  by (cases r; cases s; cases e)
     (auto simp: direct_transition_def direct_contract.simps)

lemma direct_transition_None: "direct_transition r s e = None \<longleftrightarrow> (\<forall>t. \<not> direct_contract r s e t)"
  by (auto simp flip: direct_transition_iff)

inductive_cases direct_contractE: "direct_contract r s e t"

section \<open>The fixed point of the joint rules\<close>

lemma stabilize_pass_idem [simp]: "stabilize_pass (stabilize_pass self) = stabilize_pass self"
proof (rule configuration_cases [of self])
  fix c s k p
  assume eq: "self = \<lparr>client = c, server = s, keep_alive = k, proposals = p\<rparr>"
  show ?thesis
    unfolding eq
    by (cases c; cases s; cases k; cases "p = NONE"; simp add: stabilize_pass_defs is_empty_iff)
qed

lemma stabilize_eq_pass: "stabilize self = stabilize_pass self"
  by (subst stabilize.simps, simp add: Let_def, subst stabilize.simps, simp add: Let_def)

lemma stabilize_idem [simp]: "stabilize (stabilize self) = stabilize self"
  by (simp add: stabilize_eq_pass)

lemma keep_alive_stabilize [simp]: "keep_alive (stabilize self) = keep_alive self"
  by (simp add: stabilize_eq_pass stabilize_pass_defs Let_def)

lemma state_set_state [simp]:
  "state (set_state r s c) r' = (if r' = r then s else state c r')"
  "keep_alive (set_state r s c) = keep_alive c"
  "proposals (set_state r s c) = proposals c"
  "client (set_state r s c) = (if r = Client then s else client c)"
  "server (set_state r s c) = (if r = Server then s else server c)"
  by (cases r; cases r'; simp)+

lemma peer_peer [simp]: "peer (peer r) = r" and peer_neq [simp]: "peer r \<noteq> r" "r \<noteq> peer r"
  by (cases r; simp)+

end
