(* ===== verification/Lifecycle.thy ===== *)
theory Lifecycle
  imports State
begin

text \<open>
  Runs of the lifecycle machine of \<open>State\<close>.  A step is one of the four operations the connection
  calls; a run is a sequence of steps from a fresh \<open>ConnectionState\<close>.  The theory proves which joint
  configurations a run can reach, and the properties of whole runs: nothing re-enables keep-alive,
  nothing revives a poisoned actor, a switch is only accepted when the request of the same cycle
  proposed it, and two requests are always separated by a completed cycle.
\<close>

section \<open>Steps and runs\<close>

datatype state_op =
    Op_Event Role StateEvent
  | Op_DisableKeepAlive
  | Op_Error Role
  | Op_NextCycle

text \<open>Accepted operations only: a rejected one leaves the state as it was.\<close>

inductive state_step :: "ConnectionState \<Rightarrow> state_op \<Rightarrow> ConnectionState \<Rightarrow> bool" where
  event: "process_event c r e = (Inr (), c') \<Longrightarrow> state_step c (Op_Event r e) c'"
| disable: "state_step c Op_DisableKeepAlive (disable_keep_alive c)"
| error: "state_step c (Op_Error r) (process_error c r)"
| next_cycle: "state_start_next_cycle c = (Inr (), c') \<Longrightarrow> state_step c Op_NextCycle c'"

inductive_cases event_stepE [elim!]: "state_step c (Op_Event r e) c'"
inductive_cases disable_stepE [elim!]: "state_step c Op_DisableKeepAlive c'"
inductive_cases error_stepE [elim!]: "state_step c (Op_Error r) c'"
inductive_cases next_stepE [elim!]: "state_step c Op_NextCycle c'"

inductive state_run :: "ConnectionState \<Rightarrow> state_op list \<Rightarrow> ConnectionState \<Rightarrow> bool" where
  run_nil: "state_run c [] c"
| run_snoc: "state_run c ops c' \<Longrightarrow> state_step c' op c'' \<Longrightarrow> state_run c (ops @ [op]) c''"

inductive_cases run_nilE [elim!]: "state_run c [] c'"

lemma run_snocE:
  assumes "state_run c (ops @ [op]) c''"
  obtains c' where "state_run c ops c'" and "state_step c' op c''"
  using assms by (cases rule: state_run.cases) auto

lemma run_appendE:
  assumes "state_run c (xs @ ys) c''"
  obtains c' where "state_run c xs c'" and "state_run c' ys c''"
  using assms
proof (induction ys arbitrary: c'' thesis rule: rev_induct)
  case Nil
  then show ?case by (metis append_Nil2 run_nil)
next
  case (snoc y ys)
  from snoc.prems(2) obtain d where "state_run c (xs @ ys) d" and step: "state_step d y c''"
    by (metis append_assoc run_snocE)
  with snoc.IH obtain c' where "state_run c xs c'" and "state_run c' ys d" by blast
  with step show ?case by (metis snoc.prems(1) run_snoc)
qed

lemma run_preserves:
  assumes "state_run c ops c'" and "P c" and "\<And>c op c'. state_step c op c' \<Longrightarrow> P c \<Longrightarrow> P c'"
  shows "P c'"
  using assms(1,2) by (induction rule: state_run.induct) (auto intro: assms(3))

lemma process_event_Inr:
  "process_event c r e = (Inr (), c') \<longleftrightarrow>
     (\<exists>t. direct_contract r (state c r) e t \<and> joint_effect r e (state c r) c \<noteq> None
        \<and> c' = stabilize_pass (set_state r t (the (joint_effect r e (state c r) c))))"
  by (auto simp: process_event_def Let_def direct_transition_iff [symmetric] stabilize_eq_pass
      split: option.splits)

lemma process_event_Inl: "process_event c r e = (Inl err, c') \<Longrightarrow> c' = c"
  by (auto simp: process_event_def Let_def split: option.splits)

section \<open>Reachable joint configurations\<close>

text \<open>Per client state, the server states that can accompany it.\<close>

fun legal_pair :: "State \<Rightarrow> State \<Rightarrow> bool" where
  "legal_pair Idle s = (s = Idle \<or> s = SendBody \<or> s = MustClose \<or> s = Error)"
| "legal_pair SendResponse s = False"
| "legal_pair SendBody s = (s \<noteq> Idle \<and> s \<noteq> MightSwitchProtocol)"
| "legal_pair Done s = (s = SendResponse \<or> s = SendBody \<or> s = Done)"
| "legal_pair MightSwitchProtocol s = (s = SendResponse \<or> s = Error)"
| "legal_pair SwitchedProtocol s = (s = SwitchedProtocol \<or> s = Error)"
| "legal_pair MustClose s =
     (s = SendResponse \<or> s = SendBody \<or> s = MustClose \<or> s = Closed \<or> s = Error)"
| "legal_pair Closed s =
     (s = SendResponse \<or> s = SendBody \<or> s = MustClose \<or> s = Closed \<or> s = Error)"
| "legal_pair Error s = (s \<noteq> Done \<and> s \<noteq> MightSwitchProtocol)"

text \<open>
  The joint configurations of a run: the pair of lifecycle states is one of the table's 35 of 81, a
  disabled keep-alive leaves no actor merely done, an actor must close only because the other one
  closed or failed or because keep-alive is off, proposals are pending only while the server has
  not decided or has just switched, and a waiting client always has one pending.
\<close>

definition legal_configuration :: "ConnectionState \<Rightarrow> bool" where
  "legal_configuration c \<longleftrightarrow>
     legal_pair (client c) (server c)
     \<and> (\<not> keep_alive c \<longrightarrow> client c \<noteq> Done \<and> server c \<noteq> Done)
     \<and> (client c = Idle \<and> server c = SendBody \<longrightarrow> \<not> keep_alive c)
     \<and> (client c = MustClose \<or> server c = MustClose \<longrightarrow>
          client c \<in> {Closed, Error} \<or> server c \<in> {Closed, Error} \<or> \<not> keep_alive c)
     \<and> (proposals c \<noteq> NONE \<longrightarrow>
          client c \<in> {SendBody, MightSwitchProtocol, Error}
          \<and> server c \<in> {SendResponse, SwitchedProtocol, Error})
     \<and> (client c = MightSwitchProtocol \<longrightarrow> proposals c \<noteq> NONE)
     \<and> (client c = SendBody \<and> server c = SwitchedProtocol \<longrightarrow> proposals c \<noteq> NONE)"

lemma legal_state_new: "legal_configuration state_new"
  by (simp add: legal_configuration_def state_new_def)

lemma legal_process_error:
  assumes "legal_configuration c"
  shows "legal_configuration (process_error c r)"
proof (rule configuration_cases [of c])
  fix cl sv k p
  assume eq: "c = \<lparr>client = cl, server = sv, keep_alive = k, proposals = p\<rparr>"
  from assms show ?thesis
    unfolding eq process_error_def stabilize_eq_pass
    by (cases r; cases cl; cases sv; cases k; cases "p = NONE";
        simp add: legal_configuration_def stabilize_pass_defs is_empty_iff)
qed

lemma legal_disable_keep_alive:
  assumes "legal_configuration c"
  shows "legal_configuration (disable_keep_alive c)"
proof (rule configuration_cases [of c])
  fix cl sv k p
  assume eq: "c = \<lparr>client = cl, server = sv, keep_alive = k, proposals = p\<rparr>"
  from assms show ?thesis
    unfolding eq disable_keep_alive_def stabilize_eq_pass
    by (cases cl; cases sv; cases k; cases "p = NONE";
        simp add: legal_configuration_def stabilize_pass_defs is_empty_iff)
qed

lemma legal_client_event:
  assumes legal: "legal_configuration c" and "process_event c Client e = (Inr (), c')"
  shows "legal_configuration c'"
proof (rule configuration_cases [of c])
  fix cl sv k p
  assume eq: "c = \<lparr>client = cl, server = sv, keep_alive = k, proposals = p\<rparr>"
  from assms(2) obtain t where d: "direct_contract Client cl e t"
    and ok: "joint_effect Client e cl c \<noteq> None"
    and c': "c' = stabilize_pass (set_state Client t (the (joint_effect Client e cl c)))"
    by (auto simp: process_event_Inr eq)
  from legal ok show ?thesis
    unfolding c' unfolding eq
    by (cases rule: direct_contract.cases [OF d]; simp; cases cl; simp; cases sv; simp;
        cases k; cases "p = NONE"; simp add: legal_configuration_def stabilize_pass_defs is_empty_iff)
qed

lemma legal_server_response:
  assumes "legal_configuration \<lparr>client = cl, server = sv, keep_alive = k, proposals = p\<rparr>"
    and "sv = Idle \<or> sv = SendResponse"
  shows "legal_configuration (stabilize_pass
    \<lparr>client = cl, server = SendBody, keep_alive = (k \<and> \<not> connect p \<and> sv \<noteq> Idle), proposals = NONE\<rparr>)"
  using assms
  by (cases cl; cases sv; cases k; cases "connect p"; cases "p = NONE";
      simp add: legal_configuration_def stabilize_pass_defs)

lemma legal_server_event:
  assumes legal: "legal_configuration c" and "process_event c Server e = (Inr (), c')"
  shows "legal_configuration c'"
proof (rule configuration_cases [of c])
  fix cl sv k p
  assume eq: "c = \<lparr>client = cl, server = sv, keep_alive = k, proposals = p\<rparr>"
  from assms(2) obtain t where d: "direct_contract Server sv e t"
    and ok: "joint_effect Server e sv c \<noteq> None"
    and c': "c' = stabilize_pass (set_state Server t (the (joint_effect Server e sv c)))"
    by (auto simp: process_event_Inr eq)
  show ?thesis
  proof (cases "e = SE_Response")
    case True
    with d have sv: "sv = Idle \<or> sv = SendResponse" and t: "t = SendBody"
      by (auto elim: direct_contractE)
    have "c' = stabilize_pass \<lparr>client = cl, server = SendBody,
        keep_alive = (k \<and> \<not> connect p \<and> sv \<noteq> Idle), proposals = NONE\<rparr>"
      by (simp add: c' eq t True Let_def)
    with legal_server_response [OF legal [unfolded eq] sv] show ?thesis by simp
  next
    case False
    with d have "joint_effect Server e sv c = Some c"
      using ok by (auto elim!: direct_contractE split: if_splits)
    with False legal d show ?thesis
      unfolding c' unfolding eq
      by (cases rule: direct_contract.cases [OF d]; simp; cases sv; simp; cases cl; simp;
          cases k; cases "p = NONE"; simp add: legal_configuration_def stabilize_pass_defs is_empty_iff)
  qed
qed

lemma legal_step: "state_step c op c' \<Longrightarrow> legal_configuration c \<Longrightarrow> legal_configuration c'"
proof (induction rule: state_step.induct)
  case (event c r e c')
  then show ?case by (cases r) (auto intro: legal_client_event legal_server_event)
next
  case (next_cycle c c')
  then show ?case by (auto simp: state_start_next_cycle_def legal_state_new split: if_splits)
qed (auto intro: legal_process_error legal_disable_keep_alive)

lemma legal_run: "state_run state_new ops c \<Longrightarrow> legal_configuration c"
  by (erule run_preserves) (auto intro: legal_state_new legal_step)

lemma legal_stable: "legal_configuration c \<Longrightarrow> stabilize_pass c = c"
  by (cases "client c"; cases "server c")
     (auto simp: legal_configuration_def stabilize_pass_defs is_empty_iff)

section \<open>What the joint rules leave alone\<close>

lemma role_neq: "r \<noteq> q \<longleftrightarrow> r = peer q"
  by (cases r; cases q; simp)

lemma keep_alive_stabilize_pass [simp]: "keep_alive (stabilize_pass c) = keep_alive c"
  by (simp add: stabilize_pass_defs Let_def)

lemma proposals_stabilize_pass: "proposals (stabilize_pass c) = proposals c \<or> proposals (stabilize_pass c) = NONE"
  by (simp add: stabilize_pass_defs Let_def)

lemma client_stabilize_pass:
  assumes "client c \<noteq> Idle" "client c \<noteq> Done" "client c \<noteq> MightSwitchProtocol"
  shows "client (stabilize_pass c) = client c"
  using assms by (simp add: stabilize_pass_defs Let_def)

lemma server_stabilize_pass:
  assumes "server c \<noteq> Idle" "server c \<noteq> Done"
  shows "server (stabilize_pass c) = server c"
  using assms by (simp add: stabilize_pass_defs Let_def)

lemma client_stabilize_pass_Idle: "client (stabilize_pass c) = Idle \<Longrightarrow> client c = Idle"
  by (simp add: stabilize_pass_defs Let_def split: if_splits)

lemma server_stabilize_pass_cases:
  "server (stabilize_pass c) = server c \<or> server (stabilize_pass c) = MustClose"
  by (simp add: stabilize_pass_defs Let_def)

lemmas stabilize_pass_frame = client_stabilize_pass server_stabilize_pass

lemma state_stabilize_pass_Error: "state c r = Error \<Longrightarrow> state (stabilize_pass c) r = Error"
  by (cases r) (simp_all add: stabilize_pass_frame)

lemma process_error_state: "state (process_error st r) r = Error"
  by (simp add: process_error_def stabilize_eq_pass state_stabilize_pass_Error)

section \<open>Permanent facts of a run\<close>

lemma joint_effect_keep_alive: "joint_effect r e s c = Some d \<Longrightarrow> keep_alive d \<Longrightarrow> keep_alive c"
  by (cases "(r, e, s, c)" rule: joint_effect.cases) (auto simp: Let_def split: if_splits)

lemma joint_effect_other_state:
  "joint_effect r e s c = Some d \<Longrightarrow>
     state d (peer r) = state c (peer r) \<or> state c (peer r) = Idle \<and> state d (peer r) = SendResponse"
  by (cases "(r, e, s, c)" rule: joint_effect.cases) (auto simp: Let_def split: if_splits)

lemma keep_alive_step: "state_step c op c' \<Longrightarrow> \<not> keep_alive c \<Longrightarrow> \<not> keep_alive c'"
proof (induction rule: state_step.induct)
  case (event c r e c')
  then obtain d where "joint_effect r e (state c r) c = Some d" and "keep_alive c' = keep_alive d"
    by (auto simp: process_event_Inr)
  with event show ?case by (auto dest: joint_effect_keep_alive)
qed (auto simp: disable_keep_alive_def process_error_def state_start_next_cycle_def split: if_splits)

lemma direct_contract_Error [simp]: "\<not> direct_contract r Error e t"
  by (auto elim: direct_contractE)

lemma error_step: "state_step c op c' \<Longrightarrow> state c r = Error \<Longrightarrow> state c' r = Error"
proof (induction rule: state_step.induct)
  case (event c q e c')
  then obtain t d where t: "direct_contract q (state c q) e t"
    and d: "joint_effect q e (state c q) c = Some d"
    and c': "c' = stabilize_pass (set_state q t d)"
    by (auto simp: process_event_Inr)
  from t event.prems have "r \<noteq> q" by auto
  then have "r = peer q" by (simp add: role_neq)
  with joint_effect_other_state [OF d] event.prems show ?case
    unfolding c' by (intro state_stabilize_pass_Error) (auto simp: eq_commute)
next
  case (next_cycle c c')
  then show ?case by (cases r) (auto simp: state_start_next_cycle_def split: if_splits)
qed (auto simp: disable_keep_alive_def process_error_def stabilize_eq_pass
      intro!: state_stabilize_pass_Error elim!: state.elims)

section \<open>The operations of one cycle\<close>

text \<open>The operations since the last \<^verbatim>\<open>start_next_cycle\<close> of a run.\<close>

definition cycle_ops :: "state_op list \<Rightarrow> state_op list" where
  "cycle_ops ops = rev (takeWhile (\<lambda>op. op \<noteq> Op_NextCycle) (rev ops))"

lemma cycle_ops_simps [simp]:
  "cycle_ops [] = []"
  "cycle_ops (ops @ [op]) = (if op = Op_NextCycle then [] else cycle_ops ops @ [op])"
  by (auto simp: cycle_ops_def)

fun is_request_op :: "state_op \<Rightarrow> bool" where
  "is_request_op (Op_Event Client (SE_Request _)) = True"
| "is_request_op _ = False"

fun is_final_op :: "state_op \<Rightarrow> bool" where
  "is_final_op (Op_Event Server SE_Response) = True"
| "is_final_op (Op_Event Server (SE_ProtocolSwitch _)) = True"
| "is_final_op _ = False"

text \<open>A client is idle, and a server undecided, only before its message of the cycle.\<close>

lemma direct_contract_target:
  "direct_contract r s e t \<Longrightarrow> t \<noteq> Idle \<and> (t = SendResponse \<longrightarrow> s = SendResponse \<and> e = SE_InformationalResponse)"
  by (auto elim: direct_contractE)

lemma client_Idle_event:
  assumes "process_event c r e = (Inr (), c')" and "client c' = Idle"
  shows "client c = Idle \<and> r = Server"
proof -
  from assms(1) obtain t d where t: "direct_contract r (state c r) e t"
    and d: "joint_effect r e (state c r) c = Some d"
    and c': "c' = stabilize_pass (set_state r t d)"
    by (auto simp: process_event_Inr)
  from assms(2) have Idle: "state (set_state r t d) Client = Idle"
    unfolding c' by (auto dest: client_stabilize_pass_Idle)
  with direct_contract_target [OF t] have "r = Server" by (cases r) auto
  with Idle joint_effect_other_state [OF d] show ?thesis by auto
qed

lemma client_Idle_step:
  assumes "state_step c op c'" and "client c' = Idle" and "op \<noteq> Op_NextCycle"
  shows "client c = Idle \<and> \<not> is_request_op op"
  using assms(1)
proof cases
  case (event r e)
  with client_Idle_event [OF event(2) assms(2)] show ?thesis by auto
next
  case (error r)
  with assms(2) have "state (set_state r Error c) Client = Idle"
    by (auto simp: process_error_def stabilize_eq_pass dest: client_stabilize_pass_Idle)
  with error show ?thesis by (auto split: if_splits)
next
  case disable
  with assms(2) show ?thesis
    by (auto simp: disable_keep_alive_def stabilize_eq_pass dest: client_stabilize_pass_Idle)
next
  case next_cycle
  with assms(3) show ?thesis by simp
qed

definition undecided :: "State \<Rightarrow> bool" where
  "undecided s \<longleftrightarrow> s = Idle \<or> s = SendResponse"

lemma undecided_stabilize_pass: "undecided (server (stabilize_pass c)) \<Longrightarrow> undecided (server c)"
  using server_stabilize_pass_cases [of c] by (auto simp: undecided_def)

lemma undecided_event:
  assumes "process_event c r e = (Inr (), c')" and "undecided (server c')"
  shows "undecided (server c) \<and> \<not> is_final_op (Op_Event r e)"
proof -
  from assms(1) obtain t d where t: "direct_contract r (state c r) e t"
    and d: "joint_effect r e (state c r) c = Some d"
    and c': "c' = stabilize_pass (set_state r t d)"
    by (auto simp: process_event_Inr)
  from assms(2) have u: "undecided (state (set_state r t d) Server)"
    unfolding c' by (auto dest: undecided_stabilize_pass)
  show ?thesis
  proof (cases r)
    case Server
    with u direct_contract_target [OF t] show ?thesis by (auto simp: undecided_def)
  next
    case Client
    with u joint_effect_other_state [OF d] show ?thesis by (auto simp: undecided_def)
  qed
qed

lemma server_undecided_step:
  assumes "state_step c op c'" and "undecided (server c')" and "op \<noteq> Op_NextCycle"
  shows "undecided (server c) \<and> \<not> is_final_op op"
  using assms(1)
proof cases
  case (event r e)
  with undecided_event [OF event(2) assms(2)] show ?thesis by auto
next
  case (error r)
  with assms(2) have "undecided (state (set_state r Error c) Server)"
    by (auto simp: process_error_def stabilize_eq_pass dest: undecided_stabilize_pass)
  with error show ?thesis by (auto simp: undecided_def split: if_splits)
next
  case disable
  with assms(2) show ?thesis
    by (auto simp: disable_keep_alive_def stabilize_eq_pass dest: undecided_stabilize_pass)
next
  case next_cycle
  with assms(3) show ?thesis by simp
qed

section \<open>One request and one decision per cycle\<close>

lemma cycle_request_count:
  assumes "state_run state_new ops c"
  shows "length (filter is_request_op (cycle_ops ops)) \<le> (if client c = Idle then 0 else 1)"
  using assms
proof (induction state_new ops c rule: state_run.induct)
  case (run_snoc ops c' op c'')
  show ?case
  proof (cases "op = Op_NextCycle")
    case False
    have "client c' = Idle" if "is_request_op op"
      using that run_snoc.hyps(3)
      by (auto elim!: is_request_op.elims direct_contractE simp: process_event_Inr)
    with False run_snoc.hyps(2) client_Idle_step [OF run_snoc.hyps(3)] show ?thesis
      by (auto split: if_splits)
  qed simp
qed simp

lemma cycle_final_count:
  assumes "state_run state_new ops c"
  shows "length (filter is_final_op (cycle_ops ops)) \<le> (if undecided (server c) then 0 else 1)"
  using assms
proof (induction state_new ops c rule: state_run.induct)
  case (run_snoc ops c' op c'')
  show ?case
  proof (cases "op = Op_NextCycle")
    case False
    have "undecided (server c')" if "is_final_op op"
      using that run_snoc.hyps(3)
      by (auto elim!: is_final_op.elims direct_contractE simp: process_event_Inr undecided_def)
    with False run_snoc.hyps(2) server_undecided_step [OF run_snoc.hyps(3)] show ?thesis
      by (auto split: if_splits)
  qed simp
qed simp

lemma pending_proposals_requested:
  assumes "state_run state_new ops c" and "proposals c \<noteq> NONE"
  shows "Op_Event Client (SE_Request (proposals c)) \<in> set (cycle_ops ops)"
  using assms
proof (induction state_new ops c rule: state_run.induct)
  case run_nil
  then show ?case by (simp add: state_new_def)
next
  case (run_snoc ops c' op c'')
  have "op = Op_Event Client (SE_Request (proposals c'')) \<or> proposals c'' = proposals c' \<and> op \<noteq> Op_NextCycle"
    using run_snoc.hyps(3) run_snoc.prems
  proof cases
    case (event r e)
    then obtain t d where d: "joint_effect r e (state c' r) c' = Some d"
      and c'': "c'' = stabilize_pass (set_state r t d)"
      by (auto simp: process_event_Inr)
    with run_snoc.prems proposals_stabilize_pass [of "set_state r t d"]
    have "proposals c'' = proposals d" and "proposals d \<noteq> NONE" by auto
    with d event show ?thesis
      by (cases "(r, e, state c' r, c')" rule: joint_effect.cases)
         (auto simp: Let_def split: if_splits)
  next
    case disable
    with run_snoc.prems proposals_stabilize_pass [of "c'\<lparr>keep_alive := False\<rparr>"] show ?thesis
      by (auto simp: disable_keep_alive_def stabilize_eq_pass)
  next
    case (error r)
    with run_snoc.prems proposals_stabilize_pass [of "set_state r Error c'"] show ?thesis
      by (auto simp: process_error_def stabilize_eq_pass)
  next
    case next_cycle
    with run_snoc.prems show ?thesis
      by (auto simp: state_start_next_cycle_def state_new_def split: if_splits)
  qed
  with run_snoc show ?case by auto
qed

section \<open>Executing runs\<close>

text \<open>Steps and runs as functions: \<open>None\<close> where an operation is rejected.\<close>

fun exec_op :: "ConnectionState \<Rightarrow> state_op \<Rightarrow> ConnectionState option" where
  "exec_op c (Op_Event r e) = (case process_event c r e of (Inr _, c') \<Rightarrow> Some c' | (Inl _, _) \<Rightarrow> None)"
| "exec_op c Op_DisableKeepAlive = Some (disable_keep_alive c)"
| "exec_op c (Op_Error r) = Some (process_error c r)"
| "exec_op c Op_NextCycle = (case state_start_next_cycle c of (Inr _, c') \<Rightarrow> Some c' | (Inl _, _) \<Rightarrow> None)"

fun exec_run :: "ConnectionState \<Rightarrow> state_op list \<Rightarrow> ConnectionState option" where
  "exec_run c [] = Some c"
| "exec_run c (op # ops) = (case exec_op c op of None \<Rightarrow> None | Some c' \<Rightarrow> exec_run c' ops)"

lemma exec_op_step: "exec_op c op = Some c' \<Longrightarrow> state_step c op c'"
  by (cases op) (auto intro: state_step.intros split: prod.splits sum.splits)

lemma state_run_Cons: "state_step c op c' \<Longrightarrow> state_run c' ops c'' \<Longrightarrow> state_run c (op # ops) c''"
proof (induction ops arbitrary: c'' rule: rev_induct)
  case Nil
  then show ?case using run_snoc [OF run_nil, of c op c'] by auto
next
  case (snoc x ops)
  from snoc.prems(2) obtain d where "state_run c' ops d" "state_step d x c''" by (rule run_snocE)
  with snoc.IH [OF snoc.prems(1)] run_snoc [of c "op # ops" d x c''] show ?case by simp
qed

lemma exec_run_run: "exec_run c ops = Some c' \<Longrightarrow> state_run c ops c'"
  by (induction c ops rule: exec_run.induct)
     (auto intro: run_nil state_run_Cons exec_op_step split: option.splits)

lemma next_cycle_Inr:
  "state_start_next_cycle c = (Inr u, c') \<Longrightarrow> keep_alive c \<and> state c r = Done \<and> c' = state_new"
  by (cases r) (auto simp: state_start_next_cycle_def split: if_splits)

lemma keep_alive_run:
  "state_run c ops c' \<Longrightarrow> \<not> keep_alive c \<Longrightarrow> \<not> keep_alive c' \<and> Op_NextCycle \<notin> set ops"
  by (induction rule: state_run.induct) (auto dest: keep_alive_step next_cycle_Inr)

lemma error_run:
  "state_run c ops c' \<Longrightarrow> state c r = Error \<Longrightarrow>
     state c' r = Error \<and> Op_NextCycle \<notin> set ops \<and> (\<forall>e. Op_Event r e \<notin> set ops)"
proof (induction rule: state_run.induct)
  case (run_snoc c ops c' op c'')
  then have "state c' r = Error" by simp
  with run_snoc.hyps(2) have "op \<noteq> Op_NextCycle" "\<forall>e. op \<noteq> Op_Event r e"
    by (auto dest: next_cycle_Inr [of _ _ _ r] simp: process_event_Inr)
  with run_snoc error_step [OF run_snoc.hyps(2)] show ?case by auto
qed simp

section \<open>Properties of the lifecycle\<close>

text \<open>C31. The loop of \<^verbatim>\<open>stabilize\<close> ends, one pass over the coupled rules already reaches the fixed point
  it looks for, and running the rules again on the result changes nothing.\<close>

theorem stabilize_settles:
  "stabilize c = stabilize_pass c \<and> stabilize_pass (stabilize c) = stabilize c"
  by (simp add: stabilize_eq_pass)

text \<open>C29. \<^verbatim>\<open>process_event\<close> accepts exactly the transitions of the protocol table, a request only while the
  server is idle, and a protocol switch only of a proposed kind; a rejected event leaves the joint
  state as it was.\<close>

theorem process_event_contract:
  "(fst (process_event c r e) = Inr () \<longleftrightarrow>
      (\<exists>t. direct_contract r (state c r) e t)
      \<and> (r = Client \<and> (\<exists>ps. e = SE_Request ps) \<longrightarrow> server c = Idle)
      \<and> (\<forall>k. r = Server \<and> e = SE_ProtocolSwitch k \<longrightarrow> contains (proposals c) k))
   \<and> (fst (process_event c r e) \<noteq> Inr () \<longrightarrow> snd (process_event c r e) = c)"
proof -
  have "fst (process_event c r e) = Inr () \<longleftrightarrow>
      (\<exists>t. direct_contract r (state c r) e t) \<and> joint_effect r e (state c r) c \<noteq> None"
    by (auto simp: process_event_def Let_def direct_transition_iff [symmetric] split: option.splits)
  moreover have "joint_effect r e (state c r) c \<noteq> None \<longleftrightarrow>
      (r = Client \<and> (\<exists>ps. e = SE_Request ps) \<longrightarrow> server c = Idle)
      \<and> (\<forall>k. r = Server \<and> e = SE_ProtocolSwitch k \<longrightarrow> contains (proposals c) k)"
    by (cases r; cases e) (auto simp: Let_def)
  moreover have "fst (process_event c r e) \<noteq> Inr () \<longrightarrow> snd (process_event c r e) = c"
    by (auto simp: process_event_def Let_def split: option.splits)
  ultimately show ?thesis by blast
qed

theorem process_event_contract_witness:
  "fst (process_event state_new Server (SE_ProtocolSwitch Upgrade)) \<noteq> Inr ()
   \<and> snd (process_event state_new Server (SE_ProtocolSwitch Upgrade)) = state_new"
  using process_event_contract [of state_new Server "SE_ProtocolSwitch Upgrade"]
  by (simp add: state_new_def NONE_def)

text \<open>C17. Every joint configuration that a run of accepted lifecycle operations reaches from a fresh
  connection is one of the table of legal pairs, with keep-alive and the pending proposals as the
  table's side conditions say.\<close>

theorem reachable_configurations:
  assumes "state_run state_new ops c"
  shows "legal_configuration c"
  using assms by (rule legal_run)

definition sample_ops :: "state_op list" where
  "sample_ops = [Op_Event Client (SE_Request (from_flags False True)), Op_Event Client SE_EndOfMessage,
     Op_DisableKeepAlive]"

definition sample_state :: ConnectionState where
  "sample_state =
     \<lparr>client = MightSwitchProtocol, server = SendResponse, keep_alive = False, proposals = from_flags False True\<rparr>"

lemma sample_run: "state_run state_new sample_ops sample_state"
  by (rule exec_run_run) code_simp

theorem reachable_configurations_witness: "legal_configuration sample_state"
  by (rule reachable_configurations [OF sample_run])

text \<open>Once keep-alive is off, no operation turns it on again and no later operation of the run
  starts another cycle.\<close>

theorem keep_alive_off_is_final:
  assumes "state_run c ops c'" and "\<not> keep_alive c"
  shows "\<not> keep_alive c' \<and> Op_NextCycle \<notin> set ops"
  using assms by (rule keep_alive_run)

theorem keep_alive_off_is_final_witness: "\<not> keep_alive (process_error sample_state Server)"
  using keep_alive_off_is_final [OF exec_run_run, of sample_state "[Op_Error Server]"
      "process_error sample_state Server"]
  by (simp add: sample_state_def)

text \<open>A poisoned actor stays poisoned: from then on none of its events is accepted, and the
  connection never starts another cycle.\<close>

theorem error_is_final:
  assumes "state_run c ops c'" and "state c r = Error"
  shows "state c' r = Error \<and> Op_NextCycle \<notin> set ops \<and> (\<forall>e. Op_Event r e \<notin> set ops)"
  using assms by (rule error_run)

theorem error_is_final_witness: "state (disable_keep_alive (process_error state_new Client)) Client = Error"
  using error_is_final [OF exec_run_run, of "process_error state_new Client" "[Op_DisableKeepAlive]"
      "disable_keep_alive (process_error state_new Client)" Client]
  by (simp add: process_error_state del: state.simps)

text \<open>A protocol switch is accepted only if the request of the same cycle proposed a switch of that
  kind, and it moves the server to the switched state.\<close>

theorem switch_was_proposed:
  assumes "state_run state_new ops c" and "process_event c Server (SE_ProtocolSwitch k) = (Inr (), c')"
  shows "(\<exists>ps. contains ps k \<and> Op_Event Client (SE_Request ps) \<in> set (cycle_ops ops))
    \<and> server c' = SwitchedProtocol"
proof -
  from assms(2) have k: "contains (proposals c) k"
    and c': "c' = stabilize_pass (c\<lparr>server := SwitchedProtocol\<rparr>)"
    by (auto simp: process_event_Inr direct_contract.simps split: if_splits)
  then have "proposals c \<noteq> NONE" by auto
  with pending_proposals_requested [OF assms(1)] k c' show ?thesis
    by (auto simp: server_stabilize_pass)
qed

theorem switch_was_proposed_witness:
  "server (snd (process_event sample_state Server (SE_ProtocolSwitch Upgrade))) = SwitchedProtocol"
  using switch_was_proposed [OF sample_run, of Upgrade "snd (process_event sample_state Server (SE_ProtocolSwitch Upgrade))"]
  by (simp add: prod_eq_iff sample_state_def process_event_def direct_transition_def from_flags_def)

text \<open>C30. Between two resets of a run the client starts at most one request and the server makes at
  most one final decision, a final response or a protocol switch.\<close>

theorem one_exchange_per_cycle:
  assumes "state_run state_new ops c"
  shows "length (filter is_request_op (cycle_ops ops)) \<le> 1 \<and> length (filter is_final_op (cycle_ops ops)) \<le> 1"
  using cycle_request_count [OF assms] cycle_final_count [OF assms] by (simp split: if_splits)

theorem one_exchange_per_cycle_witness: "length (filter is_request_op (cycle_ops sample_ops)) \<le> 1"
  using one_exchange_per_cycle [OF sample_run] by simp

text \<open>Switching wins over closing: with a switch accepted by the server, a client that has finished
  its request switches even when keep-alive is off.\<close>

theorem switch_wins_over_close:
  assumes "client c = Done \<or> client c = MightSwitchProtocol" and "server c = SwitchedProtocol"
    and "proposals c \<noteq> NONE"
  shows "stabilize c = c\<lparr>client := SwitchedProtocol, proposals := NONE\<rparr>"
  using assms by (auto simp: stabilize_eq_pass stabilize_pass_defs is_empty_iff)

theorem switch_wins_over_close_witness:
  "client (stabilize (sample_state\<lparr>server := SwitchedProtocol\<rparr>)) = SwitchedProtocol"
  using switch_wins_over_close [of "sample_state\<lparr>server := SwitchedProtocol\<rparr>"]
  by (simp add: sample_state_def from_flags_def NONE_def)

end
