(* ===== verification/Buffer.thy ===== *)
theory Buffer
  imports Prelude
begin

text \<open>
  The input buffer and the incremental search for the end of a field section (\<^verbatim>\<open>Buffer\<close> and
  \<^verbatim>\<open>SectionProgress\<close> of \<^verbatim>\<open>crates/h11r/src/wire.rs\<close>).  The buffer is a byte vector with a read offset that
  is compacted lazily.  The locale \<open>byte_queue\<close> states what a connection relies on: appending,
  discarding and taking bytes act on the queue of unread bytes.  The interpretation at the end of
  the first section discharges it for the model of \<^verbatim>\<open>Buffer\<close>.  Slicing past the end of a vector
  panics in Rust; the invariant \<open>buffer_wf\<close> is the condition under which no slice of \<^verbatim>\<open>Buffer\<close> does.
\<close>

section \<open>The buffer\<close>

record Buffer =
  buf_bytes :: "u8 list"
  buf_start :: usize

definition buffer_default :: Buffer where
  "buffer_default = \<lparr>buf_bytes = [], buf_start = 0\<rparr>"

definition as_slice :: "Buffer \<Rightarrow> u8 list" where
  "as_slice self = drop (buf_start self) (buf_bytes self)"

text \<open>\<^verbatim>\<open>copy_within(start.., 0)\<close>: the tail is copied over the front, the length stays.\<close>

definition copy_within_front :: "usize \<Rightarrow> 'a list \<Rightarrow> 'a list" where
  "copy_within_front start xs = drop start xs @ drop (length xs - start) xs"

definition buffer_extend :: "Buffer \<Rightarrow> u8 list \<Rightarrow> Buffer" where
  "buffer_extend self data =
     (let live = length (buf_bytes self) - buf_start self;
          self = (if buf_start self > 0 \<and> buf_start self \<ge> live
                  then self\<lparr>buf_bytes := take live (copy_within_front (buf_start self) (buf_bytes self)),
                            buf_start := 0\<rparr>
                  else self)
      in self\<lparr>buf_bytes := buf_bytes self @ data\<rparr>)"

definition buffer_consume :: "Buffer \<Rightarrow> usize \<Rightarrow> Buffer" where
  "buffer_consume self count = self\<lparr>buf_start := buf_start self + count\<rparr>"

definition buffer_take :: "Buffer \<Rightarrow> usize \<Rightarrow> u8 list \<times> Buffer" where
  "buffer_take self count =
     (let value = take count (as_slice self) in (value, buffer_consume self count))"

definition buffer_wf :: "Buffer \<Rightarrow> bool" where
  "buffer_wf self \<longleftrightarrow> buf_start self \<le> length (buf_bytes self)"

text \<open>The interface: a queue of unread bytes.\<close>

locale byte_queue =
  fixes empty :: 'q
    and append :: "'q \<Rightarrow> u8 list \<Rightarrow> 'q"
    and discard :: "'q \<Rightarrow> usize \<Rightarrow> 'q"
    and pop :: "'q \<Rightarrow> usize \<Rightarrow> u8 list \<times> 'q"
    and contents :: "'q \<Rightarrow> u8 list"
    and invar :: "'q \<Rightarrow> bool"
  assumes contents_empty: "contents empty = []"
    and contents_append: "invar q \<Longrightarrow> contents (append q d) = contents q @ d"
    and contents_discard: "contents (discard q n) = drop n (contents q)"
    and pop_value: "fst (pop q n) = take n (contents q)"
    and pop_rest: "snd (pop q n) = discard q n"
    and invar_empty: "invar empty"
    and invar_append: "invar q \<Longrightarrow> invar (append q d)"
    and invar_discard: "invar q \<Longrightarrow> n \<le> length (contents q) \<Longrightarrow> invar (discard q n)"
begin

lemma contents_appends: "invar q \<Longrightarrow> contents (foldl append q ds) = contents q @ concat ds"
  by (induction ds arbitrary: q) (auto simp: contents_append invar_append)

lemma invar_appends: "invar q \<Longrightarrow> invar (foldl append q ds)"
  by (induction ds arbitrary: q) (auto simp: invar_append)

lemma segmentation:
  "invar q \<Longrightarrow> concat ds = concat es \<Longrightarrow> contents (foldl append q ds) = contents (foldl append q es)"
  by (simp add: contents_appends)

lemma pop_conserves: "fst (pop q n) @ contents (snd (pop q n)) = contents q"
  by (simp add: pop_value pop_rest contents_discard)

lemma invar_pop: "invar q \<Longrightarrow> n \<le> length (contents q) \<Longrightarrow> invar (snd (pop q n))"
  by (simp add: pop_rest invar_discard)

lemma append_then_discard:
  "invar q \<Longrightarrow> n \<le> length (contents q) \<Longrightarrow>
     contents (discard (append q d) n) = contents (append (discard q n) d)"
  by (simp add: contents_discard contents_append invar_discard)

end

lemma as_slice_extend: "buffer_wf b \<Longrightarrow> as_slice (buffer_extend b d) = as_slice b @ d"
  by (auto simp: as_slice_def buffer_extend_def buffer_wf_def copy_within_front_def Let_def)

interpretation input: byte_queue buffer_default buffer_extend buffer_consume buffer_take as_slice buffer_wf
proof unfold_locales
  fix q d n
  show "as_slice buffer_default = []" "buffer_wf buffer_default"
    by (simp_all add: as_slice_def buffer_default_def buffer_wf_def)
  show "buffer_wf q \<Longrightarrow> as_slice (buffer_extend q d) = as_slice q @ d"
    by (rule as_slice_extend)
  show "as_slice (buffer_consume q n) = drop n (as_slice q)"
    by (simp add: as_slice_def buffer_consume_def add.commute)
  show "fst (buffer_take q n) = take n (as_slice q)" "snd (buffer_take q n) = buffer_consume q n"
    by (simp_all add: buffer_take_def)
  show "buffer_wf q \<Longrightarrow> buffer_wf (buffer_extend q d)"
    by (auto simp: buffer_wf_def buffer_extend_def copy_within_front_def Let_def)
  show "buffer_wf q \<Longrightarrow> n \<le> length (as_slice q) \<Longrightarrow> buffer_wf (buffer_consume q n)"
    by (auto simp: buffer_wf_def buffer_consume_def as_slice_def)
qed

lemmas buffer_simps [simp] = input.contents_empty input.contents_discard input.pop_value
  input.pop_rest input.invar_empty
lemmas buffer_wf_intros [intro] = input.invar_append input.invar_discard input.invar_pop

section \<open>The cost of compaction\<close>

text \<open>The bytes one \<^verbatim>\<open>extend\<close> moves, read off from its effect: the read offset falls exactly when the unread
  bytes were copied to the front, each of them once; otherwise the stored bytes stay where they are.  Then the
  operations of a buffer's life.\<close>

definition extend_moved :: "Buffer \<Rightarrow> u8 list \<Rightarrow> usize" where
  "extend_moved self data =
     (if buf_start (buffer_extend self data) < buf_start self then length (as_slice self) else 0)"

lemma extend_in_place:
  "\<not> buf_start (buffer_extend b d) < buf_start b \<Longrightarrow> buf_bytes (buffer_extend b d) = buf_bytes b @ d"
  by (auto simp: buffer_extend_def Let_def split: if_splits)

lemma extend_to_front:
  "buf_start (buffer_extend b d) < buf_start b \<Longrightarrow> buffer_extend b d = \<lparr>buf_bytes = as_slice b @ d, buf_start = 0\<rparr>"
  by (cases b) (auto simp: buffer_extend_def as_slice_def copy_within_front_def Let_def split: if_splits)

datatype buffer_op = B_Extend "u8 list" | B_Consume usize

fun buffer_run :: "Buffer \<Rightarrow> buffer_op list \<Rightarrow> Buffer" where
  "buffer_run b [] = b"
| "buffer_run b (B_Extend d # ops) = buffer_run (buffer_extend b d) ops"
| "buffer_run b (B_Consume n # ops) = buffer_run (buffer_consume b n) ops"

fun bytes_moved :: "Buffer \<Rightarrow> buffer_op list \<Rightarrow> usize" where
  "bytes_moved b [] = 0"
| "bytes_moved b (B_Extend d # ops) = extend_moved b d + bytes_moved (buffer_extend b d) ops"
| "bytes_moved b (B_Consume n # ops) = bytes_moved (buffer_consume b n) ops"

fun bytes_consumed :: "buffer_op list \<Rightarrow> usize" where
  "bytes_consumed [] = 0"
| "bytes_consumed (B_Extend d # ops) = bytes_consumed ops"
| "bytes_consumed (B_Consume n # ops) = n + bytes_consumed ops"

lemma extend_potential: "extend_moved b d + buf_start (buffer_extend b d) \<le> buf_start b"
  by (auto simp: extend_moved_def buffer_extend_def as_slice_def Let_def)

lemma extend_compact:
  "buffer_wf b \<Longrightarrow> length (buf_bytes (buffer_extend b d)) \<le> 2 * length (as_slice (buffer_extend b d))"
  by (auto simp: buffer_extend_def as_slice_def buffer_wf_def copy_within_front_def Let_def)

lemma bytes_moved_bound:
  "bytes_moved b ops + buf_start (buffer_run b ops) \<le> buf_start b + bytes_consumed ops"
proof (induction ops arbitrary: b rule: bytes_consumed.induct)
  case (2 d ops)
  have "bytes_moved (buffer_extend b d) ops + buf_start (buffer_run (buffer_extend b d) ops)
      \<le> buf_start (buffer_extend b d) + bytes_consumed ops" by (rule "2.IH")
  with extend_potential [of b d] show ?case by simp
next
  case (3 n ops)
  from "3.IH" [of "buffer_consume b n"] show ?case by (simp add: buffer_consume_def)
qed simp

lemma buffer_run_append: "buffer_run b (ops @ ops2) = buffer_run (buffer_run b ops) ops2"
  by (induction b ops rule: buffer_run.induct) simp_all

section \<open>Incremental search for the end of a field section\<close>

record SectionProgress =
  sp_at :: usize
  sp_line_start :: usize
  sp_started :: bool

definition progress_default :: SectionProgress where
  "progress_default = \<lparr>sp_at = 0, sp_line_start = 0, sp_started = False\<rparr>"

text \<open>The body of the \<^verbatim>\<open>while\<close> loop of \<^verbatim>\<open>poll\<close> on the next byte: whether it returns, and the new progress.\<close>

definition poll_body :: "SectionProgress \<Rightarrow> u8 list \<Rightarrow> bool \<Rightarrow> bool \<times> SectionProgress" where
  "poll_body self data skip_leading_empty =
     (let self = self\<lparr>sp_at := sp_at self + 1\<rparr> in
      if data ! (sp_at self - 1) = LF then
        (let line = take (sp_at self - 1 - sp_line_start self) (drop (sp_line_start self) data);
             empty = (line = [] \<or> line = [CR]);
             self = self\<lparr>sp_line_start := sp_at self\<rparr>
         in if empty then (sp_started self \<or> \<not> skip_leading_empty, self)
            else (False, self\<lparr>sp_started := True\<rparr>))
      else (False, self))"

lemma poll_body_at: "poll_body p d skip = (r, p') \<Longrightarrow> sp_at p' = Suc (sp_at p)"
  by (auto simp: poll_body_def Let_def split: if_splits)

function poll :: "SectionProgress \<Rightarrow> u8 list \<Rightarrow> bool \<Rightarrow> usize option \<times> SectionProgress" where
  "poll self data skip_leading_empty =
     (if sp_at self < length data then
        (case poll_body self data skip_leading_empty of
           (True, self) \<Rightarrow> (Some (sp_at self), self)
         | (False, self) \<Rightarrow> poll self data skip_leading_empty)
      else (None, self))"
  by pat_completeness auto
termination
  by (relation "measure (\<lambda>(self, data, _). length data - sp_at self)")
     (auto dest!: poll_body_at [OF sym])

declare poll.simps [simp del]

definition progress_wf :: "SectionProgress \<Rightarrow> u8 list \<Rightarrow> bool" where
  "progress_wf p d \<longleftrightarrow> sp_line_start p \<le> sp_at p \<and> sp_at p \<le> length d"

lemma progress_wf_default [simp]: "progress_wf progress_default d"
  by (simp add: progress_wf_def progress_default_def)

lemma progress_wf_append: "progress_wf p d \<Longrightarrow> progress_wf p (d @ e)"
  by (simp add: progress_wf_def)

lemma poll_body_wf:
  "poll_body p d skip = (r, p') \<Longrightarrow> progress_wf p d \<Longrightarrow> sp_at p < length d \<Longrightarrow> progress_wf p' d"
  by (auto simp: poll_body_def progress_wf_def Let_def split: if_splits)

lemma poll_body_append:
  "progress_wf p d \<Longrightarrow> sp_at p < length d \<Longrightarrow> poll_body p (d @ e) skip = poll_body p d skip"
  by (simp add: poll_body_def progress_wf_def nth_append Let_def)

lemma poll_step:
  assumes "sp_at p < length d" and "poll_body p d skip = (r, p')"
  shows "poll p d skip = (if r then (Some (sp_at p'), p') else poll p' d skip)"
  using assms by (subst poll.simps) (simp split: bool.splits)

lemma poll_stop: "\<not> sp_at p < length d \<Longrightarrow> poll p d skip = (None, p)"
  by (subst poll.simps) simp

lemma poll_wf: "progress_wf p d \<Longrightarrow> progress_wf (snd (poll p d skip)) d"
proof (induction p d skip rule: poll.induct)
  case (1 p d skip)
  obtain r p' where body: "poll_body p d skip = (r, p')" by (cases "poll_body p d skip")
  show ?case
  proof (cases "sp_at p < length d")
    case True
    from poll_body_wf [OF body "1.prems" True] "1.IH" [OF True body [symmetric]]
    show ?thesis by (auto simp: poll_step [OF True body])
  next
    case False
    with "1.prems" show ?thesis by (simp add: poll_stop)
  qed
qed

text \<open>A search that came back empty can be resumed when more bytes are there, and a successful one
  does not depend on the bytes after it.\<close>

lemma poll_append:
  "progress_wf p d \<Longrightarrow>
     poll p (d @ e) skip =
       (case poll p d skip of (None, p') \<Rightarrow> poll p' (d @ e) skip | (Some n, p') \<Rightarrow> (Some n, p'))"
proof (induction p d skip rule: poll.induct)
  case (1 p d skip)
  obtain r p' where body: "poll_body p d skip = (r, p')" by (cases "poll_body p d skip")
  show ?case
  proof (cases "sp_at p < length d")
    case True
    then have "sp_at p < length (d @ e)" by simp
    moreover have "poll_body p (d @ e) skip = (r, p')"
      using body poll_body_append [OF "1.prems" True] by simp
    ultimately have ext: "poll p (d @ e) skip = (if r then (Some (sp_at p'), p') else poll p' (d @ e) skip)"
      by (rule poll_step)
    show ?thesis
      using "1.IH" [OF True body [symmetric]] poll_body_wf [OF body "1.prems" True]
      by (cases r) (simp_all add: ext poll_step [OF True body])
  next
    case False
    then show ?thesis by (simp add: poll_stop)
  qed
qed

lemma poll_None_at:
  "progress_wf p d \<Longrightarrow> poll p d skip = (None, p') \<Longrightarrow> sp_at p' = length d"
proof (induction p d skip rule: poll.induct)
  case (1 p d skip)
  obtain r q where body: "poll_body p d skip = (r, q)" by (cases "poll_body p d skip")
  show ?case
  proof (cases "sp_at p < length d")
    case True
    with "1.IH" [OF True body [symmetric]] "1.prems" poll_body_wf [OF body "1.prems"(1) True]
    show ?thesis by (auto simp: poll_step [OF True body] split: if_splits)
  next
    case False
    with "1.prems" show ?thesis by (auto simp: poll_stop progress_wf_def)
  qed
qed

lemma poll_Some_bounds:
  "progress_wf p d \<Longrightarrow> poll p d skip = (Some n, p') \<Longrightarrow> sp_at p < n \<and> n \<le> length d \<and> d ! (n - 1) = LF"
proof (induction p d skip rule: poll.induct)
  case (1 p d skip)
  obtain r q where body: "poll_body p d skip = (r, q)" by (cases "poll_body p d skip")
  show ?case
  proof (cases "sp_at p < length d")
    case True
    from body have "r \<Longrightarrow> d ! sp_at p = LF" by (auto simp: poll_body_def Let_def split: if_splits)
    moreover have "sp_at q - Suc 0 = sp_at p" "sp_at p < sp_at q" by (simp_all add: poll_body_at [OF body])
    ultimately show ?thesis
      using "1.IH" [OF True body [symmetric]] "1.prems" poll_body_wf [OF body "1.prems"(1) True]
      by (cases r) (auto simp: poll_step [OF True body] progress_wf_def)
  next
    case False
    with "1.prems" show ?thesis by (auto simp: poll_stop)
  qed
qed

section \<open>What the search finds\<close>

text \<open>The bytes of the current line before position \<open>n\<close>, and the positions where a section ends: just
  after an empty line, and, where leading empty lines are skipped, after some line that is not.\<close>

definition line_before :: "u8 list \<Rightarrow> nat \<Rightarrow> u8 list" where
  "line_before d n = rev (takeWhile (\<lambda>b. b \<noteq> LF) (rev (take n d)))"

definition empty_line_ends :: "u8 list \<Rightarrow> nat \<Rightarrow> bool" where
  "empty_line_ends d n \<longleftrightarrow>
     0 < n \<and> n \<le> length d \<and> d ! (n - 1) = LF \<and> line_before d (n - 1) \<in> {[], [CR]}"

definition full_line_ends :: "u8 list \<Rightarrow> nat \<Rightarrow> bool" where
  "full_line_ends d n \<longleftrightarrow>
     0 < n \<and> n \<le> length d \<and> d ! (n - 1) = LF \<and> line_before d (n - 1) \<notin> {[], [CR]}"

definition section_ends :: "u8 list \<Rightarrow> bool \<Rightarrow> nat \<Rightarrow> bool" where
  "section_ends d skip n \<longleftrightarrow> empty_line_ends d n \<and> (skip \<longrightarrow> (\<exists>m < n. full_line_ends d m))"

definition scan_inv :: "SectionProgress \<Rightarrow> u8 list \<Rightarrow> bool \<Rightarrow> bool" where
  "scan_inv p d skip \<longleftrightarrow>
     progress_wf p d
     \<and> take (sp_at p - sp_line_start p) (drop (sp_line_start p) d) = line_before d (sp_at p)
     \<and> (sp_started p \<longleftrightarrow> (\<exists>m \<le> sp_at p. full_line_ends d m))
     \<and> (\<forall>m \<le> sp_at p. \<not> section_ends d skip m)"

lemma line_before_Suc:
  "k < length d \<Longrightarrow> line_before d (Suc k) = (if d ! k = LF then [] else line_before d k @ [d ! k])"
  by (simp add: line_before_def take_Suc_conv_app_nth)

lemma scan_inv_default: "scan_inv progress_default d skip"
  by (simp add: scan_inv_def progress_default_def progress_wf_def line_before_def full_line_ends_def
      section_ends_def empty_line_ends_def)

lemma take_snoc_line:
  assumes "l \<le> k" and "k < length d"
  shows "take (Suc k - l) (drop l d) = take (k - l) (drop l d) @ [d ! k]"
  using assms by (simp add: Suc_diff_le take_Suc_conv_app_nth)

lemma le_Suc_ex: "(\<exists>m \<le> Suc k. P m) \<longleftrightarrow> (\<exists>m \<le> k. P m) \<or> P (Suc k)"
  by (auto simp: le_Suc_eq)

lemma le_Suc_all: "(\<forall>m \<le> Suc k. P m) \<longleftrightarrow> (\<forall>m \<le> k. P m) \<and> P (Suc k)"
  by (auto simp: le_Suc_eq)

lemma poll_body_scan:
  assumes inv: "scan_inv p d skip" and at: "sp_at p < length d" and body: "poll_body p d skip = (r, q)"
  shows "r \<longleftrightarrow> section_ends d skip (sp_at q)" and "\<not> r \<Longrightarrow> scan_inv q d skip"
proof -
  let ?k = "sp_at p"
  from inv have ls: "sp_line_start p \<le> ?k"
    and line: "take (?k - sp_line_start p) (drop (sp_line_start p) d) = line_before d ?k"
    and started: "sp_started p \<longleftrightarrow> (\<exists>m \<le> ?k. full_line_ends d m)"
    and none: "\<forall>m \<le> ?k. \<not> section_ends d skip m"
    by (auto simp: scan_inv_def progress_wf_def)
  have ends: "empty_line_ends d (Suc ?k) \<longleftrightarrow> d ! ?k = LF \<and> line_before d ?k \<in> {[], [CR]}"
    "full_line_ends d (Suc ?k) \<longleftrightarrow> d ! ?k = LF \<and> line_before d ?k \<notin> {[], [CR]}"
    using at by (auto simp: empty_line_ends_def full_line_ends_def)
  have q: "sp_at q = Suc ?k" by (rule poll_body_at [OF body])
  show "r \<longleftrightarrow> section_ends d skip (sp_at q)"
    unfolding q section_ends_def ends(1) less_Suc_eq_le started [symmetric]
    using body by (auto simp: poll_body_def Let_def line split: if_splits)
  then show "scan_inv q d skip" if "\<not> r"
    using that body ls at started none
    unfolding scan_inv_def q le_Suc_ex le_Suc_all ends(2)
    by (auto simp: poll_body_def Let_def line progress_wf_def line_before_Suc take_snoc_line
        split: if_splits)
qed

lemma poll_scan:
  assumes "scan_inv p d skip"
  shows "case fst (poll p d skip) of
      None \<Rightarrow> \<forall>n. \<not> section_ends d skip n
    | Some n \<Rightarrow> section_ends d skip n \<and> (\<forall>m < n. \<not> section_ends d skip m)"
  using assms
proof (induction p d skip rule: poll.induct)
  case (1 p d skip)
  obtain r q where body: "poll_body p d skip = (r, q)" by (cases "poll_body p d skip")
  show ?case
  proof (cases "sp_at p < length d")
    case True
    note scan = poll_body_scan [OF "1.prems" True body]
    from "1.prems" have "\<forall>m < sp_at q. \<not> section_ends d skip m"
      by (simp add: scan_inv_def poll_body_at [OF body] less_Suc_eq_le)
    with scan "1.IH" [OF True body [symmetric]] show ?thesis
      by (cases r) (simp_all add: poll_step [OF True body])
  next
    case False
    with "1.prems" show ?thesis
      by (auto simp: poll_stop scan_inv_def progress_wf_def section_ends_def empty_line_ends_def)
  qed
qed

section \<open>Properties of the buffer and the search\<close>

text \<open>The abstract buffer: the unread bytes alone; and the operations that stay inside them.\<close>

fun queue_run :: "u8 list \<Rightarrow> buffer_op list \<Rightarrow> u8 list" where
  "queue_run q [] = q"
| "queue_run q (B_Extend d # ops) = queue_run (q @ d) ops"
| "queue_run q (B_Consume n # ops) = queue_run (drop n q) ops"

fun within_bounds :: "u8 list \<Rightarrow> buffer_op list \<Rightarrow> bool" where
  "within_bounds q [] = True"
| "within_bounds q (B_Extend d # ops) = within_bounds (q @ d) ops"
| "within_bounds q (B_Consume n # ops) = (n \<le> length q \<and> within_bounds (drop n q) ops)"

lemma buffer_run_refines:
  "buffer_wf b \<Longrightarrow> within_bounds (as_slice b) ops \<Longrightarrow>
     as_slice (buffer_run b ops) = queue_run (as_slice b) ops \<and> buffer_wf (buffer_run b ops)"
  by (induction b ops rule: buffer_run.induct) (auto simp: as_slice_extend)

text \<open>C33. The buffer with its read offset and lazy compaction behaves like the plain queue of unread bytes,
  through any sequence of extensions and of discards that stay inside the unread bytes; its offset
  never passes the end of the vector.\<close>

theorem buffer_refines_queue:
  assumes "within_bounds [] ops"
  shows "as_slice (buffer_run buffer_default ops) = queue_run [] ops \<and> buffer_wf (buffer_run buffer_default ops)"
  using buffer_run_refines [of buffer_default ops] assms by simp

theorem buffer_refines_queue_witness:
  "as_slice (buffer_run buffer_default [B_Extend [1, 2, 3], B_Consume 2, B_Extend [4]]) = [3, 4]"
  using buffer_refines_queue [of "[B_Extend [1, 2, 3], B_Consume 2, B_Extend [4]]"] by simp

text \<open>C36. Compaction is amortized linear in time and keeps the space linear: whatever the receive
  boundaries, all moves together copy no more bytes than were consumed, and after each arrival the
  buffer stores at most twice as many bytes as are unread.\<close>

theorem compaction_is_amortized:
  assumes "within_bounds [] ops"
  shows "bytes_moved buffer_default ops \<le> bytes_consumed ops
    \<and> length (buf_bytes (buffer_run buffer_default (ops @ [B_Extend d])))
        \<le> 2 * length (as_slice (buffer_run buffer_default (ops @ [B_Extend d])))"
proof -
  have "buffer_wf (buffer_run buffer_default ops)" using buffer_run_refines [of buffer_default ops] assms by simp
  moreover have "buf_start buffer_default = 0" by (simp add: buffer_default_def)
  ultimately show ?thesis
    using bytes_moved_bound [of buffer_default ops] extend_compact [of "buffer_run buffer_default ops" d] by (simp add: buffer_run_append)
qed

theorem compaction_is_amortized_witness:
  "bytes_moved buffer_default [B_Extend [1, 2, 3], B_Consume 2, B_Extend [4]] \<le> 2"
  using compaction_is_amortized [of "[B_Extend [1, 2, 3], B_Consume 2, B_Extend [4]]"] by simp

text \<open>C32. The search for the end of a field section can be interrupted and resumed as bytes arrive: the
  resumed search gives the answer of a search from the start of all the bytes, and that answer is
  the first position at which a section ends, or that there is none.\<close>

theorem section_search_resumes:
  assumes "poll progress_default d skip = (None, p)"
  shows "fst (poll p (d @ e) skip) = fst (poll progress_default (d @ e) skip)
    \<and> (case fst (poll p (d @ e) skip) of
         None \<Rightarrow> \<forall>n. \<not> section_ends (d @ e) skip n
       | Some n \<Rightarrow> section_ends (d @ e) skip n \<and> (\<forall>m < n. \<not> section_ends (d @ e) skip m))"
proof -
  have "fst (poll p (d @ e) skip) = fst (poll progress_default (d @ e) skip)"
    using poll_append [OF progress_wf_default, of d e skip] assms by simp
  with poll_scan [OF scan_inv_default, of "d @ e" skip] show ?thesis by simp
qed

theorem section_search_resumes_witness:
  "fst (poll \<lparr>sp_at = 3, sp_line_start = 3, sp_started = True\<rparr> ([0x41, CR, LF] @ [CR, LF]) True) = Some 5"
proof -
  have "poll progress_default [0x41, CR, LF] True = (None, \<lparr>sp_at = 3, sp_line_start = 3, sp_started = True\<rparr>)"
    by code_simp
  note resumed = section_search_resumes [OF this, of "[CR, LF]"]
  have "fst (poll progress_default ([0x41, CR, LF] @ [CR, LF]) True) = Some 5" by code_simp
  with resumed show ?thesis by simp
qed

end
