(* ===== verification/Method.thy ===== *)
theory Method
  imports Prelude
begin

text \<open>
  The request method token (\<^verbatim>\<open>crates/h11r/src/method.rs\<close>): the token byte class and the validating
  constructor of \<open>Method\<close>, whose error \<^verbatim>\<open>InvalidMethod\<close> is a unit struct.
\<close>

datatype Method = Method (as_bytes: "u8 list")

datatype InvalidMethod = InvalidMethod

definition is_token_byte :: "u8 \<Rightarrow> bool" where
  "is_token_byte byte \<longleftrightarrow>
     (0x61 \<le> byte \<and> byte \<le> 0x7a) \<or> (0x41 \<le> byte \<and> byte \<le> 0x5a) \<or> (0x30 \<le> byte \<and> byte \<le> 0x39)
     \<or> byte = 0x21 \<or> byte = 0x23 \<or> byte = 0x24 \<or> byte = 0x25 \<or> byte = 0x26 \<or> byte = 0x27
     \<or> byte = 0x2a \<or> byte = 0x2b \<or> byte = 0x2d \<or> byte = 0x2e \<or> byte = 0x5e \<or> byte = 0x5f
     \<or> byte = 0x60 \<or> byte = 0x7c \<or> byte = 0x7e"

declare is_token_byte_def [byte_class, byte_eval]

definition method_from_bytes :: "u8 list \<Rightarrow> InvalidMethod + Method" where
  "method_from_bytes value =
     (if value = [] \<or> \<not> list_all is_token_byte value then Inl InvalidMethod else Inr (Method value))"

text \<open>Every value of the Rust type \<^verbatim>\<open>Method\<close> comes out of the constructor.\<close>

definition valid_method :: "Method \<Rightarrow> bool" where
  "valid_method m \<longleftrightarrow> as_bytes m \<noteq> [] \<and> list_all is_token_byte (as_bytes m)"

lemma method_from_bytes_Inr:
  "method_from_bytes v = Inr m \<longleftrightarrow> m = Method v \<and> valid_method m"
  by (auto simp: method_from_bytes_def valid_method_def)

lemma is_token_byte_no_delim:
  "is_token_byte b \<Longrightarrow> b \<noteq> CR \<and> b \<noteq> LF \<and> b \<noteq> SP \<and> b \<noteq> HTAB \<and> b \<noteq> 0x3a \<and> b \<noteq> 0x2c \<and> b \<noteq> 0x2f \<and> b \<noteq> 0x3b \<and> b \<noteq> 0x3d"
  by (auto simp: is_token_byte_def)

lemma is_token_byte_hexdigit: "is_ascii_hexdigit b \<Longrightarrow> is_token_byte b"
  by (auto simp: byte_class word_le_nat_alt)

lemma is_token_byte_graphic: "is_token_byte b \<Longrightarrow> is_ascii_graphic b"
  by (auto simp: byte_class word_le_nat_alt)

end
