(* ===== verification/Status.thy ===== *)
theory Status
  imports Prelude
begin

text \<open>
  HTTP status codes (\<^verbatim>\<open>crates/h11r/src/status.rs\<close>): a \<^verbatim>\<open>u16\<close> restricted to \<open>100..599\<close> by its
  constructor, and the classification predicates by first digit.
\<close>

datatype StatusCode = StatusCode (as_u16: u16)

datatype InvalidStatusCode = InvalidStatusCode

definition status_from_u16 :: "u16 \<Rightarrow> InvalidStatusCode + StatusCode" where
  "status_from_u16 value =
     (if value \<ge> 100 \<and> value \<le> 599 then Inr (StatusCode value) else Inl InvalidStatusCode)"

definition is_informational :: "StatusCode \<Rightarrow> bool" where
  "is_informational s \<longleftrightarrow> as_u16 s < 200"

definition is_success :: "StatusCode \<Rightarrow> bool" where
  "is_success s \<longleftrightarrow> as_u16 s \<ge> 200 \<and> as_u16 s < 300"

definition is_redirection :: "StatusCode \<Rightarrow> bool" where
  "is_redirection s \<longleftrightarrow> as_u16 s \<ge> 300 \<and> as_u16 s < 400"

definition is_client_error :: "StatusCode \<Rightarrow> bool" where
  "is_client_error s \<longleftrightarrow> as_u16 s \<ge> 400 \<and> as_u16 s < 500"

definition is_server_error :: "StatusCode \<Rightarrow> bool" where
  "is_server_error s \<longleftrightarrow> as_u16 s \<ge> 500"

lemmas status_class_defs = is_informational_def is_success_def is_redirection_def
  is_client_error_def is_server_error_def

definition valid_status :: "StatusCode \<Rightarrow> bool" where
  "valid_status s \<longleftrightarrow> 100 \<le> as_u16 s \<and> as_u16 s \<le> 599"

lemma status_from_u16_Inr:
  "status_from_u16 v = Inr s \<longleftrightarrow> s = StatusCode v \<and> valid_status s"
  by (auto simp: status_from_u16_def valid_status_def)

lemma u16_div_unat: "unat (v div 100 :: u16) = unat v div 100"
  by (simp add: unat_div)

end
