(* ===== verification/Lib.thy ===== *)
theory Lib
  imports Method Status
begin

text \<open>
  The public vocabulary of the crate (\<^verbatim>\<open>crates/h11r/src/lib.rs\<close>): protocol versions, message heads,
  body data, the events a connection reports, the inbound limits, and the two error types.  Error
  messages are kept as strings, as in the source.
\<close>

definition DEFAULT_MAX_HEAD_BYTES :: usize where
  "DEFAULT_MAX_HEAD_BYTES = 64 * 1024"

definition DEFAULT_MAX_HEADER_COUNT :: usize where
  "DEFAULT_MAX_HEADER_COUNT = 100"

type_synonym Header = "u8 list \<times> u8 list"

datatype Version = Http10 | Http11

fun version_wire :: "Version \<Rightarrow> u8 list" where
  "version_wire Http10 = bytes ''1.0''"
| "version_wire Http11 = bytes ''1.1''"

record Request =
  req_method :: Method
  req_target :: "u8 list"
  req_headers :: "Header list"
  req_http_version :: Version

record Response =
  resp_status :: StatusCode
  resp_reason :: "u8 list"
  resp_headers :: "Header list"
  resp_http_version :: Version

type_synonym InformationalResponse = Response

record Data =
  data_bytes :: "u8 list"
  chunk_start :: bool
  chunk_end :: bool

record 'a DataParts =
  parts_prefix :: "u8 list"
  parts_data :: 'a
  parts_suffix :: "u8 list"

record EndOfMessage =
  eom_trailers :: "Header list"

datatype Event =
    Ev_Request Request
  | Ev_InformationalResponse InformationalResponse
  | Ev_Response Response
  | Ev_Data Data
  | Ev_EndOfMessage EndOfMessage
  | Ev_ConnectionClosed

datatype NextEvent = NE_Event Event | NE_NeedData | NE_Paused

record Limits =
  max_head_bytes :: usize
  max_header_count :: usize

datatype InvalidLimits = InvalidLimits

definition limits_new :: "usize \<Rightarrow> usize \<Rightarrow> InvalidLimits + Limits" where
  "limits_new head headers =
     (if head = 0 \<or> headers = 0 then Inl InvalidLimits
      else Inr \<lparr>max_head_bytes = head, max_header_count = headers\<rparr>)"

definition limits_default :: Limits where
  "limits_default =
     \<lparr>max_head_bytes = DEFAULT_MAX_HEAD_BYTES, max_header_count = DEFAULT_MAX_HEADER_COUNT\<rparr>"

datatype LocalProtocolError = LocalProtocolError (local_message: string)

record RemoteProtocolError =
  remote_message :: string
  suggested_status_code :: "u16 option"

abbreviation local_err :: "string \<Rightarrow> LocalProtocolError" where
  "local_err \<equiv> LocalProtocolError"

definition remote_err :: "string \<Rightarrow> u16 option \<Rightarrow> RemoteProtocolError" where
  "remote_err message status = \<lparr>remote_message = message, suggested_status_code = status\<rparr>"

lemma version_wire_length [simp]: "length (version_wire v) = 3"
  by (cases v) (auto simp: bytes_def)

lemma suggested_status_remote_err [simp]: "suggested_status_code (remote_err m s) = s"
  by (simp add: remote_err_def)

end
