(* ===== verification/Header_Fields.thy ===== *)
theory Header_Fields
  imports Lib
begin

text \<open>
  Header fields (\<^verbatim>\<open>crates/h11r/src/wire.rs\<close>): optional whitespace, case-insensitive lookup, comma-separated
  list values and tokens, Upgrade protocols, the normalisation of the Connection field, and the octet
  grammars that outgoing heads and trailers are validated against.
\<close>

section \<open>Whitespace and lists\<close>

definition is_ows :: "u8 \<Rightarrow> bool" where
  "is_ows byte \<longleftrightarrow> byte = SP \<or> byte = HTAB"

declare is_ows_def [byte_class, byte_eval]

text \<open>The two loops of \<^verbatim>\<open>trim_ows\<close>.\<close>

fun trim_front :: "u8 list \<Rightarrow> u8 list" where
  "trim_front [] = []"
| "trim_front (b # value) = (if is_ows b then trim_front value else b # value)"

function trim_back :: "u8 list \<Rightarrow> u8 list" where
  "trim_back value =
     (case slice_last value of
        Some b \<Rightarrow> if is_ows b then trim_back (take (length value - 1) value) else value
      | None \<Rightarrow> value)"
  by pat_completeness auto
termination
  by (relation "measure length") (auto simp: slice_last_conv split: if_splits)

declare trim_back.simps [simp del]

definition trim_ows :: "u8 list \<Rightarrow> u8 list" where
  "trim_ows value = trim_back (trim_front value)"

definition header_values :: "Header list \<Rightarrow> u8 list \<Rightarrow> u8 list list" where
  "header_values headers name =
     map snd (filter (\<lambda>(field, _). eq_ignore_ascii_case field name) headers)"

definition count_header :: "Header list \<Rightarrow> u8 list \<Rightarrow> usize" where
  "count_header headers name = length (header_values headers name)"

text \<open>\<^verbatim>\<open>.flat_map(|value| value.split(|byte| *byte == b','))\<close> over the values of one field.\<close>

definition list_elements :: "Header list \<Rightarrow> u8 list \<Rightarrow> u8 list list" where
  "list_elements headers name = concat (map (split_on (\<lambda>byte. byte = 0x2c)) (header_values headers name))"

definition has_token :: "Header list \<Rightarrow> u8 list \<Rightarrow> u8 list \<Rightarrow> bool" where
  "has_token headers name token =
     list_ex (\<lambda>value. eq_ignore_ascii_case (trim_ows value) token) (list_elements headers name)"

section \<open>Octet grammars\<close>

definition is_line_value_byte :: "u8 \<Rightarrow> bool" where
  "is_line_value_byte byte \<longleftrightarrow> byte = HTAB \<or> (0x20 \<le> byte \<and> byte \<le> 0x7e) \<or> 0x80 \<le> byte"

definition is_field_vchar :: "u8 \<Rightarrow> bool" where
  "is_field_vchar byte \<longleftrightarrow> (0x21 \<le> byte \<and> byte \<le> 0x7e) \<or> 0x80 \<le> byte"

declare is_line_value_byte_def [byte_class, byte_eval] is_field_vchar_def [byte_class, byte_eval]

definition valid_name :: "u8 list \<Rightarrow> bool" where
  "valid_name name \<longleftrightarrow> name \<noteq> [] \<and> list_all is_token_byte name"

definition valid_value :: "u8 list \<Rightarrow> bool" where
  "valid_value value \<longleftrightarrow>
     value = []
     \<or> ((case slice_first value of None \<Rightarrow> False | Some byte \<Rightarrow> is_field_vchar byte)
        \<and> (case slice_last value of None \<Rightarrow> False | Some byte \<Rightarrow> is_field_vchar byte)
        \<and> list_all is_line_value_byte value)"

definition valid_request_target :: "u8 list \<Rightarrow> bool" where
  "valid_request_target target \<longleftrightarrow> target \<noteq> [] \<and> list_all is_ascii_graphic target"

definition validate_headers :: "Header list \<Rightarrow> LocalProtocolError + unit" where
  "validate_headers headers =
     (if list_ex (\<lambda>(name, value). \<not> valid_name name \<or> \<not> valid_value value) headers
      then Inl (local_err ''invalid HTTP header field'') else Inr ())"

definition validate_reason :: "u8 list \<Rightarrow> LocalProtocolError + unit" where
  "validate_reason reason =
     (if list_all is_line_value_byte reason then Inr ()
      else Inl (local_err ''invalid HTTP reason phrase''))"

definition forbidden_trailers :: "u8 list list" where
  "forbidden_trailers =
     [bytes ''content-length'', bytes ''transfer-encoding'', bytes ''host'', bytes ''connection'',
      bytes ''trailer'', bytes ''upgrade'', bytes ''expect'', bytes ''te'']"

definition validate_trailers :: "Header list \<Rightarrow> LocalProtocolError + unit" where
  "validate_trailers trailers =
     (case validate_headers trailers of
        Inl e \<Rightarrow> Inl e
      | Inr _ \<Rightarrow>
          if list_ex (\<lambda>(name, _). list_ex (\<lambda>forbidden. eq_ignore_ascii_case name forbidden)
                forbidden_trailers) trailers
          then Inl (local_err ''field is not permitted in an HTTP trailer'')
          else Inr ())"

section \<open>Upgrade protocols and the Connection field\<close>

definition valid_protocol :: "u8 list \<Rightarrow> bool" where
  "valid_protocol value =
     (case split_on (\<lambda>byte. byte = 0x2f) value of
        [] \<Rightarrow> False
      | first # parts \<Rightarrow>
          valid_name first
          \<and> (case parts of [] \<Rightarrow> True | second # parts \<Rightarrow> valid_name second \<and> parts = []))"

definition upgrade_protocols :: "Header list \<Rightarrow> u8 list list option" where
  "upgrade_protocols headers =
     (let present = count_header headers (bytes ''upgrade'') > 0 in
      case collect_options
             (map (\<lambda>value. if valid_protocol value then Some value else None)
               (filter (\<lambda>value. value \<noteq> [])
                 (map trim_ows (list_elements headers (bytes ''upgrade''))))) of
        None \<Rightarrow> None
      | Some protocols \<Rightarrow> if \<not> present \<or> protocols \<noteq> [] then Some protocols else None)"

definition protocol_matches :: "u8 list \<Rightarrow> u8 list \<Rightarrow> bool" where
  "protocol_matches left right =
     (case (splitn2 (\<lambda>byte. byte = 0x2f) left, splitn2 (\<lambda>byte. byte = 0x2f) right) of
        (l # ls, r # rs) \<Rightarrow> eq_ignore_ascii_case l r \<and> slice_first ls = slice_first rs
      | _ \<Rightarrow> False)"

definition set_connection_close :: "Header list \<Rightarrow> Header list" where
  "set_connection_close headers =
     (let options =
            filter (\<lambda>value. value \<noteq> [] \<and> \<not> eq_ignore_ascii_case value (bytes ''close'')
                \<and> \<not> eq_ignore_ascii_case value (bytes ''keep-alive''))
              (map trim_ows (list_elements headers (bytes ''connection'')));
          options = options @ [bytes ''close''];
          headers = filter (\<lambda>(name, _). \<not> eq_ignore_ascii_case name (bytes ''connection'')) headers
      in headers @ [(bytes ''Connection'', slice_join (bytes '', '') options)])"

section \<open>Facts about trimming\<close>

lemma trim_front_dropWhile: "trim_front v = dropWhile is_ows v"
  by (induction v) auto

lemma trim_back_dropWhile: "trim_back v = rev (dropWhile is_ows (rev v))"
proof (induction v rule: rev_induct)
  case Nil
  then show ?case by (subst trim_back.simps) simp
next
  case (snoc b v)
  then show ?case by (subst trim_back.simps) (simp add: trim_back.simps [of v])
qed

lemma trim_ows_conv: "trim_ows v = rev (dropWhile is_ows (rev (dropWhile is_ows v)))"
  by (simp add: trim_ows_def trim_front_dropWhile trim_back_dropWhile)

lemma dropWhile_decomp: "\<exists>pre. xs = pre @ dropWhile P xs \<and> list_all P pre"
  by (rule exI [of _ "takeWhile P xs"]) (auto simp: list_all_iff dest: set_takeWhileD)

lemma trim_ows_decomp:
  "\<exists>pre post. v = pre @ trim_ows v @ post \<and> list_all is_ows pre \<and> list_all is_ows post"
proof -
  let ?w = "dropWhile is_ows v"
  obtain pre where pre: "v = pre @ ?w" "list_all is_ows pre"
    using dropWhile_decomp [of v is_ows] by blast
  obtain post where post: "rev ?w = post @ dropWhile is_ows (rev ?w)" "list_all is_ows post"
    using dropWhile_decomp [of "rev ?w" is_ows] by blast
  from post(1) have "?w = trim_ows v @ rev post"
    unfolding trim_ows_conv by (metis rev_append rev_rev_ident)
  with pre post(2) show ?thesis by (metis list_all_rev)
qed

lemma set_trim_ows: "set (trim_ows v) \<subseteq> set v"
  using trim_ows_decomp [of v] by (metis Un_iff set_append subsetI)

lemma trim_ows_fixed:
  "v = [] \<or> \<not> is_ows (hd v) \<and> \<not> is_ows (last v) \<Longrightarrow> trim_ows v = v"
proof -
  assume v: "v = [] \<or> \<not> is_ows (hd v) \<and> \<not> is_ows (last v)"
  then have "dropWhile is_ows v = v" by (cases v) auto
  moreover from v have "dropWhile is_ows (rev v) = rev v" by (cases v rule: rev_cases) auto
  ultimately show ?thesis by (simp add: trim_ows_conv)
qed

lemma trim_ows_ends: "trim_ows v \<noteq> [] \<Longrightarrow> \<not> is_ows (hd (trim_ows v)) \<and> \<not> is_ows (last (trim_ows v))"
proof -
  assume ne: "trim_ows v \<noteq> []"
  let ?w = "dropWhile is_ows v"
  have last: "\<not> is_ows (last (trim_ows v))"
    using ne hd_dropWhile [of is_ows "rev ?w"] by (simp add: trim_ows_conv last_rev)
  from ne have w: "?w \<noteq> []" by (metis dropWhile.simps(1) rev.simps(1) trim_ows_conv)
  obtain post where "rev ?w = post @ rev (trim_ows v)"
    using dropWhile_decomp [of "rev ?w" is_ows] by (auto simp: trim_ows_conv)
  then have "?w = trim_ows v @ rev post" by (metis rev_append rev_rev_ident)
  with ne have "hd (trim_ows v) = hd ?w" by (metis hd_append2)
  with hd_dropWhile [OF w] last show ?thesis by simp
qed

lemma trim_ows_idem [simp]: "trim_ows (trim_ows v) = trim_ows v"
  by (rule trim_ows_fixed) (use trim_ows_ends in blast)

lemma trim_ows_Cons_ows: "is_ows b \<Longrightarrow> trim_ows (b # v) = trim_ows v"
  by (simp add: trim_ows_conv)

lemma valid_value_iff:
  "valid_value v \<longleftrightarrow>
     v = [] \<or> is_field_vchar (hd v) \<and> is_field_vchar (last v) \<and> list_all is_line_value_byte v"
  by (auto simp: valid_value_def slice_first_conv slice_last_conv)

lemma field_vchar_not_ows: "is_field_vchar b \<Longrightarrow> \<not> is_ows b"
  by (auto simp: byte_class)

lemma valid_value_trim: "valid_value v \<Longrightarrow> trim_ows v = v"
  by (rule trim_ows_fixed) (auto simp: valid_value_iff field_vchar_not_ows)

lemma line_value_no_crlf: "is_line_value_byte b \<Longrightarrow> b \<noteq> CR \<and> b \<noteq> LF \<and> b \<noteq> 0"
  by (auto simp: byte_class)

lemma valid_value_line: "valid_value v \<Longrightarrow> b \<in> set v \<Longrightarrow> is_line_value_byte b"
  by (auto simp: valid_value_iff list_all_iff)

lemma token_line_value: "is_token_byte b \<Longrightarrow> is_line_value_byte b"
  by (auto simp: byte_class word_le_nat_alt)

lemma graphic_line_value: "is_ascii_graphic b \<Longrightarrow> is_line_value_byte b"
  by (auto simp: byte_class word_le_nat_alt)

lemma validate_headers_Inr:
  "validate_headers hs = Inr u \<longleftrightarrow> (\<forall>(name, value) \<in> set hs. valid_name name \<and> valid_value value)"
  by (auto simp: validate_headers_def list_ex_iff)

lemma validate_reason_Inr: "validate_reason r = Inr u \<longleftrightarrow> list_all is_line_value_byte r"
  by (simp add: validate_reason_def)

section \<open>Facts about list values\<close>

abbreviation is_comma :: "u8 \<Rightarrow> bool" where
  "is_comma byte \<equiv> byte = 0x2c"

text \<open>The trimmed elements of a field, as every list-valued field is read.\<close>

definition tokens :: "Header list \<Rightarrow> u8 list \<Rightarrow> u8 list list" where
  "tokens headers name = map trim_ows (list_elements headers name)"

lemma has_token_iff:
  "has_token hs name token \<longleftrightarrow> (\<exists>v \<in> set (tokens hs name). eq_ignore_ascii_case v token)"
  by (auto simp: has_token_def list_ex_iff tokens_def)

lemma header_values_append [simp]:
  "header_values (xs @ ys) name = header_values xs name @ header_values ys name"
  by (simp add: header_values_def)

lemma list_elements_append [simp]:
  "list_elements (xs @ ys) name = list_elements xs name @ list_elements ys name"
  by (simp add: list_elements_def)

lemma tokens_append [simp]: "tokens (xs @ ys) name = tokens xs name @ tokens ys name"
  by (simp add: tokens_def)

lemma header_values_filter_other:
  assumes "\<And>field. P field \<Longrightarrow> \<not> eq_ignore_ascii_case field name"
  shows "header_values (filter (\<lambda>(field, _). P field) hs) name = []"
  using assms by (auto simp: header_values_def filter_empty_conv)

lemma header_values_filter_keep:
  assumes "\<And>field. eq_ignore_ascii_case field name \<Longrightarrow> P field"
  shows "header_values (filter (\<lambda>(field, _). P field) hs) name = header_values hs name"
  using assms by (auto simp: header_values_def intro!: arg_cong [where f = "map snd"] filter_cong)

lemma count_header_0: "count_header hs name = 0 \<longleftrightarrow> (\<forall>(field, _) \<in> set hs. \<not> eq_ignore_ascii_case field name)"
  by (auto simp: count_header_def header_values_def filter_empty_conv)

lemma list_elements_Nil: "list_elements hs name = [] \<longleftrightarrow> count_header hs name = 0"
  by (auto simp: list_elements_def count_header_def)

lemma tokens_no_comma: "v \<in> set (tokens hs name) \<Longrightarrow> b \<in> set v \<Longrightarrow> \<not> is_comma b"
  using set_trim_ows split_on_pieces
  by (fastforce simp: tokens_def list_elements_def)

text \<open>Joining with comma and space, and reading back.\<close>

lemma split_join:
  assumes "\<forall>x \<in> set xs. \<forall>b \<in> set x. \<not> is_comma b" and "xs \<noteq> []"
  shows "map trim_ows (split_on is_comma (slice_join (bytes '', '') xs)) = map trim_ows xs"
  using assms
proof (induction xs rule: induct_list012)
  case (2 x)
  then show ?case by (simp add: split_on_no_sep)
next
  case (3 x y zs)
  have sep: "bytes '', '' = [0x2c, SP]" by (simp add: bytes_def)
  obtain w ws where w: "split_on is_comma (slice_join (bytes '', '') (y # zs)) = w # ws"
    by (cases "split_on is_comma (slice_join (bytes '', '') (y # zs))") auto
  from 3 have "map trim_ows (w # ws) = map trim_ows (y # zs)" by (simp add: w [symmetric])
  moreover from 3 have "split_on is_comma (slice_join (bytes '', '') (x # y # zs))
      = x # split_on is_comma (SP # slice_join (bytes '', '') (y # zs))"
    by (simp add: sep split_on_append_sep)
  ultimately show ?case by (simp add: w trim_ows_Cons_ows is_ows_def)
qed simp

section \<open>The Connection field after normalisation\<close>

definition kept_options :: "Header list \<Rightarrow> u8 list list" where
  "kept_options hs =
     filter (\<lambda>value. value \<noteq> [] \<and> \<not> eq_ignore_ascii_case value (bytes ''close'')
         \<and> \<not> eq_ignore_ascii_case value (bytes ''keep-alive''))
       (tokens hs (bytes ''connection''))"

lemma set_connection_close_eq:
  "set_connection_close hs =
     filter (\<lambda>(name, _). \<not> eq_ignore_ascii_case name (bytes ''connection'')) hs
     @ [(bytes ''Connection'', slice_join (bytes '', '') (kept_options hs @ [bytes ''close'']))]"
  by (simp add: set_connection_close_def kept_options_def tokens_def)

lemma connection_name: "eq_ignore_ascii_case (bytes ''Connection'') (bytes ''connection'')"
  by (simp add: byte_eval)

lemma tokens_singleton:
  "eq_ignore_ascii_case field name \<Longrightarrow> tokens [(field, value)] name = map trim_ows (split_on is_comma value)"
  by (simp add: tokens_def list_elements_def header_values_def)

lemma tokens_filter_other:
  "tokens (filter (\<lambda>(field, _). \<not> eq_ignore_ascii_case field name) hs) name = []"
  by (simp add: tokens_def list_elements_def header_values_filter_other)

lemma kept_options_trim: "v \<in> set (kept_options hs) \<Longrightarrow> trim_ows v = v"
  by (auto simp: kept_options_def tokens_def)

lemma close_token [simp]: "trim_ows (bytes ''close'') = bytes ''close''"
  by (rule trim_ows_fixed) (simp add: byte_eval)

lemma tokens_set_connection_close:
  "tokens (set_connection_close hs) (bytes ''connection'') = kept_options hs @ [bytes ''close'']"
proof -
  let ?opts = "kept_options hs @ [bytes ''close'']"
  have "\<not> is_comma b" if "x \<in> set ?opts" "b \<in> set x" for x b
    using that tokens_no_comma by (auto simp: kept_options_def byte_eval)
  then have "map trim_ows (split_on is_comma (slice_join (bytes '', '') ?opts)) = map trim_ows ?opts"
    by (intro split_join) auto
  also have "\<dots> = ?opts" by (simp add: kept_options_trim map_idI)
  finally show ?thesis
    by (simp add: set_connection_close_eq tokens_filter_other tokens_singleton connection_name)
qed

section \<open>Properties of header fields\<close>

text \<open>\<^verbatim>\<open>set_connection_close\<close> leaves every other field where it was, replaces all Connection fields by a
  single one, and that field's options are the former ones without empty elements, \<^verbatim>\<open>close\<close> and
  \<^verbatim>\<open>keep-alive\<close>, followed by \<^verbatim>\<open>close\<close>.\<close>

theorem set_connection_close_normalizes:
  "filter (\<lambda>(name, _). \<not> eq_ignore_ascii_case name (bytes ''connection'')) (set_connection_close hs)
     = filter (\<lambda>(name, _). \<not> eq_ignore_ascii_case name (bytes ''connection'')) hs
   \<and> count_header (set_connection_close hs) (bytes ''connection'') = 1
   \<and> tokens (set_connection_close hs) (bytes ''connection'') = kept_options hs @ [bytes ''close'']"
proof -
  let ?other = "\<lambda>(name, _). \<not> eq_ignore_ascii_case name (bytes ''connection'')"
  have "filter ?other (set_connection_close hs) = filter ?other hs"
    by (simp add: set_connection_close_eq connection_name filter_filter)
  moreover have "count_header (set_connection_close hs) (bytes ''connection'') = 1"
    by (simp add: set_connection_close_eq count_header_def header_values_filter_other)
       (simp add: header_values_def connection_name)
  ultimately show ?thesis by (simp add: tokens_set_connection_close)
qed

text \<open>Trimming optional whitespace removes spaces and tabs at both ends and nothing else, and what an
  accepted field value contains is left as it is.\<close>

theorem trim_ows_correct:
  "(\<exists>pre post. v = pre @ trim_ows v @ post \<and> list_all is_ows pre \<and> list_all is_ows post)
   \<and> (trim_ows v = [] \<or> \<not> is_ows (hd (trim_ows v)) \<and> \<not> is_ows (last (trim_ows v)))
   \<and> (valid_value v \<longrightarrow> trim_ows v = v)"
  using trim_ows_decomp trim_ows_ends valid_value_trim by blast

theorem trim_ows_correct_witness: "trim_ows [0x61, SP, 0x62] = [0x61, SP, 0x62]"
proof -
  have "valid_value [0x61, SP, 0x62]" by code_simp
  with trim_ows_correct [of "[0x61, SP, 0x62]"] show ?thesis by blast
qed

end
