(* ===== verification/Framing.thy ===== *)
theory Framing
  imports Header_Fields
begin

text \<open>
  Message framing (\<^verbatim>\<open>crates/h11r/src/wire.rs\<close>): the framing and reader types, the checked number parser,
  the decision of a message's framing from its fields, and the hexadecimal chunk sizes that the send
  path formats.  The lemmas characterise the decision completely: which heads are accepted, with
  which framing, and that a printed chunk size is read back as itself.
\<close>

section \<open>Types\<close>

datatype Framing = F_Fixed usize | F_Chunked | F_CloseDelimited

text \<open>\<open>Ck_Size scanned\<close> and \<open>Ck_Data remaining first\<close> carry the named fields of the source's variants.\<close>

datatype Chunk =
    Ck_Size usize
  | Ck_Data usize bool
  | Ck_DataEnd
  | Ck_Trailers

datatype Reader = R_Head | R_Fixed usize | R_Chunked Chunk | R_CloseDelimited

fun reader :: "Framing \<Rightarrow> Reader" where
  "reader (F_Fixed n) = R_Fixed n"
| "reader F_Chunked = R_Chunked (Ck_Size 0)"
| "reader F_CloseDelimited = R_CloseDelimited"

section \<open>Numbers\<close>

definition checked_mul :: "usize \<Rightarrow> usize \<Rightarrow> usize option" where
  "checked_mul a b = (if a * b < usize_limit then Some (a * b) else None)"

definition checked_add :: "usize \<Rightarrow> usize \<Rightarrow> usize option" where
  "checked_add a b = (if a + b < usize_limit then Some (a + b) else None)"

text \<open>The closure and the \<^verbatim>\<open>try_fold\<close> of \<^verbatim>\<open>parse_number\<close>.\<close>

definition number_step :: "nat \<Rightarrow> usize \<Rightarrow> u8 \<Rightarrow> usize option" where
  "number_step radix number byte =
     (case checked_mul number radix of
        None \<Rightarrow> None
      | Some number \<Rightarrow>
          (case to_digit radix byte of None \<Rightarrow> None | Some digit \<Rightarrow> checked_add number digit))"

fun number_fold :: "nat \<Rightarrow> usize \<Rightarrow> u8 list \<Rightarrow> usize option" where
  "number_fold radix number [] = Some number"
| "number_fold radix number (byte # value) =
     (case number_step radix number byte of
        None \<Rightarrow> None
      | Some number \<Rightarrow> number_fold radix number value)"

definition parse_number :: "u8 list \<Rightarrow> nat \<Rightarrow> usize option" where
  "parse_number value radix = (if value = [] then None else number_fold radix 0 value)"

text \<open>\<^verbatim>\<open>format!("{length:x}")\<close>.\<close>

definition hex_digit :: "nat \<Rightarrow> u8" where
  "hex_digit d = (if d < 10 then of_nat (0x30 + d) else of_nat (0x61 + (d - 10)))"

fun format_hex :: "usize \<Rightarrow> u8 list" where
  "format_hex n = (if n < 16 then [hex_digit n] else format_hex (n div 16) @ [hex_digit (n mod 16)])"

declare format_hex.simps [simp del]

section \<open>The framing decision\<close>

definition framing :: "Header list \<Rightarrow> Version \<Rightarrow> RemoteProtocolError + Framing" where
  "framing headers version =
     (let transfer = map trim_ows (list_elements headers (bytes ''transfer-encoding''));
          lengths = map trim_ows (list_elements headers (bytes ''content-length''));
          chunked = (\<lambda>value. eq_ignore_ascii_case value (bytes ''chunked''))
      in if transfer \<noteq> [] \<and> lengths \<noteq> [] then
           Inl (remote_err ''Transfer-Encoding and Content-Length cannot be combined'' (Some 400))
         else if transfer \<noteq> [] then
           (if version = Http10 then
              Inl (remote_err ''Transfer-Encoding is not valid HTTP/1.0 framing'' (Some 400))
            else if list_ex (\<lambda>value. value = []) transfer then
              Inl (remote_err ''invalid Transfer-Encoding field'' (Some 400))
            else if length transfer = 1 \<and> \<not> chunked (transfer ! 0) then
              Inl (remote_err ''only Transfer-Encoding: chunked is supported'' (Some 501))
            else if \<not> (case slice_last transfer of None \<Rightarrow> False | Some value \<Rightarrow> chunked value)
                    \<or> list_ex chunked (take (length transfer - 1) transfer) then
              Inl (remote_err ''chunked must be the final transfer coding'' (Some 400))
            else if list_ex (\<lambda>value. \<not> chunked value) (take (length transfer - 1) transfer) then
              Inl (remote_err ''only Transfer-Encoding: chunked is supported'' (Some 501))
            else Inr F_Chunked)
         else if lengths = [] then Inr (F_Fixed 0)
         else (case parse_number (lengths ! 0) 10 of
                 None \<Rightarrow> Inl (remote_err ''invalid Content-Length'' (Some 400))
               | Some first \<Rightarrow>
                   if list_ex (\<lambda>value. parse_number value 10 \<noteq> Some first) lengths then
                     Inl (remote_err ''conflicting Content-Length fields'' (Some 400))
                   else Inr (F_Fixed first)))"

definition response_framing :: "Header list \<Rightarrow> Version \<Rightarrow> RemoteProtocolError + Framing" where
  "response_framing headers version =
     (if count_header headers (bytes ''transfer-encoding'')
           + count_header headers (bytes ''content-length'') = 0
      then Inr F_CloseDelimited
      else framing headers version)"

definition expects_continue :: "Version \<Rightarrow> Header list \<Rightarrow> Framing \<Rightarrow> bool" where
  "expects_continue version headers frame \<longleftrightarrow>
     version = Http11 \<and> frame \<noteq> F_Fixed 0 \<and> has_token headers (bytes ''expect'') (bytes ''100-continue'')"

section \<open>What the number parser computes\<close>

definition all_digits :: "nat \<Rightarrow> u8 list \<Rightarrow> bool" where
  "all_digits radix v \<longleftrightarrow> list_all (\<lambda>b. to_digit radix b \<noteq> None) v"

definition number_value :: "nat \<Rightarrow> usize \<Rightarrow> u8 list \<Rightarrow> nat" where
  "number_value radix n v = foldl (\<lambda>n b. n * radix + the (to_digit radix b)) n v"

lemma number_value_simps [simp]:
  "number_value radix n [] = n"
  "number_value radix n (b # v) = number_value radix (n * radix + the (to_digit radix b)) v"
  "number_value radix n (v @ w) = number_value radix (number_value radix n v) w"
  by (simp_all add: number_value_def)

lemma number_value_mono: "radix \<noteq> 0 \<Longrightarrow> n \<le> number_value radix n v"
proof (induction v arbitrary: n)
  case (Cons b v)
  from Cons.prems have "n \<le> n * radix" by simp
  also have "\<dots> \<le> n * radix + the (to_digit radix b)" by simp
  also have "\<dots> \<le> number_value radix (n * radix + the (to_digit radix b)) v"
    by (rule Cons.IH [OF Cons.prems])
  finally show ?case by simp
qed simp

lemma number_step_Some:
  "number_step radix n b = Some m \<longleftrightarrow>
     to_digit radix b \<noteq> None \<and> m = n * radix + the (to_digit radix b) \<and> m < usize_limit"
  by (auto simp: number_step_def checked_mul_def checked_add_def split: option.splits)

lemma number_fold_Some:
  assumes "radix \<noteq> 0" and "n < usize_limit"
  shows "number_fold radix n v = Some m \<longleftrightarrow>
    all_digits radix v \<and> m = number_value radix n v \<and> m < usize_limit"
  using assms(2)
proof (induction v arbitrary: n)
  case (Cons b v)
  let ?n = "n * radix + the (to_digit radix b)"
  show ?case
  proof (cases "number_step radix n b")
    case None
    then have "to_digit radix b = None \<or> usize_limit \<le> ?n"
      using number_step_Some [of radix n b ?n] by auto
    moreover have "?n \<le> number_value radix ?n v" by (rule number_value_mono [OF assms(1)])
    ultimately show ?thesis using None by (auto simp: all_digits_def)
  next
    case (Some k)
    then have "k = ?n" "to_digit radix b \<noteq> None" "k < usize_limit" by (auto simp: number_step_Some)
    with Some Cons.IH [of k] show ?thesis by (simp add: all_digits_def)
  qed
qed (auto simp: all_digits_def)

lemma usize_limit_pos [simp]: "0 < usize_limit"
  by (simp add: usize_limit_def)

lemma parse_number_Some:
  assumes "radix \<noteq> 0"
  shows "parse_number v radix = Some n \<longleftrightarrow>
    v \<noteq> [] \<and> all_digits radix v \<and> n = number_value radix 0 v \<and> n < usize_limit"
  by (simp add: parse_number_def number_fold_Some assms)

lemma parse_number_bound: "parse_number v radix = Some n \<Longrightarrow> radix \<noteq> 0 \<Longrightarrow> n < usize_limit"
  by (simp add: parse_number_Some)

section \<open>Chunk sizes read back\<close>

lemma ascii_unat:
  "is_ascii_digit b \<longleftrightarrow> 0x30 \<le> unat b \<and> unat b \<le> 0x39"
  "is_ascii_lowercase b \<longleftrightarrow> 0x61 \<le> unat b \<and> unat b \<le> 0x7a"
  "is_ascii_uppercase b \<longleftrightarrow> 0x41 \<le> unat b \<and> unat b \<le> 0x5a"
  "is_ascii_hexdigit b \<longleftrightarrow>
     (0x30 \<le> unat b \<and> unat b \<le> 0x39) \<or> (0x61 \<le> unat b \<and> unat b \<le> 0x66)
     \<or> (0x41 \<le> unat b \<and> unat b \<le> 0x46)"
  by (simp_all add: byte_class word_le_nat_alt)

lemma unat_hex_digit: "d < 16 \<Longrightarrow> unat (hex_digit d) = (if d < 10 then 48 + d else 87 + d)"
proof -
  assume "d < 16"
  then have "unat (of_nat (0x30 + d) :: u8) = 0x30 + d" "unat (of_nat (0x57 + d) :: u8) = 0x57 + d"
    by (simp_all only: unat_of_nat) simp_all
  then show ?thesis by (simp add: hex_digit_def)
qed

lemma hex_digit_facts:
  assumes "d < 16"
  shows "to_digit 16 (hex_digit d) = Some d" and "is_ascii_hexdigit (hex_digit d)"
  using assms by (simp_all add: to_digit_def ascii_unat unat_hex_digit)

lemma format_hex_digits: "list_all is_ascii_hexdigit (format_hex n)"
  and format_hex_not_Nil: "format_hex n \<noteq> []"
  by (induction n rule: format_hex.induct)
     (subst format_hex.simps; auto simp: hex_digit_facts)+

lemma format_hex_value: "all_digits 16 (format_hex n) \<and> number_value 16 0 (format_hex n) = n"
proof (induction n rule: format_hex.induct)
  case (1 n)
  show ?case
  proof (cases "n < 16")
    case True
    then show ?thesis by (subst (1 2) format_hex.simps) (simp add: hex_digit_facts all_digits_def)
  next
    case False
    with 1 show ?thesis by (subst (1 2) format_hex.simps) (simp add: hex_digit_facts all_digits_def)
  qed
qed

lemma parse_number_format_hex: "n < usize_limit \<Longrightarrow> parse_number (format_hex n) 16 = Some n"
  using format_hex_value [of n] format_hex_not_Nil by (simp add: parse_number_Some)

section \<open>What the framing decision accepts\<close>

abbreviation transfer_codings :: "Header list \<Rightarrow> u8 list list" where
  "transfer_codings hs \<equiv> tokens hs (bytes ''transfer-encoding'')"

abbreviation content_lengths :: "Header list \<Rightarrow> u8 list list" where
  "content_lengths hs \<equiv> tokens hs (bytes ''content-length'')"

definition accepted_framing :: "Header list \<Rightarrow> Version \<Rightarrow> Framing \<Rightarrow> bool" where
  "accepted_framing hs v f \<longleftrightarrow>
     (case f of
        F_Chunked \<Rightarrow>
          v = Http11 \<and> content_lengths hs = []
          \<and> (\<exists>coding. transfer_codings hs = [coding] \<and> eq_ignore_ascii_case coding (bytes ''chunked''))
      | F_Fixed n \<Rightarrow>
          transfer_codings hs = []
          \<and> (\<forall>value \<in> set (content_lengths hs). parse_number value 10 = Some n)
          \<and> (content_lengths hs = [] \<longrightarrow> n = 0)
      | F_CloseDelimited \<Rightarrow> False)"

lemma Nil_not_chunked: "\<not> eq_ignore_ascii_case [] (bytes ''chunked'')"
  by (simp add: bytes_def)

lemma framing_chunked_codings:
  assumes "transfer \<noteq> []" and "\<not> (length transfer = 1 \<and> \<not> chunked (transfer ! 0))"
    and "case slice_last transfer of None \<Rightarrow> False | Some value \<Rightarrow> chunked value"
    and "\<not> list_ex chunked (take (length transfer - 1) transfer)"
    and "\<not> list_ex (\<lambda>value. \<not> chunked value) (take (length transfer - 1) transfer)"
  shows "\<exists>coding. transfer = [coding] \<and> chunked coding"
proof -
  from assms(1) obtain xs x where t: "transfer = xs @ [x]" by (cases transfer rule: rev_cases) auto
  with assms(4,5) have "xs = []" by (cases xs) auto
  with assms(3) t show ?thesis by simp
qed

lemma framing_Inr_sound: "framing hs v = Inr f \<Longrightarrow> accepted_framing hs v f"
proof -
  assume ok: "framing hs v = Inr f"
  let ?t = "transfer_codings hs" and ?l = "content_lengths hs"
  let ?chunked = "\<lambda>value. eq_ignore_ascii_case value (bytes ''chunked'')"
  show ?thesis
  proof (cases "?t = []")
    case True
    with ok show ?thesis
      by (cases ?l)
         (auto simp: framing_def Let_def tokens_def [symmetric] accepted_framing_def list_ex_iff
           split: option.splits if_splits)
  next
    case False
    with ok have facts: "v \<noteq> Http10" "?l = []" "f = F_Chunked"
      "\<not> (length ?t = 1 \<and> \<not> ?chunked (?t ! 0))"
      "case slice_last ?t of None \<Rightarrow> False | Some value \<Rightarrow> ?chunked value"
      "\<not> list_ex ?chunked (take (length ?t - 1) ?t)"
      "\<not> list_ex (\<lambda>value. \<not> ?chunked value) (take (length ?t - 1) ?t)"
      by (simp_all add: framing_def Let_def tokens_def [symmetric] split: if_splits)
    from framing_chunked_codings [OF False facts(4-7)] facts(1-3) show ?thesis
      by (cases v) (auto simp: accepted_framing_def)
  qed
qed

lemma framing_Inr_complete: "accepted_framing hs v f \<Longrightarrow> framing hs v = Inr f"
proof (cases f)
  case (F_Fixed n)
  assume "accepted_framing hs v f"
  with F_Fixed show ?thesis
    by (cases "content_lengths hs")
       (auto simp: accepted_framing_def framing_def Let_def tokens_def [symmetric] list_ex_iff)
next
  case F_Chunked
  assume "accepted_framing hs v f"
  with F_Chunked show ?thesis
    by (auto simp: accepted_framing_def framing_def Let_def tokens_def [symmetric] Nil_not_chunked)
qed (simp add: accepted_framing_def)

lemma framing_Inr_iff: "framing hs v = Inr f \<longleftrightarrow> accepted_framing hs v f"
  using framing_Inr_sound framing_Inr_complete by blast

lemma framing_Inl_status: "framing hs v = Inl e \<Longrightarrow> suggested_status_code e \<in> {Some 400, Some 501}"
  by (auto simp: framing_def Let_def split: if_splits option.splits)

section \<open>Properties of the framing decision\<close>

text \<open>C9. A head is given chunked framing exactly when it is HTTP/1.1, has no Content-Length and its only
  transfer coding is \<^verbatim>\<open>chunked\<close>; it is given a length exactly when it has no Transfer-Encoding and
  every Content-Length element is that one decimal number (zero when there is none); every other
  combination is refused, with status 400 or 501.  No head has two framings.\<close>

theorem framing_is_unambiguous:
  "(framing hs v = Inr f \<longleftrightarrow> accepted_framing hs v f)
   \<and> (case framing hs v of Inl e \<Rightarrow> suggested_status_code e \<in> {Some 400, Some 501} | Inr _ \<Rightarrow> True)"
  using framing_Inl_status by (auto simp: framing_Inr_iff split: sum.splits)

text \<open>The decimal parser returns a number exactly for non-empty digit strings whose value fits the
  machine word, and then returns that value: overflow is detected, never wrapped, and signs, blanks
  and other bytes are refused.\<close>

theorem parse_number_exact:
  "parse_number v 10 = Some n \<longleftrightarrow>
     v \<noteq> [] \<and> all_digits 10 v \<and> n = number_value 10 0 v \<and> n < usize_limit"
  by (simp add: parse_number_Some)

end
