(* ===== verification/Chunk_Line.thy ===== *)
theory Chunk_Line
  imports Framing
begin

text \<open>
  Chunk-size lines (\<^verbatim>\<open>crates/h11r/src/wire.rs\<close>): the search for the line's end, the parser of the size and
  its extensions, and the quoted-string scanner.  The definitions walk an index over the line as the
  source does.  The lemmas bound every index, show that printed chunk sizes are read back, and that
  resuming the search for the line's end loses nothing.
\<close>

section \<open>Scanning\<close>

text \<open>\<^verbatim>\<open>while value.get(at).is_some_and(p) { at += 1; }\<close>\<close>

function skip_while :: "(u8 \<Rightarrow> bool) \<Rightarrow> u8 list \<Rightarrow> usize \<Rightarrow> usize" where
  "skip_while p value at =
     (case slice_get value at of
        Some byte \<Rightarrow> if p byte then skip_while p value (at + 1) else at
      | None \<Rightarrow> at)"
  by pat_completeness auto
termination
  by (relation "measure (\<lambda>(p, value, at). length value - at)") auto

declare skip_while.simps [simp del]

definition skip_ows :: "u8 list \<Rightarrow> usize \<Rightarrow> usize" where
  "skip_ows value at = skip_while is_ows value at"

definition is_qdtext :: "u8 \<Rightarrow> bool" where
  "is_qdtext byte \<longleftrightarrow>
     byte = HTAB \<or> byte = SP \<or> byte = 0x21 \<or> (0x23 \<le> byte \<and> byte \<le> 0x5b)
     \<or> (0x5d \<le> byte \<and> byte \<le> 0x7e) \<or> 0x80 \<le> byte"

function quoted_loop :: "u8 list \<Rightarrow> usize \<Rightarrow> usize option" where
  "quoted_loop value at =
     (case slice_get value at of
        None \<Rightarrow> None
      | Some byte \<Rightarrow>
          if byte = 0x22 then Some (at + 1)
          else if byte = 0x5c then
            (let at = at + 1 in
             if \<not> (case slice_get value at of None \<Rightarrow> False | Some byte \<Rightarrow> is_line_value_byte byte)
             then None
             else quoted_loop value (at + 1))
          else if is_qdtext byte then quoted_loop value (at + 1)
          else None)"
  by pat_completeness auto
termination
  by (relation "measure (\<lambda>(value, at). length value - at)") auto

declare quoted_loop.simps [simp del]

definition parse_quoted_string :: "u8 list \<Rightarrow> usize \<Rightarrow> usize option" where
  "parse_quoted_string value at = quoted_loop value (at + 1)"

section \<open>The chunk header\<close>

text \<open>The value of an extension, from just behind its equals sign.\<close>

definition chunk_ext_value :: "u8 list \<Rightarrow> usize \<Rightarrow> usize option" where
  "chunk_ext_value line at =
     (let at = skip_ows line at in
      if slice_get line at = Some 0x22 then parse_quoted_string line at
      else (let value = at; at = skip_while is_token_byte line at
            in if at = value then None else Some at))"

text \<open>One iteration of the extension loop: the next index, or \<open>None\<close> where the parser gives up.\<close>

definition chunk_ext_step :: "u8 list \<Rightarrow> usize \<Rightarrow> usize option" where
  "chunk_ext_step line at =
     (let at = skip_ows line at in
      if slice_get line at \<noteq> Some 0x3b then None
      else
        (let at = skip_ows line (at + 1);
             name = at;
             at = skip_while is_token_byte line at
         in if at = name then None
            else
              (let after_name = at; at = skip_ows line at in
               if slice_get line at = Some 0x3d then chunk_ext_value line (at + 1)
               else if at \<noteq> after_name then None
               else Some at)))"

lemma skip_while_ge: "at \<le> skip_while p v at"
  by (induction p v at rule: skip_while.induct) (subst skip_while.simps; force split: option.splits)

lemma quoted_loop_gt: "quoted_loop v at = Some n \<Longrightarrow> at < n \<and> n \<le> length v"
  by (induction v at rule: quoted_loop.induct)
     (subst (asm) (3) quoted_loop.simps; force simp: Let_def split: option.splits if_splits)

lemma skip_ows_ge: "at \<le> skip_ows v at"
  by (simp add: skip_ows_def skip_while_ge)

lemma chunk_ext_value_ge: "chunk_ext_value v at = Some n \<Longrightarrow> at \<le> n"
  using skip_ows_ge [of at v] skip_while_ge [of "skip_ows v at" is_token_byte v]
  by (auto simp: chunk_ext_value_def Let_def parse_quoted_string_def dest!: quoted_loop_gt
      split: if_splits)

lemma chunk_ext_step_gt: "chunk_ext_step v at = Some n \<Longrightarrow> at < n"
proof -
  assume ok: "chunk_ext_step v at = Some n"
  define a where "a = skip_ows v at"
  define b where "b = skip_ows v (a + 1)"
  define c where "c = skip_while is_token_byte v b"
  define d where "d = skip_ows v c"
  have "at \<le> a" "a + 1 \<le> b" "b \<le> c" "c \<le> d"
    by (simp_all add: a_def b_def c_def d_def skip_ows_ge skip_while_ge)
  moreover from ok have "n = d \<or> chunk_ext_value v (d + 1) = Some n"
    by (auto simp: chunk_ext_step_def Let_def a_def b_def c_def d_def split: if_splits)
  then have "d \<le> n" by (auto dest: chunk_ext_value_ge)
  ultimately show "at < n" by simp
qed

function chunk_ext_loop :: "u8 list \<Rightarrow> usize \<Rightarrow> bool" where
  "chunk_ext_loop line at =
     (if at < length line then
        (case chunk_ext_step line at of
           None \<Rightarrow> False
         | Some at \<Rightarrow> chunk_ext_loop line at)
      else True)"
  by pat_completeness auto
termination
  by (relation "measure (\<lambda>(line, at). length line - at)") (auto dest: chunk_ext_step_gt)

declare chunk_ext_loop.simps [simp del]

definition parse_chunk_header :: "u8 list \<Rightarrow> usize option" where
  "parse_chunk_header line =
     (let digits = length (takeWhile is_ascii_hexdigit line) in
      case parse_number (take digits line) 16 of
        None \<Rightarrow> None
      | Some n \<Rightarrow> if chunk_ext_loop line digits then Some n else None)"

section \<open>The end of the line\<close>

text \<open>\<^verbatim>\<open>windows(2).position(|pair| pair == b"\r\n")\<close>\<close>

fun crlf_position :: "u8 list \<Rightarrow> usize option" where
  "crlf_position [] = None"
| "crlf_position [_] = None"
| "crlf_position (x # y # data) =
     (if x = CR \<and> y = LF then Some 0 else map_option Suc (crlf_position (y # data)))"

definition find_crlf :: "u8 list \<Rightarrow> usize \<Rightarrow> usize option" where
  "find_crlf data start =
     (if start > length data then None
      else map_option (\<lambda>at. start + at + 2) (crlf_position (drop start data)))"

definition incomplete_line_len :: "u8 list \<Rightarrow> usize \<Rightarrow> usize" where
  "incomplete_line_len data start =
     length data - (start + (if slice_last data = Some CR then 1 else 0))"

lemma crlf_position_Some:
  "crlf_position d = Some i \<Longrightarrow> i + 2 \<le> length d \<and> d ! i = CR \<and> d ! (i + 1) = LF \<and> take 2 (drop i d) = CRLF"
proof (induction d arbitrary: i rule: crlf_position.induct)
  case (3 x y d)
  show ?case
  proof (cases "x = CR \<and> y = LF")
    case False
    with "3.prems" obtain j where "crlf_position (y # d) = Some j" and "i = Suc j" by auto
    with "3.IH" [OF False] show ?thesis by auto
  qed (use "3.prems" in auto)
qed auto

lemma crlf_position_least:
  "crlf_position d = Some i \<Longrightarrow> j < i \<Longrightarrow> \<not> (d ! j = CR \<and> d ! (j + 1) = LF)"
proof (induction d arbitrary: i j rule: crlf_position.induct)
  case (3 x y d)
  from "3.prems" have no: "\<not> (x = CR \<and> y = LF)" by (auto split: if_splits)
  with "3.prems" obtain k where k: "crlf_position (y # d) = Some k" "i = Suc k" by auto
  show ?case
  proof (cases j)
    case (Suc m)
    with "3.IH" [OF no k(1), of m] "3.prems"(2) k(2) show ?thesis by simp
  qed (use no in auto)
qed auto

lemma crlf_position_None:
  "crlf_position d = None \<Longrightarrow> Suc j < length d \<Longrightarrow> \<not> (d ! j = CR \<and> d ! (j + 1) = LF)"
proof (induction d arbitrary: j rule: crlf_position.induct)
  case (3 x y d)
  from "3.prems" have no: "\<not> (x = CR \<and> y = LF)" and rest: "crlf_position (y # d) = None"
    by (auto split: if_splits)
  show ?case
  proof (cases j)
    case (Suc m)
    with "3.IH" [OF no rest, of m] "3.prems"(2) show ?thesis by simp
  qed (use no in auto)
qed auto

lemma crlf_position_append:
  assumes "\<forall>b \<in> set pre. b \<noteq> CR"
  shows "crlf_position (pre @ CR # LF # post) = Some (length pre)"
  using assms
proof (induction pre)
  case (Cons b pre)
  then show ?case by (cases pre) auto
qed simp

lemma find_crlf_Some:
  assumes "find_crlf d s = Some e"
  shows "s + 2 \<le> e" and "e \<le> length d" and "take 2 (drop (e - 2) d) = CRLF"
  using assms by (auto simp: find_crlf_def add.commute dest!: crlf_position_Some split: if_splits)

text \<open>Resuming at the last byte of a part without line end finds the same end as starting over.\<close>

lemma crlf_position_resume:
  "crlf_position d = None \<Longrightarrow>
     crlf_position (d @ e) = map_option (\<lambda>i. (length d - 1) + i) (crlf_position (drop (length d - 1) (d @ e)))"
proof (induction d rule: crlf_position.induct)
  case 1
  show ?case by (cases "crlf_position e") auto
next
  case (2 x)
  show ?case by (cases "crlf_position (x # e)") auto
next
  case (3 x y d)
  then have no: "\<not> (x = CR \<and> y = LF)" and rest: "crlf_position (y # d) = None"
    by (simp_all split: if_splits)
  from "3.IH" [OF no rest] no show ?case
    by (cases "crlf_position (drop (length d) (y # d @ e))") simp_all
qed

lemma find_crlf_resume:
  assumes "find_crlf d 0 = None"
  shows "find_crlf (d @ e) (length d - 1) = find_crlf (d @ e) 0"
proof -
  from assms have "crlf_position d = None" by (simp add: find_crlf_def)
  from crlf_position_resume [OF this, of e] show ?thesis
    by (cases "crlf_position (drop (length d - 1) (d @ e))") (auto simp: find_crlf_def)
qed

section \<open>Printed chunk lines\<close>

lemma takeWhile_all: "list_all P xs \<Longrightarrow> takeWhile P xs = xs"
  by (simp add: list_all_iff)

lemma parse_chunk_header_format_hex: "n < usize_limit \<Longrightarrow> parse_chunk_header (format_hex n) = Some n"
  by (simp add: parse_chunk_header_def takeWhile_all format_hex_digits parse_number_format_hex
      chunk_ext_loop.simps)

lemma format_hex_no_cr: "b \<in> set (format_hex n) \<Longrightarrow> b \<noteq> CR \<and> b \<noteq> LF"
  using format_hex_digits [of n] is_token_byte_no_delim is_token_byte_hexdigit by (auto simp: list_all_iff)

lemma find_crlf_chunk_line: "find_crlf (format_hex n @ CRLF @ post) 0 = Some (length (format_hex n) + 2)"
  using crlf_position_append [of "format_hex n" post] format_hex_no_cr [of _ n] by (simp add: find_crlf_def)

lemma parse_chunk_header_bound: "parse_chunk_header line = Some n \<Longrightarrow> n < usize_limit"
  by (auto simp: parse_chunk_header_def Let_def dest!: parse_number_bound split: option.splits if_splits)

section \<open>Properties of chunk lines\<close>

text \<open>The size line that the send path prints for a chunk is found complete by the receive path
  whatever follows it, and is read back as the same size, for every machine-word length.\<close>

theorem chunk_line_round_trip:
  assumes "n < usize_limit"
  shows "find_crlf (format_hex n @ CRLF @ rest) 0 = Some (length (format_hex n) + 2)
    \<and> parse_chunk_header (take (length (format_hex n) + 2 - 2) (format_hex n @ CRLF @ rest)) = Some n"
  using find_crlf_chunk_line [of n rest] parse_chunk_header_format_hex [OF assms] by simp

theorem chunk_line_round_trip_witness:
  "find_crlf (format_hex 255 @ CRLF @ [0x41]) 0 = Some (length (format_hex 255) + 2)"
  using chunk_line_round_trip [of 255 "[0x41]"] by (simp add: usize_limit_def)

text \<open>Resuming the search for a line's end at the last byte already seen finds what a search of all
  the bytes finds, even when the line end is split between two arrivals.\<close>

theorem line_search_resumes:
  assumes "find_crlf d 0 = None"
  shows "find_crlf (d @ e) (length d - 1) = find_crlf (d @ e) 0"
  using assms by (rule find_crlf_resume)

theorem line_search_resumes_witness: "find_crlf ([0x35, CR] @ [LF]) 1 = Some 3"
proof -
  have none: "find_crlf [0x35, CR] 0 = None" by code_simp
  have "find_crlf ([0x35, CR] @ [LF]) 0 = Some 3" by code_simp
  with line_search_resumes [OF none, of "[LF]"] show ?thesis by simp
qed

end
