(* ===== verification/Net_Addr.thy ===== *)
theory Net_Addr
  imports Prelude
begin

text \<open>
  The two standard-library functions that the Host validation calls on the inside of an IP literal:
  \<^verbatim>\<open>std::str::from_utf8\<close> (its success only) and \<^verbatim>\<open>str::parse::<Ipv6Addr>\<close> (its success only).  The parser
  is the library's recursive-descent reader over bytes; a reader returns the unread rest, and
  \<open>None\<close> leaves the input as it was, as \<^verbatim>\<open>read_atomically\<close> does.
\<close>

section \<open>UTF-8\<close>

definition is_utf8_cont :: "u8 \<Rightarrow> bool" where
  "is_utf8_cont b \<longleftrightarrow> 0x80 \<le> b \<and> b \<le> 0xbf"

fun is_utf8 :: "u8 list \<Rightarrow> bool" where
  "is_utf8 [] = True"
| "is_utf8 (a # s) =
     (if a < 0x80 then is_utf8 s
      else case s of
        [] \<Rightarrow> False
      | b # s \<Rightarrow>
          if 0xc2 \<le> a \<and> a \<le> 0xdf then is_utf8_cont b \<and> is_utf8 s
          else (case s of
            [] \<Rightarrow> False
          | c # s \<Rightarrow>
              if 0xe0 \<le> a \<and> a \<le> 0xef then
                is_utf8_cont b \<and> is_utf8_cont c
                \<and> (a = 0xe0 \<longrightarrow> 0xa0 \<le> b) \<and> (a = 0xed \<longrightarrow> b \<le> 0x9f) \<and> is_utf8 s
              else (case s of
                [] \<Rightarrow> False
              | d # s \<Rightarrow>
                  0xf0 \<le> a \<and> a \<le> 0xf4 \<and> is_utf8_cont b \<and> is_utf8_cont c \<and> is_utf8_cont d
                  \<and> (a = 0xf0 \<longrightarrow> 0x90 \<le> b) \<and> (a = 0xf4 \<longrightarrow> b \<le> 0x8f) \<and> is_utf8 s)))"

lemma is_utf8_ascii: "\<forall>b \<in> set s. b < 0x80 \<Longrightarrow> is_utf8 s"
  by (induction s) auto

section \<open>IPv6 addresses\<close>

fun read_given_char :: "u8 \<Rightarrow> u8 list \<Rightarrow> u8 list option" where
  "read_given_char c [] = None"
| "read_given_char c (b # s) = (if b = c then Some s else None)"

fun read_digits :: "nat \<Rightarrow> nat \<Rightarrow> nat \<Rightarrow> nat \<Rightarrow> u8 list \<Rightarrow> (nat \<times> nat \<times> u8 list) option" where
  "read_digits radix max_digits digit_count result [] = Some (digit_count, result, [])"
| "read_digits radix max_digits digit_count result (b # s) =
     (case to_digit radix b of
        None \<Rightarrow> Some (digit_count, result, b # s)
      | Some digit \<Rightarrow>
          if digit_count + 1 > max_digits then None
          else read_digits radix max_digits (digit_count + 1) (result * radix + digit) s)"

text \<open>\<^verbatim>\<open>read_number\<close>; \<open>limit\<close> is the number of values of the result type (\<^verbatim>\<open>u8\<close> or \<^verbatim>\<open>u16\<close>).\<close>

definition read_number :: "nat \<Rightarrow> nat \<Rightarrow> bool \<Rightarrow> nat \<Rightarrow> u8 list \<Rightarrow> u8 list option" where
  "read_number radix max_digits allow_zero_prefix limit s =
     (let has_leading_zero = (slice_first s = Some 0x30) in
      case read_digits radix max_digits 0 0 s of
        None \<Rightarrow> None
      | Some (digit_count, result, rest) \<Rightarrow>
          if digit_count = 0 then None
          else if \<not> allow_zero_prefix \<and> has_leading_zero \<and> digit_count > 1 then None
          else if result < limit then Some rest else None)"

definition read_separator ::
  "u8 \<Rightarrow> nat \<Rightarrow> (u8 list \<Rightarrow> u8 list option) \<Rightarrow> u8 list \<Rightarrow> u8 list option" where
  "read_separator sep index inner s =
     (if index > 0
      then (case read_given_char sep s of None \<Rightarrow> None | Some rest \<Rightarrow> inner rest)
      else inner s)"

text \<open>Four decimal groups of at most three digits, without leading zeros, joined by dots.\<close>

definition read_ipv4_group :: "nat \<Rightarrow> u8 list \<Rightarrow> u8 list option" where
  "read_ipv4_group index = read_separator 0x2e index (read_number 10 3 False 256)"

definition read_ipv4_addr :: "u8 list \<Rightarrow> u8 list option" where
  "read_ipv4_addr s =
     Option.bind (read_ipv4_group 0 s) (\<lambda>s. Option.bind (read_ipv4_group 1 s)
       (\<lambda>s. Option.bind (read_ipv4_group 2 s) (read_ipv4_group 3)))"

text \<open>The groups read from index \<open>i\<close> on, whether an embedded IPv4 address ended them, and the rest.\<close>

function read_groups :: "nat \<Rightarrow> nat \<Rightarrow> u8 list \<Rightarrow> nat \<times> bool \<times> u8 list" where
  "read_groups limit i s =
     (if i < limit then
        (case (if i < limit - 1 then read_separator 0x3a i read_ipv4_addr s else None) of
           Some rest \<Rightarrow> (i + 2, True, rest)
         | None \<Rightarrow>
             (case read_separator 0x3a i (read_number 16 4 True 65536) s of
                Some rest \<Rightarrow> read_groups limit (i + 1) rest
              | None \<Rightarrow> (i, False, s)))
      else (limit, False, s))"
  by pat_completeness auto
termination
  by (relation "measure (\<lambda>(limit, i, s). limit - i)") auto

declare read_groups.simps [simp del]

definition read_ipv6_addr :: "u8 list \<Rightarrow> u8 list option" where
  "read_ipv6_addr s =
     (case read_groups 8 0 s of
        (head_size, head_ipv4, s) \<Rightarrow>
          if head_size = 8 then Some s
          else if head_ipv4 then None
          else
            Option.bind (read_given_char 0x3a s) (\<lambda>s. Option.bind (read_given_char 0x3a s)
              (\<lambda>s. case read_groups (8 - (head_size + 1)) 0 s of (_, _, s) \<Rightarrow> Some s)))"

text \<open>\<^verbatim>\<open>parse_with\<close>: the whole input has to be read.\<close>

definition parses_ipv6_addr :: "u8 list \<Rightarrow> bool" where
  "parses_ipv6_addr s \<longleftrightarrow> read_ipv6_addr s = Some []"

section \<open>The bytes of an accepted address\<close>

definition addr_byte :: "u8 \<Rightarrow> bool" where
  "addr_byte b \<longleftrightarrow> is_ascii_hexdigit b \<or> b = 0x3a \<or> b = 0x2e"

text \<open>A reader consumes a prefix of address bytes.\<close>

definition consumes_addr :: "u8 list \<Rightarrow> u8 list \<Rightarrow> bool" where
  "consumes_addr s rest \<longleftrightarrow> (\<exists>pre. s = pre @ rest \<and> list_all addr_byte pre)"

lemma consumes_addr_refl [simp]: "consumes_addr s s"
  by (simp add: consumes_addr_def)

lemma consumes_addr_trans [trans]: "consumes_addr a b \<Longrightarrow> consumes_addr b c \<Longrightarrow> consumes_addr a c"
  unfolding consumes_addr_def by (metis append_assoc list_all_append)

lemma consumes_addr_Cons: "addr_byte b \<Longrightarrow> consumes_addr s rest \<Longrightarrow> consumes_addr (b # s) rest"
  unfolding consumes_addr_def by (metis append_Cons list.pred_inject(2))

lemma to_digit_hex: "to_digit radix b = Some d \<Longrightarrow> radix \<le> 16 \<Longrightarrow> is_ascii_hexdigit b"
  by (auto simp: to_digit_def Let_def byte_class word_le_nat_alt split: if_splits option.splits)

lemma read_given_char_consumes:
  "read_given_char c s = Some rest \<Longrightarrow> addr_byte c \<Longrightarrow> consumes_addr s rest"
  by (cases s) (auto intro: consumes_addr_Cons split: if_splits)

lemma read_digits_consumes:
  "read_digits radix m n v s = Some (k, r, rest) \<Longrightarrow> radix \<le> 16 \<Longrightarrow> consumes_addr s rest"
  by (induction radix m n v s rule: read_digits.induct)
     (auto simp: addr_byte_def to_digit_hex intro!: consumes_addr_Cons split: option.splits if_splits)

lemma read_number_consumes:
  "read_number radix m z l s = Some rest \<Longrightarrow> radix \<le> 16 \<Longrightarrow> consumes_addr s rest"
  by (auto simp: read_number_def Let_def dest: read_digits_consumes split: option.splits if_splits)

lemma read_separator_consumes:
  assumes "read_separator sep i inner s = Some rest" and "addr_byte sep"
    and "\<And>s rest. inner s = Some rest \<Longrightarrow> consumes_addr s rest"
  shows "consumes_addr s rest"
  using assms
  by (auto simp: read_separator_def split: if_splits option.splits
      intro: consumes_addr_trans read_given_char_consumes)

lemma read_ipv4_group_consumes: "read_ipv4_group i s = Some rest \<Longrightarrow> consumes_addr s rest"
  unfolding read_ipv4_group_def
  by (rule read_separator_consumes [where sep = "0x2e"])
     (auto simp: addr_byte_def dest: read_number_consumes)

lemma read_ipv4_addr_consumes: "read_ipv4_addr s = Some rest \<Longrightarrow> consumes_addr s rest"
  by (auto simp: read_ipv4_addr_def bind_eq_Some_conv
      dest!: read_ipv4_group_consumes intro: consumes_addr_trans)

lemma read_groups_consumes: "read_groups limit i s = (n, v4, rest) \<Longrightarrow> consumes_addr s rest"
proof (induction limit i s rule: read_groups.induct)
  case (1 limit i s)
  have sep: "addr_byte 0x3a" by (simp add: addr_byte_def)
  note v4 = read_separator_consumes [OF _ sep read_ipv4_addr_consumes]
  have hex: "consumes_addr s rest" if "read_separator 0x3a i (read_number 16 4 True 65536) s = Some rest" for rest
    using that by (rule read_separator_consumes [OF _ sep]) (auto dest: read_number_consumes)
  from 1 show ?case
    by (subst (asm) (2) read_groups.simps)
       (auto split: if_splits option.splits dest: v4 hex intro: consumes_addr_trans)
qed

lemma read_ipv6_addr_consumes: "read_ipv6_addr s = Some rest \<Longrightarrow> consumes_addr s rest"
proof -
  assume ok: "read_ipv6_addr s = Some rest"
  obtain n v4 s1 where head: "read_groups 8 0 s = (n, v4, s1)" by (cases "read_groups 8 0 s") auto
  have sep: "addr_byte 0x3a" by (simp add: addr_byte_def)
  have "consumes_addr s1 rest"
  proof (cases "n = 8")
    case True
    with ok head show ?thesis by (simp add: read_ipv6_addr_def)
  next
    case False
    with ok head obtain s2 s3 where colons: "read_given_char 0x3a s1 = Some s2"
        "read_given_char 0x3a s2 = Some s3"
      and rest: "(case read_groups (8 - (n + 1)) 0 s3 of (_, _, s) \<Rightarrow> Some s) = Some rest"
      by (auto simp: read_ipv6_addr_def bind_eq_Some_conv split: if_splits)
    then obtain k w where tail: "read_groups (8 - (n + 1)) 0 s3 = (k, w, rest)"
      by (cases "read_groups (8 - (n + 1)) 0 s3") auto
    from colons have "consumes_addr s1 s3"
      by (blast intro: consumes_addr_trans read_given_char_consumes sep)
    with read_groups_consumes [OF tail] show ?thesis by (blast intro: consumes_addr_trans)
  qed
  with read_groups_consumes [OF head] show ?thesis by (rule consumes_addr_trans)
qed

lemma parses_ipv6_addr_bytes: "parses_ipv6_addr s \<Longrightarrow> list_all addr_byte s"
  by (auto simp: parses_ipv6_addr_def consumes_addr_def dest!: read_ipv6_addr_consumes)

lemma addr_byte_ascii: "addr_byte b \<Longrightarrow> b < 0x80"
  by (auto simp: addr_byte_def byte_class word_le_nat_alt word_less_nat_alt)

lemma parses_ipv6_addr_utf8: "parses_ipv6_addr s \<Longrightarrow> is_utf8 s"
  by (rule is_utf8_ascii) (auto dest!: parses_ipv6_addr_bytes simp: list_all_iff addr_byte_ascii)

end
