(* ===== verification/Authority.thy ===== *)
theory Authority
  imports Header_Fields Net_Addr
begin

text \<open>
  Validation of the Host field and of an outgoing request head (\<^verbatim>\<open>valid_host\<close>, \<^verbatim>\<open>valid_authority\<close> and
  their helpers, and \<^verbatim>\<open>validate_request\<close>, in \<^verbatim>\<open>crates/h11r/src/wire.rs\<close>).  A loop that walks an index
  forward over a slice is a recursion on the part of the slice that is left.
\<close>

definition is_unreserved :: "u8 \<Rightarrow> bool" where
  "is_unreserved byte \<longleftrightarrow>
     is_ascii_alphanumeric byte \<or> byte = 0x2d \<or> byte = 0x2e \<or> byte = 0x5f \<or> byte = 0x7e"

definition is_sub_delim :: "u8 \<Rightarrow> bool" where
  "is_sub_delim byte \<longleftrightarrow>
     byte = 0x21 \<or> byte = 0x24 \<or> byte = 0x26 \<or> byte = 0x27 \<or> byte = 0x28 \<or> byte = 0x29
     \<or> byte = 0x2a \<or> byte = 0x2b \<or> byte = 0x2c \<or> byte = 0x3b \<or> byte = 0x3d"

declare is_unreserved_def [byte_class, byte_eval] is_sub_delim_def [byte_class, byte_eval]

definition split_at_byte :: "u8 list \<Rightarrow> u8 \<Rightarrow> (u8 list \<times> u8 list) option" where
  "split_at_byte value needle =
     (case position (\<lambda>byte. byte = needle) value of
        None \<Rightarrow> None
      | Some at \<Rightarrow> Some (take at value, drop (at + 1) value))"

fun valid_percent_encoded :: "(u8 \<Rightarrow> bool) \<Rightarrow> u8 list \<Rightarrow> bool" where
  "valid_percent_encoded allowed [] = True"
| "valid_percent_encoded allowed (b # value) =
     (if b = 0x25 then
        (case value of
           x # y # value \<Rightarrow>
             is_ascii_hexdigit x \<and> is_ascii_hexdigit y \<and> valid_percent_encoded allowed value
         | _ \<Rightarrow> False)
      else if allowed b then valid_percent_encoded allowed value
      else False)"

definition valid_reg_name :: "u8 list \<Rightarrow> bool" where
  "valid_reg_name value = valid_percent_encoded (\<lambda>byte. is_unreserved byte \<or> is_sub_delim byte) value"

definition valid_ip_literal :: "u8 list \<Rightarrow> bool" where
  "valid_ip_literal value \<longleftrightarrow>
     (is_utf8 value \<and> parses_ipv6_addr value)
     \<or> ((case slice_first value of None \<Rightarrow> False | Some byte \<Rightarrow> byte = 0x76 \<or> byte = 0x56)
        \<and> (case position (\<lambda>byte. byte = 0x2e) value of
             None \<Rightarrow> False
           | Some dot \<Rightarrow>
               dot > 1
               \<and> list_all is_ascii_hexdigit (take (dot - 1) (drop 1 value))
               \<and> drop (dot + 1) value \<noteq> []
               \<and> list_all (\<lambda>byte. is_unreserved byte \<or> is_sub_delim byte \<or> byte = 0x3a)
                   (drop (dot + 1) value)))"

text \<open>The host and port of \<^verbatim>\<open>valid_authority\<close>, \<open>None\<close> where it returns \<^verbatim>\<open>false\<close> early.\<close>

definition split_authority :: "u8 list \<Rightarrow> (u8 list \<times> u8 list option) option" where
  "split_authority value =
     (if starts_with value (bytes ''['') then
        (case position (\<lambda>byte. byte = 0x5d) value of
           None \<Rightarrow> None
         | Some close \<Rightarrow>
             (let literal = take (close - 1) (drop 1 value) in
              if \<not> valid_ip_literal literal then None
              else (let rest = drop (close + 1) value in
                    if rest = [] then Some (take (close + 1) value, None)
                    else if starts_with rest (bytes '':'') then Some (take (close + 1) value, Some (drop 1 rest))
                    else None)))
      else if length (filter (\<lambda>byte. byte = 0x3a) value) > 1 then None
      else (case split_at_byte value 0x3a of
              None \<Rightarrow> Some (value, None)
            | Some (host, port) \<Rightarrow> Some (host, Some port)))"

definition valid_authority :: "u8 list \<Rightarrow> bool" where
  "valid_authority value =
     (case split_authority value of
        None \<Rightarrow> False
      | Some (host, port) \<Rightarrow>
          (let host_valid = starts_with host (bytes ''['') \<or> valid_reg_name host in
           host_valid \<and> (case port of None \<Rightarrow> True | Some port \<Rightarrow> list_all is_ascii_digit port)))"

definition valid_host :: "Version \<Rightarrow> Header list \<Rightarrow> bool" where
  "valid_host version headers =
     (case header_values headers (bytes ''host'') of
        [] \<Rightarrow> version = Http10
      | first # hosts \<Rightarrow> hosts = [] \<and> valid_authority first)"

definition validate_request :: "Request \<Rightarrow> LocalProtocolError + unit" where
  "validate_request request =
     (if \<not> valid_request_target (req_target request)
      then Inl (local_err ''request target must be non-empty visible ASCII'')
      else case validate_headers (req_headers request) of
        Inl e \<Rightarrow> Inl e
      | Inr _ \<Rightarrow>
          if \<not> valid_host (req_http_version request) (req_headers request)
          then Inl (local_err ''request has a missing, duplicate, or invalid Host field'')
          else Inr ())"

section \<open>The bytes of an accepted authority\<close>

definition authority_byte :: "u8 \<Rightarrow> bool" where
  "authority_byte b \<longleftrightarrow>
     is_unreserved b \<or> is_sub_delim b \<or> b = 0x25 \<or> b = 0x3a \<or> b = 0x5b \<or> b = 0x5d"

lemma hexdigit_unreserved: "is_ascii_hexdigit b \<Longrightarrow> is_unreserved b"
  by (auto simp: byte_class word_le_nat_alt)

lemma addr_byte_authority: "addr_byte b \<Longrightarrow> authority_byte b"
  by (auto simp: addr_byte_def authority_byte_def hexdigit_unreserved) (simp add: is_unreserved_def)

lemma valid_percent_encoded_bytes:
  "valid_percent_encoded allowed v \<Longrightarrow> b \<in> set v \<Longrightarrow> allowed b \<or> b = 0x25 \<or> is_ascii_hexdigit b"
proof (induction allowed v rule: valid_percent_encoded.induct)
  case (2 allowed a v)
  show ?case
  proof (cases "a = 0x25")
    case True
    with "2.prems"(1) obtain x y w where v: "v = x # y # w" "is_ascii_hexdigit x" "is_ascii_hexdigit y"
      "valid_percent_encoded allowed w"
      by (auto split: list.splits)
    with "2.IH"(1) [OF True v(1) refl] "2.prems"(2) True show ?thesis by auto
  next
    case False
    with "2.prems" "2.IH"(2) show ?thesis by (auto split: if_splits)
  qed
qed simp

lemma valid_reg_name_bytes: "valid_reg_name v \<Longrightarrow> b \<in> set v \<Longrightarrow> authority_byte b"
  by (auto simp: valid_reg_name_def authority_byte_def hexdigit_unreserved
      dest: valid_percent_encoded_bytes)

lemma position_split:
  assumes "position p v = Some i"
  shows "v = take i v @ v ! i # drop (i + 1) v" and "p (v ! i)"
  using assms by (auto simp: position_Some id_take_nth_drop)

lemma valid_ip_literal_bytes:
  assumes "valid_ip_literal v" and "b \<in> set v"
  shows "authority_byte b"
proof (cases "parses_ipv6_addr v")
  case True
  with assms(2) show ?thesis
    by (auto dest!: parses_ipv6_addr_bytes simp: list_all_iff addr_byte_authority)
next
  case False
  with assms(1) obtain f dot where f: "slice_first v = Some f" "f = 0x76 \<or> f = 0x56"
    and dot: "position (\<lambda>byte. byte = 0x2e) v = Some dot" "dot > 1"
    and hex: "list_all is_ascii_hexdigit (take (dot - 1) (drop 1 v))"
    and rest: "list_all (\<lambda>byte. is_unreserved byte \<or> is_sub_delim byte \<or> byte = 0x3a) (drop (dot + 1) v)"
    by (auto simp: valid_ip_literal_def split: option.splits)
  obtain w where v: "v = f # w" using f(1) by (cases v) auto
  have "take dot v = f # take (dot - 1) (drop 1 v)" using dot(2) by (simp add: v take_Cons')
  with position_split [OF dot(1)] have "v = f # take (dot - 1) (drop 1 v) @ 0x2e # drop (dot + 1) v"
    by (metis append_Cons)
  with assms(2) consider "b = f" | "b \<in> set (take (dot - 1) (drop 1 v))" | "b = 0x2e" | "b \<in> set (drop (dot + 1) v)"
    by (metis Un_iff set_ConsD set_append)
  then show ?thesis
  proof cases
    case 1
    with f(2) show ?thesis by (auto simp: authority_byte_def byte_class)
  next
    case 2
    with hex show ?thesis by (auto simp: list_all_iff authority_byte_def hexdigit_unreserved)
  next
    case 3
    then show ?thesis by (simp add: authority_byte_def is_unreserved_def)
  next
    case 4
    with rest show ?thesis by (auto simp: list_all_iff authority_byte_def)
  qed
qed

lemma digit_authority: "is_ascii_digit b \<Longrightarrow> authority_byte b"
  by (simp add: authority_byte_def is_unreserved_def is_ascii_alphanumeric_def)

lemma authority_byte_line: "authority_byte b \<Longrightarrow> is_ascii_graphic b \<and> b \<noteq> 0x2f \<and> b \<noteq> 0x40 \<and> b \<noteq> 0x3f \<and> b \<noteq> 0x23"
  by (auto simp: authority_byte_def byte_class word_le_nat_alt)

lemma starts_with_bracket: "starts_with v (bytes ''['') \<longleftrightarrow> (\<exists>w. v = 0x5b # w)"
  by (cases v) (auto simp: starts_with_def bytes_def)

lemma starts_with_colon: "starts_with v (bytes '':'') \<longleftrightarrow> (\<exists>w. v = 0x3a # w)"
  by (cases v) (auto simp: starts_with_def bytes_def)

lemma bracketed_split:
  assumes "v = 0x5b # w" and "position (\<lambda>byte. byte = (0x5d::u8)) v = Some close"
  shows "v = 0x5b # take (close - 1) (drop 1 v) @ 0x5d # drop (close + 1) v"
proof -
  note split = position_split [OF assms(2)]
  from split(2) assms(1) have "close > 0" by (cases close) auto
  then have "take close v = 0x5b # take (close - 1) (drop 1 v)" using assms(1) by (simp add: take_Cons')
  with split show ?thesis by (metis append_Cons)
qed

lemma valid_authority_bytes:
  assumes "valid_authority v" and "b \<in> set v"
  shows "authority_byte b"
proof (cases "starts_with v (bytes ''['')")
  case True
  then obtain w where w: "v = 0x5b # w" by (auto simp: starts_with_bracket)
  with assms(1) True obtain close where close: "position (\<lambda>byte. byte = 0x5d) v = Some close"
    and lit: "valid_ip_literal (take (close - 1) (drop 1 v))"
    by (auto simp: valid_authority_def split_authority_def Let_def split: option.splits if_splits)
  from assms(1) True close lit
  have rest: "drop (close + 1) v = [] \<or>
      (\<exists>port. drop (close + 1) v = 0x3a # port \<and> list_all is_ascii_digit port)"
    by (auto simp: valid_authority_def split_authority_def Let_def starts_with_colon
        split: option.splits if_splits)
  have brackets: "authority_byte 0x5b" "authority_byte 0x5d" "authority_byte 0x3a"
    by (simp_all add: authority_byte_def)
  have "b = 0x5b \<or> b \<in> set (take (close - 1) (drop 1 v)) \<or> b = 0x5d \<or> b \<in> set (drop (close + 1) v)"
    using assms(2) arg_cong [OF bracketed_split [OF w close], of set] by auto
  with brackets valid_ip_literal_bytes [OF lit] rest digit_authority show ?thesis
    by (auto simp: list_all_iff)
next
  case False
  then have take: "\<not> starts_with (take i v) (bytes ''['')" for i
    by (cases v; cases i) (auto simp: starts_with_def bytes_def)
  consider "valid_reg_name v"
    | i where "position (\<lambda>byte. byte = 0x3a) v = Some i" "valid_reg_name (take i v)"
        "list_all is_ascii_digit (drop (i + 1) v)"
    using assms(1) False take
    by (auto simp: valid_authority_def split_authority_def split_at_byte_def Let_def
        split: option.splits if_splits)
  then show ?thesis
  proof cases
    case 1
    with assms(2) show ?thesis by (rule valid_reg_name_bytes [rotated])
  next
    case 2
    have "b \<in> set (take i v) \<or> b = 0x3a \<or> b \<in> set (drop (i + 1) v)"
      using assms(2) arg_cong [OF position_split(1) [OF 2(1)], of set] position_split(2) [OF 2(1)] by auto
    with 2 valid_reg_name_bytes digit_authority show ?thesis
      by (auto simp: list_all_iff authority_byte_def)
  qed
qed

lemma validate_request_Inr:
  "validate_request r = Inr u \<longleftrightarrow>
     valid_request_target (req_target r)
     \<and> (\<forall>(name, value) \<in> set (req_headers r). valid_name name \<and> valid_value value)
     \<and> valid_host (req_http_version r) (req_headers r)"
  by (cases "validate_headers (req_headers r)")
     (auto simp: validate_request_def simp flip: validate_headers_Inr [of _ "()"])

section \<open>Properties of the Host field\<close>

text \<open>A Host value that passes validation consists of unreserved characters, sub-delimiters, percent,
  colon and brackets only: no control byte, space, slash, at sign, question mark or hash can reach a
  consumer of the authority, and an HTTP/1.1 request has exactly one such field.\<close>

theorem host_bytes_are_safe:
  assumes "valid_host v hs"
  shows "(v = Http11 \<longrightarrow> count_header hs (bytes ''host'') = 1) \<and> count_header hs (bytes ''host'') \<le> 1
    \<and> (\<forall>value \<in> set (header_values hs (bytes ''host'')). \<forall>b \<in> set value.
         authority_byte b \<and> is_ascii_graphic b \<and> b \<notin> set (bytes ''/@?#''))"
proof -
  have delim: "set (bytes ''/@?#'') = {0x2f, 0x40, 0x3f, 0x23}" by (simp add: bytes_def)
  show ?thesis
    using assms valid_authority_bytes authority_byte_line
    unfolding delim valid_host_def count_header_def
    by (auto split: list.splits)
qed

theorem host_bytes_are_safe_witness:
  "count_header [(bytes ''Host'', bytes ''example.com:80'')] (bytes ''host'') = 1"
proof -
  have "valid_host Http11 [(bytes ''Host'', bytes ''example.com:80'')]" by code_simp
  from host_bytes_are_safe [OF this] show ?thesis by simp
qed

end
