(* ===== verification/Head_Parse.thy ===== *)
theory Head_Parse
  imports Buffer Chunk_Line Authority
begin

text \<open>
  Parsing of heads and trailers (\<^verbatim>\<open>crates/h11r/src/wire.rs\<close>): the functions around the third-party parser
  \<^verbatim>\<open>httparse\<close>.  The parser itself is not part of the crate.  It is the argument \<open>hp\<close> of every
  definition that calls it: its three entry points on the input and the number of header slots, its
  error \<^verbatim>\<open>TooManyHeaders\<close> and the rendering of its errors.  The predicate \<open>httparse_ok\<close> names what
  the connection relies on: a completed parse ends behind at least one byte and inside the input it
  was given, and fills no more slots than it has.
\<close>

section \<open>The parser's interface\<close>

text \<open>\<^verbatim>\<open>httparse::Request\<close> and \<^verbatim>\<open>httparse::Response\<close> after a parse; \<^verbatim>\<open>Status::Partial\<close> is \<open>None\<close>.\<close>

record hp_request =
  hp_req_version :: "u8 option"
  hp_req_method :: "u8 list option"
  hp_req_path :: "u8 list option"
  hp_req_headers :: "Header list"

record hp_response =
  hp_resp_version :: "u8 option"
  hp_resp_code :: "u16 option"
  hp_resp_headers :: "Header list"

record 'e httparse =
  hp_too_many_headers :: 'e
  hp_display :: "'e \<Rightarrow> string"
  hp_parse_request :: "u8 list \<Rightarrow> usize \<Rightarrow> 'e + (usize \<times> hp_request) option"
  hp_parse_response :: "u8 list \<Rightarrow> usize \<Rightarrow> 'e + (usize \<times> hp_response) option"
  hp_parse_headers :: "u8 list \<Rightarrow> usize \<Rightarrow> 'e + (usize \<times> Header list) option"

definition httparse_ok :: "'e httparse \<Rightarrow> bool" where
  "httparse_ok hp \<longleftrightarrow>
     (\<forall>d n e p. hp_parse_request hp d n = Inr (Some (e, p)) \<longrightarrow>
        0 < e \<and> e \<le> length d \<and> length (hp_req_headers p) \<le> n)
     \<and> (\<forall>d n e p. hp_parse_response hp d n = Inr (Some (e, p)) \<longrightarrow>
        0 < e \<and> e \<le> length d \<and> length (hp_resp_headers p) \<le> n)
     \<and> (\<forall>d n e hs. hp_parse_headers hp d n = Inr (Some (e, hs)) \<longrightarrow>
        0 < e \<and> e \<le> length d \<and> length hs \<le> n)"

section \<open>Obsolete line folding\<close>

text \<open>\<^verbatim>\<open>data.windows(2).any(|bytes| bytes[0] == b'\n' && matches!(bytes[1], b' ' | b'\t'))\<close>\<close>

fun has_fold :: "u8 list \<Rightarrow> bool" where
  "has_fold (x # y # data) \<longleftrightarrow> x = LF \<and> is_ows y \<or> has_fold (y # data)"
| "has_fold _ \<longleftrightarrow> False"

text \<open>The loop of \<^verbatim>\<open>normalize_obs_fold\<close>, on its index and its output.\<close>

function obs_fold_loop :: "u8 list \<Rightarrow> usize \<Rightarrow> u8 list \<Rightarrow> u8 list" where
  "obs_fold_loop data at normalized =
     (if at < length data then
        (if data ! at = LF
            \<and> (case slice_get data (at + 1) of None \<Rightarrow> False | Some byte \<Rightarrow> is_ows byte)
         then
           (let normalized = (if slice_last normalized = Some CR
                              then take (length normalized - 1) normalized else normalized);
                normalized = normalized @ [SP];
                at = skip_while is_ows data (at + 1)
            in obs_fold_loop data at normalized)
         else obs_fold_loop data (at + 1) (normalized @ [data ! at]))
      else normalized)"
  by pat_completeness auto
termination
proof (relation "measure (\<lambda>(data, at, normalized). length data - at)", goal_cases)
  case (2 data at)
  from 2(1) skip_while_ge [of "at + 1" is_ows data] show ?case by (simp add: 2(3-))
qed auto

declare obs_fold_loop.simps [simp del]

definition normalize_obs_fold :: "u8 list \<Rightarrow> u8 list" where
  "normalize_obs_fold data = (if \<not> has_fold data then data else obs_fold_loop data 0 [])"

section \<open>Heads\<close>

function nonempty_line_loop :: "u8 list \<Rightarrow> usize \<Rightarrow> u8 list" where
  "nonempty_line_loop data start =
     (case position (\<lambda>byte. byte = LF) (drop start data) of
        None \<Rightarrow> []
      | Some offset \<Rightarrow>
          (let end = start + offset;
               content_end = end - (if end > start \<and> data ! (end - 1) = CR then 1 else 0);
               line = take (content_end - start) (drop start data)
           in if line \<noteq> [] then line else nonempty_line_loop data (end + 1)))"
  by pat_completeness auto
termination
  by (relation "measure (\<lambda>(data, start). length data - start)") (auto simp: position_Some)

declare nonempty_line_loop.simps [simp del]

definition first_nonempty_line :: "u8 list \<Rightarrow> u8 list" where
  "first_nonempty_line data = nonempty_line_loop data 0"

definition version :: "u8 option \<Rightarrow> RemoteProtocolError + Version" where
  "version value =
     (if value = Some 0 then Inr Http10
      else if value = Some 1 then Inr Http11
      else Inl (remote_err ''unsupported HTTP version'' (Some 400)))"

definition copy_headers :: "Header list \<Rightarrow> bool \<Rightarrow> Header list" where
  "copy_headers headers unfold =
     map (\<lambda>(name, value). (name, if unfold then normalize_obs_fold value else value)) headers"

text \<open>The slots given to the parser: the inline array's front, or a vector where it is too short.\<close>

definition header_slots :: "usize \<Rightarrow> unit list" where
  "header_slots max_headers =
     (let inline = replicate DEFAULT_MAX_HEADER_COUNT ();
          overflow = (if max_headers > length inline then Some (replicate max_headers ()) else None)
      in case overflow of Some slots \<Rightarrow> slots | None \<Rightarrow> take max_headers inline)"

lemma length_header_slots [simp]: "length (header_slots n) = n"
  by (simp add: header_slots_def Let_def)

definition parse_request_head ::
  "'e httparse \<Rightarrow> u8 list \<Rightarrow> usize \<Rightarrow> usize \<Rightarrow> RemoteProtocolError + (usize \<times> Request) option" where
  "parse_request_head hp head max_bytes max_headers =
     (case hp_parse_request hp head (length (header_slots max_headers)) of
        Inl error \<Rightarrow>
          Inl (remote_err (''invalid request head: '' @ hp_display hp error)
                 (Some (if error = hp_too_many_headers hp then 431 else 400)))
      | Inr None \<Rightarrow> Inr None
      | Inr (Some (end, parsed)) \<Rightarrow>
          if end > max_bytes then Inl (remote_err ''HTTP head exceeds max_head_bytes'' (Some 431))
          else
            (case version (hp_req_version parsed) of
               Inl e \<Rightarrow> Inl e
             | Inr http_version \<Rightarrow>
                 (case ok_or (hp_req_method parsed) (remote_err ''missing request method'' (Some 400)) of
                    Inl e \<Rightarrow> Inl e
                  | Inr method \<Rightarrow>
                      (case map_err (\<lambda>_. remote_err ''invalid request method'' (Some 400))
                              (method_from_bytes method) of
                         Inl e \<Rightarrow> Inl e
                       | Inr method \<Rightarrow>
                           (case ok_or (hp_req_path parsed)
                                   (remote_err ''missing request target'' (Some 400)) of
                              Inl e \<Rightarrow> Inl e
                            | Inr target \<Rightarrow>
                                Inr (Some (end,
                                  \<lparr>req_method = method, req_target = target,
                                   req_headers = copy_headers (hp_req_headers parsed) False,
                                   req_http_version = http_version\<rparr>)))))))"

definition parse_response_head ::
  "'e httparse \<Rightarrow> u8 list \<Rightarrow> usize \<Rightarrow> usize \<Rightarrow> RemoteProtocolError + (usize \<times> Response) option" where
  "parse_response_head hp head max_bytes max_headers =
     (case hp_parse_response hp head (length (header_slots max_headers)) of
        Inl error \<Rightarrow> Inl (remote_err (''invalid response head: '' @ hp_display hp error) None)
      | Inr None \<Rightarrow> Inr None
      | Inr (Some (end, parsed)) \<Rightarrow>
          if end > max_bytes then Inl (remote_err ''HTTP head exceeds max_head_bytes'' None)
          else
            (case version (hp_resp_version parsed) of
               Inl e \<Rightarrow> Inl e
             | Inr http_version \<Rightarrow>
                 (case ok_or (hp_resp_code parsed) (remote_err ''missing response status'' None) of
                    Inl e \<Rightarrow> Inl e
                  | Inr code \<Rightarrow>
                      (case map_err (\<lambda>_. remote_err ''invalid response status'' None)
                              (status_from_u16 code) of
                         Inl e \<Rightarrow> Inl e
                       | Inr status \<Rightarrow>
                           (let line = first_nonempty_line (take end head) in
                            Inr (Some (end,
                              \<lparr>resp_status = status,
                               resp_reason = (if 13 \<le> length line then drop 13 line else []),
                               resp_headers = copy_headers (hp_resp_headers parsed) True,
                               resp_http_version = http_version\<rparr>)))))))"

definition parse_trailers ::
  "'e httparse \<Rightarrow> u8 list \<Rightarrow> usize \<Rightarrow> usize \<Rightarrow> bool
     \<Rightarrow> RemoteProtocolError + (usize \<times> Header list) option" where
  "parse_trailers hp data max_bytes max_headers normalize_folding =
     (let original_end = fst (poll progress_default data False) in
      if (case original_end of Some end \<Rightarrow> end | None \<Rightarrow> length data) > max_bytes
      then Inl (remote_err ''HTTP trailers exceed max_head_bytes'' (Some 400))
      else
        (let normalized = (if normalize_folding then normalize_obs_fold data else data) in
         case hp_parse_headers hp normalized (length (header_slots max_headers)) of
           Inl error \<Rightarrow> Inl (remote_err (''invalid trailer field: '' @ hp_display hp error) (Some 400))
         | Inr (Some (parsed_end, headers)) \<Rightarrow>
             Inr (Some (case original_end of Some end \<Rightarrow> end | None \<Rightarrow> parsed_end,
                        copy_headers headers False))
         | Inr None \<Rightarrow> Inr None))"

section \<open>Unfolding as a rewriting of folds\<close>

text \<open>The reference: each fold, a line end followed by whitespace, becomes one space.\<close>

fun fold_ahead :: "u8 list \<Rightarrow> bool" where
  "fold_ahead (x # y # _) \<longleftrightarrow> x = LF \<and> is_ows y"
| "fold_ahead _ \<longleftrightarrow> False"

function unfold_value :: "u8 list \<Rightarrow> u8 list" where
  "unfold_value [] = []"
| "unfold_value (b # data) =
     (if fold_ahead (b # data) then SP # unfold_value (dropWhile is_ows data)
      else if b = CR \<and> fold_ahead data then SP # unfold_value (dropWhile is_ows (tl data))
      else b # unfold_value data)"
  by pat_completeness auto
termination
proof (relation "measure length", goal_cases)
  case (3 b data)
  have "length (dropWhile is_ows (tl data)) \<le> length (tl data)" by (rule length_dropWhile_le)
  then show ?case by simp
qed (auto simp: less_Suc_eq_le length_dropWhile_le)

declare unfold_value.simps(2) [simp del]

lemma drop_skip_while: "drop (skip_while p d at) d = dropWhile p (drop at d)"
proof (induction p d at rule: skip_while.induct)
  case (1 p d at)
  show ?case
  proof (cases "at < length d")
    case True
    then have "drop at d = d ! at # drop (Suc at) d" by (simp add: Cons_nth_drop_Suc)
    with 1 True show ?thesis by (subst skip_while.simps) (simp add: slice_get_def)
  next
    case False
    then show ?thesis by (subst skip_while.simps) (simp add: slice_get_def)
  qed
qed

lemma fold_ahead_drop:
  "at < length d \<Longrightarrow>
     fold_ahead (drop at d) \<longleftrightarrow>
       d ! at = LF \<and> (case slice_get d (at + 1) of None \<Rightarrow> False | Some byte \<Rightarrow> is_ows byte)"
proof -
  assume "at < length d"
  then have "drop at d = d ! at # drop (Suc at) d" by (simp add: Cons_nth_drop_Suc)
  then show ?thesis
    by (cases "Suc at < length d") (auto simp: slice_get_def Cons_nth_drop_Suc [symmetric])
qed

lemma obs_fold_loop_simps:
  "length d \<le> at \<Longrightarrow> obs_fold_loop d at n = n"
  "at < length d \<Longrightarrow> fold_ahead (drop at d) \<Longrightarrow>
     obs_fold_loop d at n =
       obs_fold_loop d (skip_while is_ows d (at + 1)) ((if slice_last n = Some CR then butlast n else n) @ [SP])"
  "at < length d \<Longrightarrow> \<not> fold_ahead (drop at d) \<Longrightarrow>
     obs_fold_loop d at n = obs_fold_loop d (at + 1) (n @ [d ! at])"
proof -
  show "length d \<le> at \<Longrightarrow> obs_fold_loop d at n = n" by (subst obs_fold_loop.simps) simp
next
  assume at: "at < length d"
  note cond = fold_ahead_drop [OF at, symmetric]
  show "fold_ahead (drop at d) \<Longrightarrow>
     obs_fold_loop d at n =
       obs_fold_loop d (skip_while is_ows d (at + 1)) ((if slice_last n = Some CR then butlast n else n) @ [SP])"
    by (subst obs_fold_loop.simps) (simp only: at cond if_True Let_def butlast_conv_take)
  show "\<not> fold_ahead (drop at d) \<Longrightarrow> obs_fold_loop d at n = obs_fold_loop d (at + 1) (n @ [d ! at])"
    by (subst obs_fold_loop.simps) (simp only: at cond if_True if_False)
qed

lemma obs_fold_loop_unfold:
  "slice_last n \<noteq> Some CR \<or> \<not> fold_ahead (drop at d) \<Longrightarrow> obs_fold_loop d at n = n @ unfold_value (drop at d)"
proof (induction "length d - at" arbitrary: at n rule: less_induct)
  case less
  show ?case
  proof (cases "at < length d")
    case True
    then have at: "drop at d = d ! at # drop (Suc at) d" by (simp add: Cons_nth_drop_Suc)
    have skip: "length d - skip_while is_ows d k < length d - at" if "at < k" for k
      using that skip_while_ge [of k is_ows d] True by simp
    consider "fold_ahead (drop at d)" | "\<not> fold_ahead (drop at d)" "d ! at = CR" "fold_ahead (drop (Suc at) d)"
      | "\<not> fold_ahead (drop at d)" "d ! at \<noteq> CR \<or> \<not> fold_ahead (drop (Suc at) d)" by blast
    then show ?thesis
    proof cases
      case 1
      with less.hyps [OF skip, of "at + 1" "n @ [SP]"] less.prems True show ?thesis
        by (simp add: obs_fold_loop_simps(2)) (simp add: at unfold_value.simps drop_skip_while)
    next
      case 2
      then have lt: "Suc at < length d" by (metis drop_eq_Nil2 fold_ahead.simps(2) not_le)
      have tl: "tl (drop (Suc at) d) = drop (Suc (Suc at)) d" by (simp add: drop_Suc tl_drop)
      have "obs_fold_loop d at n = obs_fold_loop d (skip_while is_ows d (Suc (Suc at))) (n @ [SP])"
        using 2 lt True by (simp add: obs_fold_loop_simps(2,3))
      also have "\<dots> = n @ SP # unfold_value (dropWhile is_ows (tl (drop (Suc at) d)))"
        using less.hyps [OF skip, of "Suc (Suc at)" "n @ [SP]"] by (simp add: drop_skip_while tl)
      finally show ?thesis using 2 by (simp add: at unfold_value.simps)
    next
      case 3
      with less.hyps [of "Suc at" "n @ [d ! at]"] True
      have "obs_fold_loop d at n = n @ d ! at # unfold_value (drop (Suc at) d)"
        by (simp add: obs_fold_loop_simps(3))
      with 3 show ?thesis by (auto simp: at unfold_value.simps)
    qed
  next
    case False
    then show ?thesis by (simp add: obs_fold_loop_simps)
  qed
qed

lemma has_fold_Cons: "has_fold (x # d) \<longleftrightarrow> fold_ahead (x # d) \<or> has_fold d"
  by (cases d) auto

lemma unfold_value_no_fold: "\<not> has_fold d \<Longrightarrow> unfold_value d = d"
proof (induction d)
  case (Cons x d)
  then have "\<not> fold_ahead d" by (cases d) (auto simp: has_fold_Cons)
  with Cons show ?case by (auto simp: has_fold_Cons unfold_value.simps)
qed simp

lemma normalize_obs_fold_eq: "normalize_obs_fold d = unfold_value d"
  by (simp add: normalize_obs_fold_def unfold_value_no_fold obs_fold_loop_unfold)

lemma unfold_value_length: "length (unfold_value d) \<le> length d"
proof (induction d rule: unfold_value.induct)
  case (2 b d)
  have "length (dropWhile is_ows d) \<le> length d" "length (dropWhile is_ows (tl d)) \<le> length d"
    using length_dropWhile_le [of is_ows d] length_dropWhile_le [of is_ows "tl d"] by simp_all
  with 2 show ?case by (auto simp: unfold_value.simps)
qed simp

text \<open>A value that only breaks lines to fold them comes out without line breaks.\<close>

fun folded_value :: "u8 list \<Rightarrow> bool" where
  "folded_value [] \<longleftrightarrow> True"
| "folded_value (b # data) \<longleftrightarrow>
     (if b = LF then fold_ahead (b # data) else if b = CR then fold_ahead data else is_line_value_byte b)
     \<and> folded_value data"

lemma folded_value_dropWhile: "folded_value d \<Longrightarrow> folded_value (dropWhile P d)"
  by (induction d) auto

lemma folded_value_tl: "folded_value d \<Longrightarrow> folded_value (tl d)"
  by (cases d) auto

lemma unfold_value_lines: "folded_value d \<Longrightarrow> list_all is_line_value_byte (unfold_value d)"
proof (induction d rule: unfold_value.induct)
  case (2 b d)
  have sp: "is_line_value_byte SP" by (simp add: byte_class)
  from "2.prems" have "folded_value d" "folded_value (dropWhile is_ows d)" "folded_value (dropWhile is_ows (tl d))"
    by (simp_all add: folded_value_dropWhile folded_value_tl)
  with 2 sp show ?case by (auto simp: unfold_value.simps split: if_splits)
qed simp

lemma unfold_value_line: "list_all is_line_value_byte d \<Longrightarrow> unfold_value d = d"
proof -
  assume "list_all is_line_value_byte d"
  then have "\<not> has_fold d"
    by (induction d) (auto simp: has_fold_Cons dest: line_value_no_crlf elim: fold_ahead.elims)
  then show ?thesis by (rule unfold_value_no_fold)
qed

section \<open>What a completed parse promises\<close>

lemma httparse_okD:
  assumes "httparse_ok hp"
  shows "hp_parse_request hp d n = Inr (Some (e, p)) \<Longrightarrow> 0 < e \<and> e \<le> length d \<and> length (hp_req_headers p) \<le> n"
    and "hp_parse_response hp d n = Inr (Some (e, r)) \<Longrightarrow> 0 < e \<and> e \<le> length d \<and> length (hp_resp_headers r) \<le> n"
    and "hp_parse_headers hp d n = Inr (Some (e, hs)) \<Longrightarrow> 0 < e \<and> e \<le> length d \<and> length hs \<le> n"
  using assms unfolding httparse_ok_def by blast+

lemma length_copy_headers [simp]: "length (copy_headers hs u) = length hs"
  by (simp add: copy_headers_def)

lemma parse_request_head_Some:
  assumes "httparse_ok hp" and "parse_request_head hp d mb mh = Inr (Some (e, r))"
  shows "0 < e \<and> e \<le> length d \<and> e \<le> mb \<and> length (req_headers r) \<le> mh \<and> valid_method (req_method r)"
  using assms(2)
  by (auto simp: parse_request_head_def method_from_bytes_Inr dest!: httparse_okD(1) [OF assms(1)]
      split: sum.splits option.splits if_splits)

lemma parse_response_head_Some:
  assumes "httparse_ok hp" and "parse_response_head hp d mb mh = Inr (Some (e, r))"
  shows "0 < e \<and> e \<le> length d \<and> e \<le> mb \<and> length (resp_headers r) \<le> mh \<and> valid_status (resp_status r)"
  using assms(2)
  by (auto simp: parse_response_head_def Let_def status_from_u16_Inr dest!: httparse_okD(2) [OF assms(1)]
      split: sum.splits option.splits if_splits)

lemma parse_trailers_Some:
  assumes "httparse_ok hp" and "parse_trailers hp d mb mh uf = Inr (Some (e, hs))"
  shows "0 < e \<and> e \<le> length d \<and> e \<le> mb \<and> length hs \<le> mh"
proof -
  obtain o_end p where poll: "poll progress_default d False = (o_end, p)" by fastforce
  let ?n = "if uf then normalize_obs_fold d else d"
  from assms(2) poll obtain pe hs' where parsed: "hp_parse_headers hp ?n mh = Inr (Some (pe, hs'))"
    and e: "e = (case o_end of Some end \<Rightarrow> end | None \<Rightarrow> pe)" and hs: "hs = copy_headers hs' False"
    and le: "(case o_end of Some end \<Rightarrow> end | None \<Rightarrow> length d) \<le> mb"
    by (auto simp: parse_trailers_def Let_def split: sum.splits option.splits if_splits)
  have "length ?n \<le> length d" using unfold_value_length by (simp add: normalize_obs_fold_eq)
  with httparse_okD(3) [OF assms(1) parsed] have "0 < pe" "pe \<le> length d" "length hs \<le> mh"
    by (auto simp: hs)
  with poll_Some_bounds [OF progress_wf_default, of d False] poll e le show ?thesis
    by (cases o_end) auto
qed

section \<open>Properties of head parsing\<close>

text \<open>Unfolding a value replaces each fold, a line end with the whitespace that follows it, by one
  space, never lengthens it, and turns a value whose only line ends are folds into one without CR or
  LF; a value without line ends is returned unchanged.\<close>

theorem obs_fold_normalized:
  "normalize_obs_fold d = unfold_value d \<and> length (normalize_obs_fold d) \<le> length d
   \<and> (folded_value d \<longrightarrow> list_all is_line_value_byte (normalize_obs_fold d))
   \<and> (list_all is_line_value_byte d \<longrightarrow> normalize_obs_fold d = d)"
  by (simp add: normalize_obs_fold_eq unfold_value_length unfold_value_lines unfold_value_line)

theorem obs_fold_normalized_witness: "list_all is_line_value_byte (normalize_obs_fold [0x61, CR, LF, SP, 0x62])"
proof -
  have "folded_value [0x61, CR, LF, SP, 0x62]" by code_simp
  with obs_fold_normalized [of "[0x61, CR, LF, SP, 0x62]"] show ?thesis by blast
qed

end
