(* ===== verification/Serialize.thy ===== *)
theory Serialize
  imports Framing Authority Buffer
begin

text \<open>
  Serialization of heads (\<^verbatim>\<open>crates/h11r/src/wire.rs\<close>).  The lemmas show that the reserved capacity is the
  exact length of the output, that a validated head is written as exactly the lines it should have
  (no field name, value, target or reason can add a line), that a reader searching for the end of the
  section finds it at the last byte, and that the three status digits read back as the status.
\<close>

definition write_headers :: "u8 list \<Rightarrow> Header list \<Rightarrow> u8 list" where
  "write_headers out headers =
     foldl (\<lambda>out (name, value). out @ name @ bytes '': '' @ value @ CRLF) out headers"

definition head_len :: "usize \<Rightarrow> Header list \<Rightarrow> usize" where
  "head_len start_line headers =
     start_line + sum_list (map (\<lambda>(name, value). length name + length value + 4) headers) + 2"

definition serialize_request :: "Request \<Rightarrow> u8 list" where
  "serialize_request request =
     (let out = [];
          out = out @ as_bytes (req_method request);
          out = out @ [SP];
          out = out @ req_target request;
          out = out @ bytes '' HTTP/'';
          out = out @ version_wire (req_http_version request);
          out = out @ CRLF;
          out = write_headers out (req_headers request)
      in out @ CRLF)"

definition serialize_response :: "Version \<Rightarrow> StatusCode \<Rightarrow> u8 list \<Rightarrow> Header list \<Rightarrow> u8 list" where
  "serialize_response version status reason headers =
     (let out = [];
          out = out @ bytes ''HTTP/'';
          out = out @ version_wire version;
          out = out @ [SP];
          status = as_u16 status;
          out = out @ [0x30 + ucast (status div 100), 0x30 + ucast (status div 10 mod 10),
                       0x30 + ucast (status mod 10)];
          out = out @ [SP];
          out = out @ reason;
          out = out @ CRLF;
          out = write_headers out headers
      in out @ CRLF)"

section \<open>The lines of a head\<close>

definition field_line :: "Header \<Rightarrow> u8 list" where
  "field_line h = (case h of (name, value) \<Rightarrow> name @ bytes '': '' @ value)"

definition request_line :: "Request \<Rightarrow> u8 list" where
  "request_line r = as_bytes (req_method r) @ [SP] @ req_target r @ bytes '' HTTP/'' @ version_wire (req_http_version r)"

definition status_digits :: "StatusCode \<Rightarrow> u8 list" where
  "status_digits s = [0x30 + ucast (as_u16 s div 100), 0x30 + ucast (as_u16 s div 10 mod 10), 0x30 + ucast (as_u16 s mod 10)]"

definition status_line :: "Version \<Rightarrow> StatusCode \<Rightarrow> u8 list \<Rightarrow> u8 list" where
  "status_line v s reason = bytes ''HTTP/'' @ version_wire v @ [SP] @ status_digits s @ [SP] @ reason"

text \<open>Lines, each with its CRLF, and the head as a list of lines.\<close>

definition unlines :: "u8 list list \<Rightarrow> u8 list" where
  "unlines ls = concat (map (\<lambda>l. l @ CRLF) ls)"

lemma unlines_simps [simp]:
  "unlines [] = []" "unlines (l # ls) = l @ CRLF @ unlines ls" "unlines (ks @ ls) = unlines ks @ unlines ls"
  by (simp_all add: unlines_def)

lemma write_headers_unlines: "write_headers out hs = out @ unlines (map field_line hs)"
  unfolding write_headers_def
  by (induction hs arbitrary: out) (auto simp: field_line_def)

lemma serialize_request_unlines:
  "serialize_request r = unlines (request_line r # map field_line (req_headers r) @ [[]])"
  by (simp add: serialize_request_def Let_def write_headers_unlines request_line_def)

lemma serialize_response_unlines:
  "serialize_response v s reason hs = unlines (status_line v s reason # map field_line hs @ [[]])"
  by (simp add: serialize_response_def Let_def write_headers_unlines status_line_def status_digits_def)

lemma length_unlines: "length (unlines ls) = sum_list (map (\<lambda>l. length l + 2) ls)"
  by (induction ls) auto

lemma field_line_length: "length (field_line h) + 2 = (case h of (name, value) \<Rightarrow> length name + length value + 4)"
  by (cases h) (simp add: field_line_def bytes_def)

lemma sum_field_lines:
  "sum_list (map (\<lambda>l. length l + 2) (map field_line hs)) =
     sum_list (map (\<lambda>(name, value). length name + length value + 4) hs)"
  using field_line_length by (induction hs) (simp_all add: comp_def split: prod.splits)

lemma serialize_request_length:
  "length (serialize_request r) =
     head_len (length (as_bytes (req_method r)) + length (req_target r) + 12) (req_headers r)"
  unfolding serialize_request_unlines length_unlines head_len_def sum_field_lines [symmetric]
  by (simp add: request_line_def bytes_def)

lemma serialize_response_length:
  "length (serialize_response v s reason hs) = head_len (15 + length reason) hs"
  unfolding serialize_response_unlines length_unlines head_len_def sum_field_lines [symmetric]
  by (simp add: status_line_def status_digits_def bytes_def)

section \<open>No byte of a validated head breaks a line\<close>

definition line_ok :: "u8 list \<Rightarrow> bool" where
  "line_ok l \<longleftrightarrow> list_all is_line_value_byte l"

lemma line_ok_append [simp]: "line_ok (xs @ ys) \<longleftrightarrow> line_ok xs \<and> line_ok ys"
  by (simp add: line_ok_def)

lemma line_ok_SP [simp]: "line_ok (SP # xs) \<longleftrightarrow> line_ok xs"
  by (simp add: line_ok_def byte_class)

lemma line_ok_literals [simp]: "line_ok []" "line_ok (bytes '': '')" "line_ok (bytes '' HTTP/'')"
  "line_ok (bytes ''HTTP/'')" "line_ok (version_wire v)"
  by (cases v; simp add: line_ok_def byte_eval)+

lemma line_ok_no_break: "line_ok l \<Longrightarrow> CR \<notin> set l \<and> LF \<notin> set l"
  by (auto simp: line_ok_def list_all_iff dest: line_value_no_crlf)

lemma line_ok_name: "valid_name n \<Longrightarrow> line_ok n"
  by (auto simp: valid_name_def line_ok_def list_all_iff token_line_value)

lemma line_ok_value: "valid_value v \<Longrightarrow> line_ok v"
  by (auto simp: line_ok_def list_all_iff valid_value_line)

lemma line_ok_target: "valid_request_target t \<Longrightarrow> line_ok t"
  by (auto simp: valid_request_target_def line_ok_def list_all_iff graphic_line_value)

lemma line_ok_method: "valid_method m \<Longrightarrow> line_ok (as_bytes m)"
  by (auto simp: valid_method_def line_ok_def list_all_iff token_line_value)

lemma line_ok_fields:
  "\<forall>(name, value) \<in> set hs. valid_name name \<and> valid_value value \<Longrightarrow> l \<in> set (map field_line hs) \<Longrightarrow> line_ok l \<and> l \<noteq> []"
  by (auto simp: field_line_def line_ok_name line_ok_value)

lemma unat_ucast_u8: "unat (w :: u16) < 256 \<Longrightarrow> unat (ucast w :: u8) = unat w"
  by (simp add: unsigned_ucast_eq take_bit_nat_eq_self)

lemma status_digit:
  assumes "unat (w :: u16) < 10"
  shows "unat (0x30 + ucast w :: u8) = 0x30 + unat w"
proof -
  from assms have "unat (ucast w :: u8) = unat w" by (intro unat_ucast_u8) simp
  with assms show ?thesis by (simp add: unat_word_ariths)
qed

lemma status_digits_unat:
  assumes "valid_status s"
  shows "map unat (status_digits s) =
    [0x30 + unat (as_u16 s) div 100, 0x30 + unat (as_u16 s) div 10 mod 10, 0x30 + unat (as_u16 s) mod 10]"
proof -
  from assms have "unat (as_u16 s) \<le> 599" by (simp add: valid_status_def word_le_nat_alt)
  then show ?thesis by (simp add: status_digits_def status_digit unat_div unat_mod)
qed

lemma digit_unat: "unat b = 0x30 + d \<Longrightarrow> d < 10 \<Longrightarrow> to_digit 10 b = Some d \<and> is_ascii_digit b"
  by (simp add: to_digit_def ascii_unat)

lemma digit_line_value: "is_ascii_digit b \<Longrightarrow> is_line_value_byte b"
  by (auto simp: byte_class word_le_nat_alt)

lemma three_digits: "(n div 100 * 10 + n div 10 mod 10) * 10 + n mod 10 = (n :: nat)"
proof -
  have "n div 100 = n div 10 div 10" by (simp add: div_mult2_eq [symmetric])
  then have "n div 100 * 10 + n div 10 mod 10 = n div 10" by (metis div_mult_mod_eq)
  then show ?thesis by (metis div_mult_mod_eq)
qed

lemma status_digits_read_back:
  assumes "valid_status s"
  shows "parse_number (status_digits s) 10 = Some (unat (as_u16 s))" and "line_ok (status_digits s)"
proof -
  define n where "n = unat (as_u16 s)"
  from assms have n: "n \<le> 599" by (simp add: valid_status_def word_le_nat_alt n_def)
  obtain a b c where s: "status_digits s = [a, b, c]" by (simp add: status_digits_def)
  from status_digits_unat [OF assms] have u: "unat a = 0x30 + n div 100" "unat b = 0x30 + n div 10 mod 10" "unat c = 0x30 + n mod 10"
    by (simp_all add: s n_def)
  have "n div 100 < 10" using n by simp
  note d = digit_unat [OF u(1) this] digit_unat [OF u(2)] digit_unat [OF u(3)]
  have "n < usize_limit" using n by (simp add: usize_limit_def)
  with d three_digits [of n] show "parse_number (status_digits s) 10 = Some (unat (as_u16 s))"
    by (simp add: s parse_number_Some all_digits_def flip: n_def)
  from d show "line_ok (status_digits s)" by (simp add: s line_ok_def digit_line_value)
qed

text \<open>Splitting the written bytes at line feeds gives back the lines.\<close>

lemma split_unlines:
  assumes "\<forall>l \<in> set ls. line_ok l"
  shows "split_on (\<lambda>b. b = LF) (unlines ls) = map (\<lambda>l. l @ [CR]) ls @ [[]]"
  using assms
proof (induction ls)
  case (Cons l ls)
  then have "\<forall>b \<in> set (l @ [CR]). b \<noteq> LF"
    by (auto simp: line_ok_def list_all_iff dest: line_value_no_crlf)
  then have "split_on (\<lambda>b. b = LF) ((l @ [CR]) @ LF # unlines ls) = (l @ [CR]) # split_on (\<lambda>b. b = LF) (unlines ls)"
    by (rule split_on_append_sep) simp
  with Cons show ?case by simp
qed simp

lemma request_lines_ok:
  assumes "valid_method (req_method r)" and "validate_request r = Inr ()"
  shows "\<forall>l \<in> set (request_line r # map field_line (req_headers r)). line_ok l \<and> l \<noteq> []"
  using assms line_ok_fields [of "req_headers r"]
  by (auto simp: validate_request_Inr request_line_def line_ok_method line_ok_target)

lemma response_lines_ok:
  assumes "valid_status s" and "validate_headers hs = Inr ()" and "validate_reason reason = Inr ()"
  shows "\<forall>l \<in> set (status_line v s reason # map field_line hs). line_ok l \<and> l \<noteq> []"
  using assms line_ok_fields [of hs] status_digits_read_back(2) [OF assms(1)]
  by (auto simp: validate_headers_Inr validate_reason_Inr status_line_def line_ok_def [of reason])

section \<open>The end of a serialized head\<close>

lemma poll_skip:
  assumes "\<forall>b \<in> set (take k (drop (sp_at p) d)). b \<noteq> LF" and "sp_at p + k \<le> length d"
  shows "poll p d skip = poll (p\<lparr>sp_at := sp_at p + k\<rparr>) d skip"
  using assms
proof (induction k arbitrary: p)
  case (Suc k)
  then have at: "sp_at p < length d" by simp
  then have "drop (sp_at p) d = d ! sp_at p # drop (Suc (sp_at p)) d" by (simp add: Cons_nth_drop_Suc)
  with Suc.prems have "d ! sp_at p \<noteq> LF" and rest: "\<forall>b \<in> set (take k (drop (Suc (sp_at p)) d)). b \<noteq> LF" by auto
  then have "poll_body p d skip = (False, p\<lparr>sp_at := Suc (sp_at p)\<rparr>)" by (simp add: poll_body_def Let_def)
  from poll_step [OF at this] Suc.IH [of "p\<lparr>sp_at := Suc (sp_at p)\<rparr>"] rest Suc.prems(2) show ?case by simp
qed simp

lemma poll_line:
  assumes "line_ok l" and "l \<noteq> []" and "sp_at p = length pre" and "sp_line_start p = length pre"
  shows "poll p (pre @ l @ CRLF @ rest) skip =
    poll \<lparr>sp_at = length (pre @ l @ CRLF), sp_line_start = length (pre @ l @ CRLF), sp_started = True\<rparr>
      (pre @ l @ CRLF @ rest) skip"
proof -
  let ?d = "pre @ l @ CRLF @ rest" and ?q = "p\<lparr>sp_at := length pre + (length l + 1)\<rparr>"
  have lf: "\<forall>b \<in> set l. b \<noteq> LF \<and> b \<noteq> CR" using assms(1) by (auto simp: line_ok_def list_all_iff dest: line_value_no_crlf)
  then have "poll p ?d skip = poll (p\<lparr>sp_at := sp_at p + (length l + 1)\<rparr>) ?d skip"
    by (intro poll_skip) (auto simp: assms(3))
  also have "\<dots> = poll ?q ?d skip" by (simp add: assms(3))
  also have "\<dots> = poll \<lparr>sp_at = length (pre @ l @ CRLF), sp_line_start = length (pre @ l @ CRLF), sp_started = True\<rparr> ?d skip"
  proof -
    have "l @ [CR] \<noteq> [] \<and> l @ [CR] \<noteq> [CR]" using assms(2) by simp
    then have "poll_body ?q ?d skip =
        (False, \<lparr>sp_at = length (pre @ l @ CRLF), sp_line_start = length (pre @ l @ CRLF), sp_started = True\<rparr>)"
      by (simp add: poll_body_def Let_def nth_append assms(4))
    from poll_step [OF _ this] show ?thesis by simp
  qed
  finally show ?thesis .
qed

lemma poll_lines:
  assumes "\<forall>l \<in> set ls. line_ok l \<and> l \<noteq> []"
    and "sp_at p = length pre" and "sp_line_start p = length pre"
    and "sp_started p \<or> \<not> skip \<or> ls \<noteq> []"
  shows "fst (poll p (pre @ unlines (ls @ [[]]) @ rest) skip) = Some (length (pre @ unlines (ls @ [[]])))"
  using assms
proof (induction ls arbitrary: p pre)
  case Nil
  let ?d = "pre @ CRLF @ rest" and ?q = "p\<lparr>sp_at := length pre + 1\<rparr>"
  have "poll p ?d skip = poll ?q ?d skip"
    using poll_skip [of 1 p ?d skip] Nil.prems by simp
  moreover have "poll_body ?q ?d skip =
      (True, p\<lparr>sp_at := length pre + 2, sp_line_start := length pre + 2\<rparr>)"
    using Nil.prems by (auto simp: poll_body_def Let_def nth_append)
  from poll_step [OF _ this] have "fst (poll ?q ?d skip) = Some (length pre + 2)" by simp
  ultimately show ?case by simp
next
  case (Cons l ls)
  let ?q = "\<lparr>sp_at = length (pre @ l @ CRLF), sp_line_start = length (pre @ l @ CRLF), sp_started = True\<rparr>"
  have "poll p (pre @ l @ CRLF @ unlines (ls @ [[]]) @ rest) skip
      = poll ?q (pre @ l @ CRLF @ unlines (ls @ [[]]) @ rest) skip"
    by (rule poll_line) (use Cons.prems in auto)
  moreover have "fst (poll ?q ((pre @ l @ CRLF) @ unlines (ls @ [[]]) @ rest) skip)
      = Some (length ((pre @ l @ CRLF) @ unlines (ls @ [[]])))"
    by (rule Cons.IH) (use Cons.prems in auto)
  ultimately show ?case by simp
qed

lemma poll_unlines:
  assumes "\<forall>l \<in> set (x # ls). line_ok l \<and> l \<noteq> []"
  shows "fst (poll progress_default (unlines (x # ls @ [[]]) @ rest) skip) = Some (length (unlines (x # ls @ [[]])))"
  using poll_lines [OF assms, of progress_default "[]" skip rest] by (simp add: progress_default_def)

section \<open>Properties of serialized heads\<close>

text \<open>C15. A request that passed validation is written as exactly its request line, one line per field and
  the empty line: splitting the bytes at line feeds gives these lines back, each with its CR and with
  no other CR or LF, and a peer's search for the end of the head stops exactly at the last byte
  written, whatever follows.  No field, target or method can inject a line.\<close>

theorem request_head_has_its_lines:
  assumes "valid_method (req_method r)" and "validate_request r = Inr ()"
  shows "split_on (\<lambda>b. b = LF) (serialize_request r) =
      map (\<lambda>l. l @ [CR]) (request_line r # map field_line (req_headers r) @ [[]]) @ [[]]
    \<and> (\<forall>l \<in> set (request_line r # map field_line (req_headers r)). CR \<notin> set l \<and> LF \<notin> set l \<and> l \<noteq> [])
    \<and> fst (poll progress_default (serialize_request r @ rest) True) = Some (length (serialize_request r))"
proof -
  note ok = request_lines_ok [OF assms]
  then have "\<forall>l \<in> set (request_line r # map field_line (req_headers r) @ [[]]). line_ok l" by auto
  note split = split_unlines [OF this]
  from ok show ?thesis
    using split poll_unlines [OF ok, of rest True]
    by (auto simp: serialize_request_unlines line_ok_no_break)
qed

definition sample_request :: Request where
  "sample_request = \<lparr>req_method = Method (bytes ''GET''), req_target = bytes ''/'',
     req_headers = [(bytes ''Host'', bytes ''a'')], req_http_version = Http11\<rparr>"

lemma sample_request_valid: "valid_method (req_method sample_request)" "validate_request sample_request = Inr ()"
  by code_simp+

theorem request_head_has_its_lines_witness:
  "fst (poll progress_default (serialize_request sample_request @ [0x41]) True)
     = Some (length (serialize_request sample_request))"
  using request_head_has_its_lines [OF sample_request_valid, of "[0x41]"] by blast

text \<open>A validated response head is written as exactly its status line, one line per field and the empty
  line, with no other CR or LF, and its end is found at its last byte; the three status digits read
  back as the status code.\<close>

theorem response_head_has_its_lines:
  assumes "valid_status s" and "validate_headers hs = Inr ()" and "validate_reason reason = Inr ()"
  shows "split_on (\<lambda>b. b = LF) (serialize_response v s reason hs) =
      map (\<lambda>l. l @ [CR]) (status_line v s reason # map field_line hs @ [[]]) @ [[]]
    \<and> (\<forall>l \<in> set (status_line v s reason # map field_line hs). CR \<notin> set l \<and> LF \<notin> set l \<and> l \<noteq> [])
    \<and> fst (poll progress_default (serialize_response v s reason hs @ rest) True) =
        Some (length (serialize_response v s reason hs))
    \<and> parse_number (take 3 (drop 9 (serialize_response v s reason hs))) 10 = Some (unat (as_u16 s))"
proof -
  note ok = response_lines_ok [OF assms, of v]
  then have "\<forall>l \<in> set (status_line v s reason # map field_line hs @ [[]]). line_ok l" by auto
  note split = split_unlines [OF this]
  have "take 3 (drop 9 (serialize_response v s reason hs)) = status_digits s"
    by (cases v) (simp_all add: serialize_response_def Let_def write_headers_unlines status_digits_def bytes_def)
  with ok show ?thesis
    using split poll_unlines [OF ok, of rest True] status_digits_read_back [OF assms(1)]
    by (auto simp: serialize_response_unlines line_ok_no_break)
qed

theorem response_head_has_its_lines_witness:
  "parse_number (take 3 (drop 9 (serialize_response Http11 (StatusCode 404) [] []))) 10 = Some 404"
  using response_head_has_its_lines [of "StatusCode 404" "[]" "[]" Http11 "[]"]
  by (simp add: valid_status_def validate_headers_def validate_reason_def)

text \<open>The capacity reserved for a head is its exact length: serialization neither grows the vector nor
  leaves room unused.\<close>

theorem reserved_capacity_is_exact:
  "length (serialize_request r) =
     head_len (length (as_bytes (req_method r)) + length (req_target r) + 12) (req_headers r)
   \<and> length (serialize_response v s reason hs) = head_len (15 + length reason) hs"
  by (simp add: serialize_request_length serialize_response_length)

end
