(* ===== verification/Connection.thy ===== *)
theory Connection
  imports Lifecycle Head_Parse Serialize
begin

text \<open>
  The connection (\<^verbatim>\<open>crates/h11r/src/connection.rs\<close>): one record for the whole state, one definition per
  method.  A method on \<^verbatim>\<open>&mut self\<close> returns its result paired with the connection it leaves behind,
  also when it fails.  The argument \<open>hp\<close> of the receiving methods is the third-party head parser.
\<close>

section \<open>State\<close>

datatype RequestKind = RK_Other | RK_Head | RK_Connect

definition from_method :: "u8 list \<Rightarrow> RequestKind" where
  "from_method method =
     (if method = bytes ''HEAD'' then RK_Head
      else if method = bytes ''CONNECT'' then RK_Connect
      else RK_Other)"

record Connection =
  conn_role :: Role
  conn_state :: ConnectionState
  limits :: Limits
  input :: Buffer
  progress :: "SectionProgress option"
  conn_reader :: Reader
  writer :: "Framing option"
  eof :: bool
  peer_version :: "Version option"
  request_kind :: "RequestKind option"
  upgrade_proposals :: "u8 list list"
  waiting_for_continue :: bool
  continue_before_upgrade :: bool

type_synonym 'a remote_result = "(RemoteProtocolError + 'a) \<times> Connection"
type_synonym 'a local_result = "(LocalProtocolError + 'a) \<times> Connection"

definition connection_new :: "Role \<Rightarrow> Limits \<Rightarrow> Connection" where
  "connection_new role lims =
     \<lparr>conn_role = role, conn_state = state_new, limits = lims, input = buffer_default,
      progress = None, conn_reader = R_Head, writer = None, eof = False, peer_version = None,
      request_kind = None, upgrade_proposals = [], waiting_for_continue = False,
      continue_before_upgrade = False\<rparr>"

definition local_state :: "Connection \<Rightarrow> State" where
  "local_state self = state (conn_state self) (conn_role self)"

definition peer_state :: "Connection \<Rightarrow> State" where
  "peer_state self = state (conn_state self) (peer (conn_role self))"

definition peer_http_version :: "Connection \<Rightarrow> Version option" where
  "peer_http_version self = peer_version self"

definition client_is_waiting_for_100_continue :: "Connection \<Rightarrow> bool" where
  "client_is_waiting_for_100_continue self = waiting_for_continue self"

abbreviation unread :: "Connection \<Rightarrow> u8 list" where
  "unread self \<equiv> as_slice (input self)"

definition trailing_data :: "Connection \<Rightarrow> u8 list \<times> bool" where
  "trailing_data self = (unread self, eof self)"

definition receive_data :: "u8 list \<Rightarrow> Connection \<Rightarrow> unit local_result" where
  "receive_data data self =
     (if eof self \<and> data \<noteq> [] then (Inl (local_err ''receive_data called after EOF''), self)
      else if data = [] then (Inr (), self\<lparr>eof := True\<rparr>)
      else (Inr (), self\<lparr>input := buffer_extend (input self) data\<rparr>))"

section \<open>Shared steps\<close>

definition advance_peer :: "StateEvent \<Rightarrow> Connection \<Rightarrow> unit remote_result" where
  "advance_peer event self =
     (case process_event (conn_state self) (peer (conn_role self)) event of
        (r, st) \<Rightarrow>
          (map_err (\<lambda>_. remote_err ''event is invalid in the peer state'' (Some 400)) r,
           self\<lparr>conn_state := st\<rparr>))"

definition advance_local :: "StateEvent \<Rightarrow> Connection \<Rightarrow> unit local_result" where
  "advance_local event self =
     (case process_event (conn_state self) (conn_role self) event of
        (r, st) \<Rightarrow>
          (map_err (\<lambda>_. local_err ''event is invalid in the local state'') r,
           self\<lparr>conn_state := st\<rparr>))"

definition request_is :: "RequestKind \<Rightarrow> Connection \<Rightarrow> bool" where
  "request_is kind self \<longleftrightarrow> request_kind self = Some kind"

definition section_ready :: "bool \<Rightarrow> Connection \<Rightarrow> bool \<times> Connection" where
  "section_ready skip_leading_empty self =
     (if eof self then (True, self)
      else case progress self of
        None \<Rightarrow> (True, self)
      | Some p \<Rightarrow>
          (case poll p (unread self) skip_leading_empty of
             (found, p) \<Rightarrow> (found \<noteq> None, self\<lparr>progress := Some p\<rparr>)))"

definition need_data_or_eof :: "string \<Rightarrow> Connection \<Rightarrow> NextEvent remote_result" where
  "need_data_or_eof message self =
     (if eof self then (Inl (remote_err message (Some 400)), self) else (Inr NE_NeedData, self))"

definition wait_for_section :: "bool \<Rightarrow> Connection \<Rightarrow> NextEvent remote_result" where
  "wait_for_section skip_leading_empty self =
     (let (limit_message, eof_message, status) =
            (if skip_leading_empty then
               (''HTTP head exceeds max_head_bytes'', ''unexpected EOF in HTTP head'',
                if conn_role self = Server then Some 431 else None)
             else
               (''HTTP trailers exceed max_head_bytes'', ''unexpected EOF in trailers'', Some 400))
      in if length (unread self) > max_head_bytes (limits self)
         then (Inl (remote_err limit_message status), self)
         else
           (let p = (case progress self of None \<Rightarrow> progress_default | Some p \<Rightarrow> p);
                p = snd (poll p (unread self) skip_leading_empty);
                self = self\<lparr>progress := Some p\<rparr>
            in need_data_or_eof eof_message self))"

definition peer_data :: "u8 list \<Rightarrow> bool \<Rightarrow> bool \<Rightarrow> Connection \<Rightarrow> NextEvent remote_result" where
  "peer_data data start end self =
     and_then (advance_peer SE_Data self) (\<lambda>_ self.
       (Inr (NE_Event (Ev_Data \<lparr>data_bytes = data, chunk_start = start, chunk_end = end\<rparr>)),
        self\<lparr>waiting_for_continue := False\<rparr>))"

definition finish_peer :: "Header list \<Rightarrow> Connection \<Rightarrow> NextEvent remote_result" where
  "finish_peer trailers self =
     and_then (advance_peer SE_EndOfMessage self) (\<lambda>_ self.
       (Inr (NE_Event (Ev_EndOfMessage \<lparr>eom_trailers = trailers\<rparr>)), self\<lparr>conn_reader := R_Head\<rparr>))"

definition peer_closed :: "Connection \<Rightarrow> NextEvent remote_result" where
  "peer_closed self =
     and_then (advance_peer SE_ConnectionClosed self) (\<lambda>_ self. (Inr (NE_Event Ev_ConnectionClosed), self))"

definition apply_persistence :: "Version \<Rightarrow> Header list \<Rightarrow> Connection \<Rightarrow> Connection" where
  "apply_persistence http_version headers self =
     (let persistent = (http_version = Http11 \<and> \<not> has_token headers (bytes ''connection'') (bytes ''close'')) in
      if \<not> persistent then self\<lparr>conn_state := disable_keep_alive (conn_state self)\<rparr> else self)"

definition proposed_upgrades :: "Version \<Rightarrow> Header list \<Rightarrow> u8 list list" where
  "proposed_upgrades http_version headers =
     (if http_version = Http11 \<and> has_token headers (bytes ''connection'') (bytes ''upgrade'')
      then (case upgrade_protocols headers of None \<Rightarrow> [] | Some protocols \<Rightarrow> protocols)
      else [])"

definition valid_upgrade_response :: "Version \<Rightarrow> Header list \<Rightarrow> Connection \<Rightarrow> bool" where
  "valid_upgrade_response http_version headers self \<longleftrightarrow>
     http_version = Http11
     \<and> has_token headers (bytes ''connection'') (bytes ''upgrade'')
     \<and> (case upgrade_protocols headers of
          None \<Rightarrow> False
        | Some selecteds \<Rightarrow>
            selecteds \<noteq> []
            \<and> list_all (\<lambda>selected. list_ex (\<lambda>offered. protocol_matches offered selected)
                  (upgrade_proposals self)) selecteds)"

section \<open>Receiving heads\<close>

definition accept_request :: "Request \<Rightarrow> Connection \<Rightarrow> NextEvent remote_result" where
  "accept_request request self =
     (let method = req_method request;
          target = req_target request;
          headers = req_headers request;
          version = req_http_version request
      in if \<not> valid_request_target target
         then (Inl (remote_err ''invalid request target'' (Some 400)), self)
         else if \<not> valid_host version headers
         then (Inl (remote_err ''request has a missing, duplicate, or invalid Host field'' (Some 400)), self)
         else case framing headers version of
           Inl e \<Rightarrow> (Inl e, self)
         | Inr frame \<Rightarrow>
             (let upgrades = proposed_upgrades version headers;
                  props = from_flags (as_bytes method = bytes ''CONNECT'') (upgrades \<noteq> [])
              in and_then (advance_peer (SE_Request props) self) (\<lambda>_ self.
                let self = apply_persistence version headers self;
                    self = self\<lparr>request_kind := Some (from_method (as_bytes method))\<rparr>;
                    self = self\<lparr>waiting_for_continue := expects_continue version headers frame\<rparr>;
                    self = self\<lparr>continue_before_upgrade := waiting_for_continue self \<and> upgrades \<noteq> []\<rparr>;
                    self = self\<lparr>upgrade_proposals := upgrades\<rparr>;
                    self = self\<lparr>peer_version := Some version\<rparr>;
                    self = self\<lparr>conn_reader := reader frame\<rparr>
                in (Inr (NE_Event (Ev_Request
                      \<lparr>req_method = method, req_target = target, req_headers = headers,
                       req_http_version = version\<rparr>)), self))))"

definition accept_response :: "Response \<Rightarrow> Connection \<Rightarrow> NextEvent remote_result" where
  "accept_response response self =
     (let status = resp_status response;
          reason = resp_reason response;
          headers = resp_headers response;
          version = resp_http_version response;
          parts = \<lparr>resp_status = status, resp_reason = reason, resp_headers = headers,
                   resp_http_version = version\<rparr>
      in if is_informational status then
           (if as_u16 status = 101
               \<and> (continue_before_upgrade self \<or> \<not> valid_upgrade_response version headers self)
            then (Inl (remote_err ''invalid 101 Upgrade response'' None), self)
            else
              (let event = (if as_u16 status = 101 then SE_ProtocolSwitch Upgrade
                            else SE_InformationalResponse)
               in and_then (advance_peer event self) (\<lambda>_ self.
                 let self = (if as_u16 status = 100
                             then self\<lparr>waiting_for_continue := False, continue_before_upgrade := False\<rparr>
                             else self);
                     self = self\<lparr>peer_version := Some version\<rparr>
                 in (Inr (NE_Event (Ev_InformationalResponse parts)), self))))
         else
           (let connect = (request_is RK_Connect self \<and> is_success status)
            in and_then (advance_peer (if connect then SE_ProtocolSwitch Connect else SE_Response) self)
                 (\<lambda>_ self.
                let self = apply_persistence version headers self;
                    self = self\<lparr>peer_version := Some version\<rparr>;
                    self = self\<lparr>waiting_for_continue := False\<rparr>;
                    self = self\<lparr>continue_before_upgrade := False\<rparr>;
                    self = self\<lparr>upgrade_proposals := []\<rparr>;
                    no_body = (as_u16 status = 204 \<or> as_u16 status = 304
                               \<or> request_is RK_Head self \<or> connect)
                in case (if no_body then Inr (F_Fixed 0) else response_framing headers version) of
                     Inl e \<Rightarrow> (Inl e, self)
                   | Inr frame \<Rightarrow>
                       (let self = (if frame = F_CloseDelimited
                                    then self\<lparr>conn_state := disable_keep_alive (conn_state self)\<rparr>
                                    else self);
                            self = self\<lparr>conn_reader := reader frame\<rparr>
                        in (Inr (NE_Event (Ev_Response parts)), self)))))"

definition read_head :: "'e httparse \<Rightarrow> Connection \<Rightarrow> NextEvent remote_result" where
  "read_head hp self =
     (let request = (conn_role self = Server);
          (ready, self) = section_ready True self
      in if \<not> ready then wait_for_section True self
         else if request then
           (case parse_request_head hp (unread self) (max_head_bytes (limits self))
                   (max_header_count (limits self)) of
              Inl e \<Rightarrow> (Inl e, self)
            | Inr None \<Rightarrow> wait_for_section True self
            | Inr (Some (end, request)) \<Rightarrow>
                accept_request request
                  (self\<lparr>input := buffer_consume (input self) end, progress := None\<rparr>))
         else
           (case parse_response_head hp (unread self) (max_head_bytes (limits self))
                   (max_header_count (limits self)) of
              Inl e \<Rightarrow> (Inl e, self)
            | Inr None \<Rightarrow> wait_for_section True self
            | Inr (Some (end, response)) \<Rightarrow>
                accept_response response
                  (self\<lparr>input := buffer_consume (input self) end, progress := None\<rparr>)))"

section \<open>Receiving bodies\<close>

text \<open>
  The arms of \<^verbatim>\<open>read_chunked\<close> that go on with \<^verbatim>\<open>self.next_event_inner()\<close> are split off as steps: \<open>Inl\<close>
  is an early return, \<open>Inr\<close> the connection the method goes on with.
\<close>

definition chunk_line_too_long :: "Connection \<Rightarrow> NextEvent remote_result" where
  "chunk_line_too_long self =
     (Inl (remote_err ''chunk line exceeds max_head_bytes''
        (if conn_role self = Server then Some 400 else None)), self)"

definition chunk_size_step :: "usize \<Rightarrow> Connection \<Rightarrow> NextEvent remote_result + Connection" where
  "chunk_size_step scanned self =
     (case find_crlf (unread self) scanned of
        None \<Rightarrow>
          if incomplete_line_len (unread self) 0 > max_head_bytes (limits self)
          then Inl (chunk_line_too_long self)
          else
            (let self = self\<lparr>conn_reader := R_Chunked (Ck_Size (length (unread self) - 1))\<rparr>
             in Inl (need_data_or_eof ''unexpected EOF in chunk size'' self))
      | Some end \<Rightarrow>
          if end - 2 > max_head_bytes (limits self) then Inl (chunk_line_too_long self)
          else
            (case parse_chunk_header (take (end - 2) (unread self)) of
               None \<Rightarrow> Inl (Inl (remote_err ''invalid chunk size'' (Some 400)), self)
             | Some chunk_size \<Rightarrow>
                 (let self = self\<lparr>input := buffer_consume (input self) end\<rparr>
                  in Inr (if chunk_size = 0
                          then self\<lparr>conn_reader := R_Chunked Ck_Trailers, progress := None\<rparr>
                          else self\<lparr>conn_reader := R_Chunked (Ck_Data chunk_size True)\<rparr>))))"

definition chunk_data :: "usize \<Rightarrow> bool \<Rightarrow> Connection \<Rightarrow> NextEvent remote_result" where
  "chunk_data remaining is_first self =
     (let count = min remaining (length (unread self)) in
      if count = 0 then need_data_or_eof ''unexpected EOF in chunk data'' self
      else
        (let is_last = (count = remaining);
             self = self\<lparr>conn_reader := (if is_last then R_Chunked Ck_DataEnd
                                        else R_Chunked (Ck_Data (remaining - count) False))\<rparr>;
             (data, buf) = buffer_take (input self) count;
             self = self\<lparr>input := buf\<rparr>
         in peer_data data is_first is_last self))"

definition chunk_data_end_step :: "Connection \<Rightarrow> NextEvent remote_result + Connection" where
  "chunk_data_end_step self =
     (if length (unread self) < 2
      then Inl (need_data_or_eof ''unexpected EOF after chunk data'' self)
      else if take 2 (unread self) \<noteq> CRLF
      then Inl (Inl (remote_err ''chunk data is not followed by CRLF'' (Some 400)), self)
      else Inr (self\<lparr>input := buffer_consume (input self) 2, conn_reader := R_Chunked (Ck_Size 0)\<rparr>))"

definition read_trailers :: "'e httparse \<Rightarrow> Connection \<Rightarrow> NextEvent remote_result" where
  "read_trailers hp self =
     (let (ready, self) = section_ready False self in
      if \<not> ready then wait_for_section False self
      else case parse_trailers hp (unread self) (max_head_bytes (limits self))
                  (max_header_count (limits self)) (conn_role self = Client) of
        Inl e \<Rightarrow> (Inl e, self)
      | Inr None \<Rightarrow> wait_for_section False self
      | Inr (Some (end, trailers)) \<Rightarrow>
          finish_peer trailers (self\<lparr>input := buffer_consume (input self) end, progress := None\<rparr>))"

definition read_fixed :: "usize \<Rightarrow> Connection \<Rightarrow> NextEvent remote_result" where
  "read_fixed remaining self =
     (if remaining = 0 then finish_peer [] self
      else
        (let count = min remaining (length (unread self)) in
         if count = 0 then need_data_or_eof ''unexpected EOF in Content-Length body'' self
         else
           (let self = self\<lparr>conn_reader := R_Fixed (remaining - count)\<rparr>;
                (data, buf) = buffer_take (input self) count;
                self = self\<lparr>input := buf\<rparr>
            in peer_data data False False self)))"

definition read_close_delimited :: "Connection \<Rightarrow> NextEvent remote_result" where
  "read_close_delimited self =
     (let count = length (unread self) in
      if count > 0 then
        (let (data, buf) = buffer_take (input self) count;
             self = self\<lparr>input := buf\<rparr>
         in peer_data data False False self)
      else if eof self then finish_peer [] self
      else (Inr NE_NeedData, self))"

text \<open>The first \<^verbatim>\<open>match\<close> of \<^verbatim>\<open>next_event_inner\<close>, on the peer's state: \<open>None\<close> goes on to the reader.\<close>

definition peer_state_return :: "Connection \<Rightarrow> NextEvent remote_result option" where
  "peer_state_return self =
     (case peer_state self of
        Closed \<Rightarrow> Some (Inr (NE_Event Ev_ConnectionClosed), self)
      | Idle \<Rightarrow> if eof self \<and> unread self = [] then Some (peer_closed self) else None
      | MightSwitchProtocol \<Rightarrow> Some (Inr NE_Paused, self)
      | SwitchedProtocol \<Rightarrow> Some (Inr NE_Paused, self)
      | Done \<Rightarrow>
          if unread self \<noteq> [] then Some (Inr NE_Paused, self)
          else if eof self then Some (peer_closed self)
          else Some (Inr NE_NeedData, self)
      | MustClose \<Rightarrow>
          if unread self \<noteq> [] then Some (Inr NE_Paused, self)
          else if eof self then Some (peer_closed self)
          else Some (Inr NE_NeedData, self)
      | Error \<Rightarrow> Some (Inl (remote_err ''peer state is ERROR'' None), self)
      | _ \<Rightarrow> None)"

lemma chunk_size_step_Inr:
  assumes "chunk_size_step scanned self = Inr self'"
  shows "length (unread self') < length (unread self)"
  using assms find_crlf_Some [of "unread self" scanned]
  by (auto simp: chunk_size_step_def Let_def split: option.splits if_splits)

lemma chunk_data_end_step_Inr:
  assumes "chunk_data_end_step self = Inr self'"
  shows "length (unread self') < length (unread self)"
  using assms by (auto simp: chunk_data_end_step_def split: if_splits)

function next_event_inner :: "'e httparse \<Rightarrow> Connection \<Rightarrow> NextEvent remote_result"
  and read_chunked :: "'e httparse \<Rightarrow> Chunk \<Rightarrow> Connection \<Rightarrow> NextEvent remote_result" where
  "next_event_inner hp self =
     (case peer_state_return self of
        Some r \<Rightarrow> r
      | None \<Rightarrow>
          (case conn_reader self of
             R_Head \<Rightarrow> read_head hp self
           | R_Fixed remaining \<Rightarrow> read_fixed remaining self
           | R_CloseDelimited \<Rightarrow> read_close_delimited self
           | R_Chunked chunk \<Rightarrow> read_chunked hp chunk self))"
| "read_chunked hp chunk self =
     (case chunk of
        Ck_Size scanned \<Rightarrow>
          (case chunk_size_step scanned self of
             Inl r \<Rightarrow> r
           | Inr self \<Rightarrow> next_event_inner hp self)
      | Ck_Data remaining is_first \<Rightarrow> chunk_data remaining is_first self
      | Ck_DataEnd \<Rightarrow>
          (case chunk_data_end_step self of
             Inl r \<Rightarrow> r
           | Inr self \<Rightarrow> next_event_inner hp self)
      | Ck_Trailers \<Rightarrow> read_trailers hp self)"
  by pat_completeness auto
termination
  by (relation "measure (\<lambda>x. case x of Inl (hp, self) \<Rightarrow> 2 * length (unread self) + 1
                                     | Inr (hp, chunk, self) \<Rightarrow> 2 * length (unread self))")
     (auto dest: chunk_size_step_Inr chunk_data_end_step_Inr)

declare next_event_inner.simps [simp del] read_chunked.simps [simp del]

definition next_event :: "'e httparse \<Rightarrow> Connection \<Rightarrow> NextEvent remote_result" where
  "next_event hp self =
     (let (result, self) = next_event_inner hp self;
          result = map_err (\<lambda>error. if conn_role self = Client
                                    then error\<lparr>suggested_status_code := None\<rparr> else error) result
      in if isl result
         then (result, self\<lparr>conn_state := process_error (conn_state self) (peer (conn_role self))\<rparr>)
         else (result, self))"

section \<open>Sending heads\<close>

definition send_request :: "Request \<Rightarrow> Connection \<Rightarrow> (u8 list) local_result" where
  "send_request request self =
     (if conn_role self \<noteq> Client
      then (Inl (local_err ''only a client connection can send a request''), self)
      else case validate_request request of
        Inl e \<Rightarrow> (Inl e, self)
      | Inr _ \<Rightarrow>
     case map_err (\<lambda>error. local_err (remote_message error))
            (framing (req_headers request) (req_http_version request)) of
        Inl e \<Rightarrow> (Inl e, self)
      | Inr frame \<Rightarrow>
     if frame = F_Fixed 0 \<and> has_token (req_headers request) (bytes ''expect'') (bytes ''100-continue'')
     then (Inl (local_err ''100-continue requires request content''), self)
     else case ok_or (upgrade_protocols (req_headers request)) (local_err ''invalid Upgrade field'') of
        Inl e \<Rightarrow> (Inl e, self)
      | Inr upgrades \<Rightarrow>
     if has_token (req_headers request) (bytes ''connection'') (bytes ''upgrade'') = (upgrades = [])
     then (Inl (local_err ''Upgrade requires Connection: upgrade''), self)
     else
       (let upgrades = (if req_http_version request = Http11 then upgrades else []);
            props = from_flags (as_bytes (req_method request) = bytes ''CONNECT'') (upgrades \<noteq> [])
        in and_then (advance_local (SE_Request props) self) (\<lambda>_ self.
          let self = apply_persistence (req_http_version request) (req_headers request) self;
              self = self\<lparr>request_kind := Some (from_method (as_bytes (req_method request)))\<rparr>;
              self = self\<lparr>writer := Some frame\<rparr>;
              self = self\<lparr>waiting_for_continue :=
                            expects_continue (req_http_version request) (req_headers request) frame\<rparr>;
              self = self\<lparr>continue_before_upgrade := waiting_for_continue self \<and> upgrades \<noteq> []\<rparr>;
              self = self\<lparr>upgrade_proposals := upgrades\<rparr>
          in (Inr (serialize_request request), self))))"

definition framing_field_count :: "Header list \<Rightarrow> usize" where
  "framing_field_count headers =
     count_header headers (bytes ''transfer-encoding'') + count_header headers (bytes ''content-length'')"

definition send_informational_response ::
  "InformationalResponse \<Rightarrow> Connection \<Rightarrow> (u8 list) local_result" where
  "send_informational_response response self =
     (if conn_role self \<noteq> Server \<or> \<not> is_informational (resp_status response)
      then (Inl (local_err ''an informational response requires a server role and 1xx status''), self)
      else case validate_headers (resp_headers response) of
        Inl e \<Rightarrow> (Inl e, self)
      | Inr _ \<Rightarrow>
     case validate_reason (resp_reason response) of
        Inl e \<Rightarrow> (Inl e, self)
      | Inr _ \<Rightarrow>
     if framing_field_count (resp_headers response) > 0
     then (Inl (local_err ''informational responses cannot carry framing fields''), self)
     else if as_u16 (resp_status response) = 101
       \<and> (continue_before_upgrade self
          \<or> \<not> valid_upgrade_response (resp_http_version response) (resp_headers response) self)
     then (Inl (local_err ''invalid 101 Upgrade response''), self)
     else
       (let event = (if as_u16 (resp_status response) = 101 then SE_ProtocolSwitch Upgrade
                     else SE_InformationalResponse)
        in and_then (advance_local event self) (\<lambda>_ self.
          let self = (if as_u16 (resp_status response) = 100
                      then self\<lparr>waiting_for_continue := False, continue_before_upgrade := False\<rparr>
                      else self)
          in (Inr (serialize_response (resp_http_version response) (resp_status response)
                     (resp_reason response) (resp_headers response)), self))))"

text \<open>The fields of a final response as they go out, before the close signal: a transfer coding that
  either side's version cannot carry is dropped together with any length.\<close>

definition both_http11 :: "Version \<Rightarrow> Connection \<Rightarrow> bool" where
  "both_http11 http_version self \<longleftrightarrow> peer_version self = Some Http11 \<and> http_version = Http11"

definition drop_unusable_framing :: "Version \<Rightarrow> Header list \<Rightarrow> Connection \<Rightarrow> Header list" where
  "drop_unusable_framing http_version headers self =
     (if (peer_version self \<noteq> Some Http11 \<or> http_version \<noteq> Http11)
         \<and> count_header headers (bytes ''transfer-encoding'') > 0
      then filter (\<lambda>(name, _). \<not> eq_ignore_ascii_case name (bytes ''transfer-encoding'')
                             \<and> \<not> eq_ignore_ascii_case name (bytes ''content-length'')) headers
      else headers)"

text \<open>The framing of a final response, with the fields it adds and whether it forces a close.\<close>

definition select_response_framing ::
  "bool \<Rightarrow> Version \<Rightarrow> Header list \<Rightarrow> Connection \<Rightarrow> LocalProtocolError + (Framing \<times> Header list \<times> bool)" where
  "select_response_framing no_body http_version headers self =
     (if no_body then Inr (F_Fixed 0, headers, False)
      else if framing_field_count headers = 0 then
        (if both_http11 http_version self
         then Inr (F_Chunked, headers @ [(bytes ''Transfer-Encoding'', bytes ''chunked'')], False)
         else Inr (F_CloseDelimited, headers, True))
      else case map_err (\<lambda>error. local_err (remote_message error)) (framing headers http_version) of
             Inl e \<Rightarrow> Inl e
           | Inr frame \<Rightarrow> Inr (frame, headers, False))"

definition send_response :: "Response \<Rightarrow> Connection \<Rightarrow> (u8 list) local_result" where
  "send_response response self =
     (if conn_role self \<noteq> Server \<or> is_informational (resp_status response)
      then (Inl (local_err ''a final response requires a server role and non-1xx status''), self)
      else case validate_headers (resp_headers response) of
        Inl e \<Rightarrow> (Inl e, self)
      | Inr _ \<Rightarrow>
     case validate_reason (resp_reason response) of
        Inl e \<Rightarrow> (Inl e, self)
      | Inr _ \<Rightarrow>
     (let connect = (request_is RK_Connect self \<and> is_success (resp_status response));
          framing_fields = framing_field_count (resp_headers response)
      in if (as_u16 (resp_status response) = 204 \<or> connect) \<and> framing_fields > 0
         then (Inl (local_err ''this response status cannot carry framing fields''), self)
         else
           (let no_body = (as_u16 (resp_status response) = 204 \<or> as_u16 (resp_status response) = 304
                           \<or> request_is RK_Head self \<or> connect);
                headers = drop_unusable_framing (resp_http_version response) (resp_headers response) self
            in case select_response_framing no_body (resp_http_version response) headers self of
                 Inl e \<Rightarrow> (Inl e, self)
               | Inr (frame, headers, force_close) \<Rightarrow>
                   (let headers =
                          (if \<not> connect
                              \<and> (\<not> keep_alive (conn_state self)
                                 \<or> peer_version self \<noteq> Some Http11
                                 \<or> resp_http_version response \<noteq> Http11
                                 \<or> force_close
                                 \<or> has_token headers (bytes ''connection'') (bytes ''close''))
                           then set_connection_close headers else headers)
                    in and_then
                         (advance_local (if connect then SE_ProtocolSwitch Connect else SE_Response) self)
                         (\<lambda>_ self.
                        let self = apply_persistence (resp_http_version response) headers self;
                            self = self\<lparr>writer := Some frame\<rparr>;
                            self = self\<lparr>waiting_for_continue := False\<rparr>;
                            self = self\<lparr>continue_before_upgrade := False\<rparr>;
                            self = self\<lparr>upgrade_proposals := []\<rparr>
                        in (Inr (serialize_response (resp_http_version response)
                                   (resp_status response) (resp_reason response) headers), self))))))"

section \<open>Sending bodies\<close>

definition data_framing ::
  "Framing \<Rightarrow> usize \<Rightarrow> LocalProtocolError + (Framing \<times> u8 list \<times> u8 list)" where
  "data_framing frame len =
     (case frame of
        F_Fixed remaining \<Rightarrow>
          if len \<le> remaining then Inr (F_Fixed (remaining - len), [], [])
          else Inl (local_err ''body exceeds Content-Length'')
      | F_CloseDelimited \<Rightarrow> Inr (F_CloseDelimited, [], [])
      | F_Chunked \<Rightarrow>
          if len = 0 then Inr (F_Chunked, [], [])
          else Inr (F_Chunked, format_hex len @ CRLF, CRLF))"

definition send_data_framing :: "usize \<Rightarrow> Connection \<Rightarrow> (u8 list \<times> u8 list) local_result" where
  "send_data_framing len self =
     (case writer self of
        None \<Rightarrow> (Inl (local_err ''message framing is not initialized''), self)
      | Some frame \<Rightarrow>
          (case data_framing frame len of
             Inl e \<Rightarrow> (Inl e, self)
           | Inr (next_frame, prefix, suffix) \<Rightarrow>
               and_then (advance_local SE_Data self) (\<lambda>_ self.
                 (Inr (prefix, suffix), self\<lparr>writer := Some next_frame, waiting_for_continue := False\<rparr>))))"

definition send_data_parts :: "u8 list \<Rightarrow> Connection \<Rightarrow> (u8 list DataParts) local_result" where
  "send_data_parts data self =
     and_then (send_data_framing (length data) self) (\<lambda>(prefix, suffix) self.
       (Inr \<lparr>parts_prefix = prefix, parts_data = data, parts_suffix = suffix\<rparr>, self))"

definition send_data :: "u8 list \<Rightarrow> Connection \<Rightarrow> (u8 list) local_result" where
  "send_data data self =
     and_then (send_data_parts data self) (\<lambda>parts self.
       (Inr (parts_prefix parts @ parts_data parts @ parts_suffix parts), self))"

definition message_terminator :: "Framing \<Rightarrow> Header list \<Rightarrow> LocalProtocolError + u8 list" where
  "message_terminator frame trailers =
     (if (frame = F_Fixed 0 \<or> frame = F_CloseDelimited) \<and> trailers = [] then Inr []
      else case frame of
        F_Fixed _ \<Rightarrow> Inl (local_err ''body is shorter than Content-Length'')
      | F_CloseDelimited \<Rightarrow> Inl (local_err ''close-delimited messages cannot carry trailers'')
      | F_Chunked \<Rightarrow>
          (let out = bytes ''0'' @ CRLF;
               out = write_headers out trailers
           in Inr (out @ CRLF)))"

definition end_of_message :: "Header list \<Rightarrow> Connection \<Rightarrow> (u8 list) local_result" where
  "end_of_message trailers self =
     (case validate_trailers trailers of
        Inl e \<Rightarrow> (Inl e, self)
      | Inr _ \<Rightarrow>
          (case writer self of
             None \<Rightarrow> (Inl (local_err ''message framing is not initialized''), self)
           | Some frame \<Rightarrow>
               (case message_terminator frame trailers of
                  Inl e \<Rightarrow> (Inl e, self)
                | Inr out \<Rightarrow>
                    and_then (advance_local SE_EndOfMessage self) (\<lambda>_ self.
                      (Inr out, self\<lparr>writer := None, waiting_for_continue := False\<rparr>)))))"

section \<open>Cycles and closing\<close>

definition start_next_cycle :: "Connection \<Rightarrow> unit local_result" where
  "start_next_cycle self =
     (case state_start_next_cycle (conn_state self) of
        (Inl _, st) \<Rightarrow> (Inl (local_err ''connection is not reusable''), self\<lparr>conn_state := st\<rparr>)
      | (Inr _, st) \<Rightarrow>
          (Inr (), self\<lparr>conn_state := st, conn_reader := R_Head, writer := None, progress := None,
             request_kind := None, upgrade_proposals := [], waiting_for_continue := False,
             continue_before_upgrade := False\<rparr>))"

definition close :: "Connection \<Rightarrow> unit local_result" where
  "close self =
     and_then (advance_local SE_ConnectionClosed self) (\<lambda>_ self. (Inr (), self\<lparr>writer := None\<rparr>))"

end
