(* ===== verification/Connection_Inv.thy ===== *)
theory Connection_Inv
  imports Evolution
begin

text \<open>
  The invariant of a connection and its preservation by every call.  It ties the fields the methods
  keep next to the lifecycle state to that state: a reader beyond the head means that the peer is
  sending a body, a writer means that the local actor is; the read offsets (buffer, section search,
  chunk-line search) stay inside the unread bytes, so that no slice of the source is out of range;
  and a resumed search for a chunk line's end finds what a search from the start would find.
\<close>

section \<open>One side of the lifecycle under the other side's operations\<close>

text \<open>What an operation of one actor may do to the state of the other: it neither starts nor ends a
  body, and it undoes neither a switch nor an error.\<close>

definition side_kept :: "State \<Rightarrow> State \<Rightarrow> bool" where
  "side_kept s t \<longleftrightarrow>
     (t = SendBody \<longleftrightarrow> s = SendBody) \<and> (s = SwitchedProtocol \<longrightarrow> t = SwitchedProtocol) \<and> (t = Error \<longleftrightarrow> s = Error)"

lemma side_kept_refl [simp]: "side_kept s s"
  by (simp add: side_kept_def)

lemma side_kept_trans: "side_kept s t \<Longrightarrow> side_kept t u \<Longrightarrow> side_kept s u"
  by (auto simp: side_kept_def)

lemma side_kept_pass: "side_kept (state st r) (state (stabilize_pass st) r)"
  by (cases r) (auto simp: side_kept_def stabilize_pass_defs Let_def split: if_splits)

lemma side_kept_disable: "side_kept (state st r) (state (disable_keep_alive st) r)"
  using side_kept_pass [of "st\<lparr>keep_alive := False\<rparr>" r]
  by (cases r) (simp_all add: disable_keep_alive_def stabilize_eq_pass)

lemma side_kept_event:
  assumes "process_event st r e = (Inr (), st')"
  shows "side_kept (state st (peer r)) (state st' (peer r))"
proof -
  from assms obtain t d where d: "joint_effect r e (state st r) st = Some d"
    and st': "st' = stabilize_pass (set_state r t d)"
    by (auto simp: process_event_Inr)
  have "side_kept (state st (peer r)) (state d (peer r))"
    using joint_effect_other_state [OF d] by (auto simp: side_kept_def)
  also have "state d (peer r) = state (set_state r t d) (peer r)" by simp
  finally show ?thesis unfolding st' by (rule side_kept_trans) (rule side_kept_pass)
qed

lemma side_kept_error: "side_kept (state st r) (state (process_error st (peer r)) r)"
  using side_kept_pass [of "set_state (peer r) Error st" r]
  by (simp add: process_error_def stabilize_eq_pass)

text \<open>What an accepted event does to its own actor.\<close>

lemma own_event:
  assumes "process_event st r e = (Inr (), st')"
  obtains t where "direct_contract r (state st r) e t" and "side_kept t (state st' r)"
proof -
  from assms obtain t d where t: "direct_contract r (state st r) e t"
    and st': "st' = stabilize_pass (set_state r t d)"
    by (auto simp: process_event_Inr)
  with side_kept_pass [of "set_state r t d" r] that show thesis by auto
qed

declare process_error_state [simp]

section \<open>Neither side's methods disturb the other\<close>

definition local_side_kept :: "Connection \<Rightarrow> Connection \<Rightarrow> bool" where
  "local_side_kept c c' \<longleftrightarrow>
     conn_role c' = conn_role c \<and> writer c' = writer c \<and> side_kept (local_state c) (local_state c')"

interpretation receiving: peer_evolution local_side_kept
proof unfold_locales
  fix c e st
  show "process_event (conn_state c) (peer (conn_role c)) e = (Inr (), st) \<Longrightarrow>
      local_side_kept c (c\<lparr>conn_state := st\<rparr>)"
    by (auto simp: local_side_kept_def local_state_def dest: side_kept_event)
qed (auto simp: local_side_kept_def local_state_def intro: side_kept_trans side_kept_disable side_kept_error)

definition peer_side_kept :: "Connection \<Rightarrow> Connection \<Rightarrow> bool" where
  "peer_side_kept c c' \<longleftrightarrow>
     conn_role c' = conn_role c \<and> input c' = input c \<and> eof c' = eof c \<and> progress c' = progress c
     \<and> conn_reader c' = conn_reader c \<and> side_kept (peer_state c) (peer_state c')"

interpretation sending: local_evolution peer_side_kept
proof unfold_locales
  fix c e st
  show "process_event (conn_state c) (conn_role c) e = (Inr (), st) \<Longrightarrow> peer_side_kept c (c\<lparr>conn_state := st\<rparr>)"
    by (auto simp: peer_side_kept_def peer_state_def dest: side_kept_event)
qed (auto simp: peer_side_kept_def peer_state_def intro: side_kept_trans side_kept_disable)

section \<open>The receiving side\<close>

definition scan_ok :: "usize \<Rightarrow> u8 list \<Rightarrow> bool" where
  "scan_ok scanned data \<longleftrightarrow>
     scanned = 0 \<or> scanned < length data \<and> find_crlf (take (Suc scanned) data) 0 = None"

fun reader_ok :: "Reader \<Rightarrow> u8 list \<Rightarrow> bool" where
  "reader_ok (R_Chunked (Ck_Size scanned)) data = scan_ok scanned data"
| "reader_ok (R_Chunked (Ck_Data remaining _)) data = (0 < remaining)"
| "reader_ok _ data = True"

definition progress_ok :: "SectionProgress option \<Rightarrow> Reader \<Rightarrow> u8 list \<Rightarrow> bool" where
  "progress_ok p r data \<longleftrightarrow>
     (case p of None \<Rightarrow> True
      | Some p \<Rightarrow> (r = R_Head \<or> r = R_Chunked Ck_Trailers) \<and> progress_wf p data)"

definition reader_aligned :: "State \<Rightarrow> Reader \<Rightarrow> bool" where
  "reader_aligned s r \<longleftrightarrow>
     (if r = R_Head then s \<noteq> SendBody else s = SendBody \<or> s = SwitchedProtocol \<and> r = R_Fixed 0)"

definition receive_ok :: "Connection \<Rightarrow> bool" where
  "receive_ok c \<longleftrightarrow>
     reader_aligned (peer_state c) (conn_reader c) \<and> reader_ok (conn_reader c) (unread c)
     \<and> progress_ok (progress c) (conn_reader c) (unread c)"

definition receive_inv :: "Connection \<Rightarrow> bool" where
  "receive_inv c \<longleftrightarrow> peer_state c = Error \<or> receive_ok c"

lemma scan_ok_append: "scan_ok n d \<Longrightarrow> scan_ok n (d @ e)"
  by (auto simp: scan_ok_def)

lemma scan_ok_find: "scan_ok n d \<Longrightarrow> find_crlf d n = find_crlf d 0"
proof -
  assume ok: "scan_ok n d"
  show ?thesis
  proof (cases "n = 0")
    case False
    with ok have "n < length d" and none: "find_crlf (take (Suc n) d) 0 = None" by (auto simp: scan_ok_def)
    then have "length (take (Suc n) d) - 1 = n" by simp
    with find_crlf_resume [OF none, of "drop (Suc n) d"] show ?thesis by simp
  qed simp
qed

lemma scan_ok_next: "find_crlf d 0 = None \<Longrightarrow> scan_ok (length d - 1) d"
  by (cases d rule: rev_cases) (auto simp: scan_ok_def)

lemma reader_ok_append: "reader_ok r d \<Longrightarrow> reader_ok r (d @ e)"
  by (cases "(r, d)" rule: reader_ok.cases) (auto simp: scan_ok_append)

lemma progress_ok_append: "progress_ok p r d \<Longrightarrow> progress_ok p r (d @ e)"
  by (auto simp: progress_ok_def progress_wf_append split: option.splits)

lemma reader_ok_reader [simp]: "reader_ok (reader f) d"
  by (cases f) (auto simp: scan_ok_def)

lemma progress_ok_None [simp]: "progress_ok None r d"
  by (simp add: progress_ok_def)

lemma reader_aligned_kept: "side_kept s t \<Longrightarrow> reader_aligned s r \<Longrightarrow> reader_aligned t r \<or> t = Error"
  by (auto simp: reader_aligned_def side_kept_def split: if_splits)

lemma receive_inv_kept: "peer_side_kept c c' \<Longrightarrow> receive_inv c \<Longrightarrow> receive_inv c'"
  using reader_aligned_kept [of "peer_state c" "peer_state c'" "conn_reader c"]
  by (auto simp: receive_inv_def receive_ok_def peer_side_kept_def side_kept_def)

lemma advance_peer_Inr:
  assumes "advance_peer e c = (Inr u, c')"
  obtains st t where "process_event (conn_state c) (peer (conn_role c)) e = (Inr (), st)"
    and "c' = c\<lparr>conn_state := st\<rparr>" and "direct_contract (peer (conn_role c)) (peer_state c) e t"
    and "side_kept t (peer_state c')"
proof -
  from assms obtain st where ev: "process_event (conn_state c) (peer (conn_role c)) e = (Inr (), st)"
    and c': "c' = c\<lparr>conn_state := st\<rparr>"
    by (auto simp: advance_peer_def split: prod.splits)
  from own_event [OF ev] obtain t where "direct_contract (peer (conn_role c)) (state (conn_state c) (peer (conn_role c))) e t"
    and "side_kept t (state st (peer (conn_role c)))" .
  with ev c' that show thesis by (simp add: peer_state_def)
qed

lemma apply_persistence_fields [simp]:
  "conn_role (apply_persistence v hs c) = conn_role c" "input (apply_persistence v hs c) = input c"
  "progress (apply_persistence v hs c) = progress c" "conn_reader (apply_persistence v hs c) = conn_reader c"
  "writer (apply_persistence v hs c) = writer c" "limits (apply_persistence v hs c) = limits c"
  "eof (apply_persistence v hs c) = eof c" "request_kind (apply_persistence v hs c) = request_kind c"
  "peer_version (apply_persistence v hs c) = peer_version c"
  by (simp_all add: apply_persistence_def Let_def)

lemma side_kept_peer_disable:
  "side_kept (peer_state c) (state (disable_keep_alive (conn_state c)) (peer (conn_role c)))"
  by (simp add: peer_state_def side_kept_disable)

lemma side_kept_persistence:
  "side_kept (peer_state c) (peer_state (apply_persistence v hs c))"
  "side_kept (local_state c) (local_state (apply_persistence v hs c))"
  by (simp_all add: apply_persistence_def Let_def peer_state_def local_state_def side_kept_disable)

lemma side_kept_SendBody: "side_kept SendBody t \<longleftrightarrow> t = SendBody" and side_kept_Switched: "side_kept SwitchedProtocol t \<longleftrightarrow> t = SwitchedProtocol"
  by (auto simp: side_kept_def)

lemma peer_state_upd [simp]:
  "peer_state (c\<lparr>conn_reader := r\<rparr>) = peer_state c" "peer_state (c\<lparr>progress := p\<rparr>) = peer_state c"
  "peer_state (c\<lparr>input := b\<rparr>) = peer_state c" "peer_state (c\<lparr>writer := w\<rparr>) = peer_state c"
  "peer_state (c\<lparr>peer_version := v\<rparr>) = peer_state c" "peer_state (c\<lparr>request_kind := k\<rparr>) = peer_state c"
  "peer_state (c\<lparr>upgrade_proposals := u\<rparr>) = peer_state c" "peer_state (c\<lparr>waiting_for_continue := wc\<rparr>) = peer_state c"
  "peer_state (c\<lparr>continue_before_upgrade := cb\<rparr>) = peer_state c" "peer_state (c\<lparr>eof := e\<rparr>) = peer_state c"
  by (simp_all add: peer_state_def)

lemma local_state_upd [simp]:
  "local_state (c\<lparr>conn_reader := r\<rparr>) = local_state c" "local_state (c\<lparr>progress := p\<rparr>) = local_state c"
  "local_state (c\<lparr>input := b\<rparr>) = local_state c" "local_state (c\<lparr>writer := w\<rparr>) = local_state c"
  "local_state (c\<lparr>peer_version := v\<rparr>) = local_state c" "local_state (c\<lparr>request_kind := k\<rparr>) = local_state c"
  "local_state (c\<lparr>upgrade_proposals := u\<rparr>) = local_state c" "local_state (c\<lparr>waiting_for_continue := wc\<rparr>) = local_state c"
  "local_state (c\<lparr>continue_before_upgrade := cb\<rparr>) = local_state c" "local_state (c\<lparr>eof := e\<rparr>) = local_state c"
  by (simp_all add: local_state_def)

lemma reader_not_Head [simp]: "reader f \<noteq> R_Head"
  by (cases f) auto

lemma accept_request_ok:
  assumes "accept_request q c = (Inr e, c')" and "progress c = None"
  shows "receive_ok c'"
proof -
  from assms(1) obtain u d frame where adv: "advance_peer (SE_Request u) c = (Inr (), d)"
    and c': "conn_reader c' = reader frame" "progress c' = progress d" "input c' = input d"
      "peer_state c' = peer_state (apply_persistence (req_http_version q) (req_headers q) d)"
    by (auto simp: accept_request_def Let_def and_then_Inr split: if_splits sum.splits)
  from adv obtain t where "direct_contract (peer (conn_role c)) (peer_state c) (SE_Request u) t"
    "side_kept t (peer_state d)" "progress d = progress c"
    by (rule advance_peer_Inr) auto
  then have "peer_state d = SendBody" and "progress d = None"
    using assms(2) by (auto elim!: direct_contractE simp: side_kept_SendBody)
  with side_kept_persistence(1) [of d "req_http_version q" "req_headers q"] c' show ?thesis
    by (simp add: receive_ok_def reader_aligned_def side_kept_SendBody)
qed

text \<open>A final response in its parts: the event, the framing, and the fields afterwards.\<close>

definition switches_connect :: "StatusCode \<Rightarrow> Connection \<Rightarrow> bool" where
  "switches_connect status c \<longleftrightarrow> request_is RK_Connect c \<and> is_success status"

definition bodiless :: "StatusCode \<Rightarrow> Connection \<Rightarrow> bool" where
  "bodiless status c \<longleftrightarrow>
     as_u16 status = 204 \<or> as_u16 status = 304 \<or> request_is RK_Head c \<or> switches_connect status c"

abbreviation decision_event :: "StatusCode \<Rightarrow> Connection \<Rightarrow> StateEvent" where
  "decision_event status c \<equiv> (if switches_connect status c then SE_ProtocolSwitch Connect else SE_Response)"

definition after_response :: "Response \<Rightarrow> Connection \<Rightarrow> Connection" where
  "after_response q c =
     (apply_persistence (resp_http_version q) (resp_headers q) c)
       \<lparr>peer_version := Some (resp_http_version q), waiting_for_continue := False,
        continue_before_upgrade := False, upgrade_proposals := []\<rparr>"

lemma response_eta:
  "\<lparr>resp_status = resp_status q, resp_reason = resp_reason q, resp_headers = resp_headers q,
    resp_http_version = resp_http_version q\<rparr> = q"
  by simp

lemma request_is_state [simp]: "request_is k (c\<lparr>conn_state := st\<rparr>) = request_is k c"
  by (simp add: request_is_def)

lemma after_response_fields [simp]:
  "request_is k (after_response q c) = request_is k c" "conn_role (after_response q c) = conn_role c"
  "input (after_response q c) = input c" "progress (after_response q c) = progress c"
  "conn_reader (after_response q c) = conn_reader c" "limits (after_response q c) = limits c"
  by (simp_all add: after_response_def request_is_def)

lemma after_response_kept: "side_kept (peer_state c) (peer_state (after_response q c))"
  by (simp add: after_response_def side_kept_persistence)

lemma advance_peer_request_kind: "advance_peer e c = (r, d) \<Longrightarrow> request_kind d = request_kind c"
  by (auto simp: advance_peer_def split: prod.splits)

lemma accept_response_final:
  assumes "\<not> is_informational (resp_status q)"
  shows "accept_response q c =
    and_then (advance_peer (decision_event (resp_status q) c) c) (\<lambda>_ d.
      case (if bodiless (resp_status q) c then Inr (F_Fixed 0)
            else response_framing (resp_headers q) (resp_http_version q)) of
        Inl e \<Rightarrow> (Inl e, after_response q d)
      | Inr frame \<Rightarrow>
          (Inr (NE_Event (Ev_Response q)),
           (if frame = F_CloseDelimited
            then (after_response q d)\<lparr>conn_state := disable_keep_alive (conn_state (after_response q d))\<rparr>
            else after_response q d)\<lparr>conn_reader := reader frame\<rparr>))"
proof -
  obtain r d where adv: "advance_peer (decision_event (resp_status q) c) c = (r, d)" by fastforce
  note same = advance_peer_request_kind [OF adv]
  show ?thesis
    using assms adv same
    unfolding accept_response_def Let_def response_eta switches_connect_def bodiless_def
    by (cases r) (simp_all add: after_response_def request_is_def split: sum.split)
qed

lemma accept_response_finalE:
  assumes "accept_response q c = (Inr e, c')" and "\<not> is_informational (resp_status q)"
  obtains d frame where "advance_peer (decision_event (resp_status q) c) c = (Inr (), d)"
    and "(if bodiless (resp_status q) c then Inr (F_Fixed 0)
          else response_framing (resp_headers q) (resp_http_version q)) = Inr frame"
    and "c' = (if frame = F_CloseDelimited
            then (after_response q d)\<lparr>conn_state := disable_keep_alive (conn_state (after_response q d))\<rparr>
            else after_response q d)\<lparr>conn_reader := reader frame\<rparr>"
    and "e = NE_Event (Ev_Response q)"
proof -
  let ?framing = "if bodiless (resp_status q) c then Inr (F_Fixed 0)
      else response_framing (resp_headers q) (resp_http_version q)"
  from assms obtain d where adv: "advance_peer (decision_event (resp_status q) c) c = (Inr (), d)"
    and rest: "(case ?framing of
        Inl e \<Rightarrow> (Inl e, after_response q d)
      | Inr frame \<Rightarrow>
          (Inr (NE_Event (Ev_Response q)),
           (if frame = F_CloseDelimited
            then (after_response q d)\<lparr>conn_state := disable_keep_alive (conn_state (after_response q d))\<rparr>
            else after_response q d)\<lparr>conn_reader := reader frame\<rparr>)) = (Inr e, c')"
    unfolding accept_response_final [OF assms(2)] and_then_Inr by auto
  then obtain frame where frame: "?framing = Inr frame" by (cases ?framing) auto
  show thesis
    by (rule that [OF adv frame]) (use frame rest in \<open>simp_all split: if_splits\<close>)
qed

definition info_event :: "StatusCode \<Rightarrow> StateEvent" where
  "info_event status = (if as_u16 status = 101 then SE_ProtocolSwitch Upgrade else SE_InformationalResponse)"

definition after_info :: "Response \<Rightarrow> Connection \<Rightarrow> Connection" where
  "after_info q d =
     (if as_u16 (resp_status q) = 100 then d\<lparr>waiting_for_continue := False, continue_before_upgrade := False\<rparr> else d)
       \<lparr>peer_version := Some (resp_http_version q)\<rparr>"

lemma accept_response_info:
  assumes "is_informational (resp_status q)"
  shows "accept_response q c =
    (if as_u16 (resp_status q) = 101
        \<and> (continue_before_upgrade c \<or> \<not> valid_upgrade_response (resp_http_version q) (resp_headers q) c)
     then (Inl (remote_err ''invalid 101 Upgrade response'' None), c)
     else and_then (advance_peer (info_event (resp_status q)) c)
            (\<lambda>_ d. (Inr (NE_Event (Ev_InformationalResponse q)), after_info q d)))"
  using assms unfolding accept_response_def Let_def info_event_def after_info_def response_eta by simp

lemma after_info_fields [simp]:
  "conn_role (after_info q c) = conn_role c" "input (after_info q c) = input c"
  "progress (after_info q c) = progress c" "conn_reader (after_info q c) = conn_reader c"
  "limits (after_info q c) = limits c" "peer_state (after_info q c) = peer_state c"
  by (simp_all add: after_info_def)

lemma direct_contract_info: "direct_contract r s (info_event status) t \<Longrightarrow> t \<noteq> SendBody"
  by (cases "as_u16 status = 101") (auto simp: info_event_def direct_contract.simps)

lemma direct_contract_decision:
  "direct_contract r s (decision_event status c) t \<Longrightarrow>
     t = (if switches_connect status c then SwitchedProtocol else SendBody)"
  by (cases "switches_connect status c") (auto simp: direct_contract.simps)

lemma accept_response_ok:
  assumes "accept_response q c = (Inr e, c')" and "progress c = None" and "conn_reader c = R_Head"
  shows "receive_ok c'"
proof (cases "is_informational (resp_status q)")
  case True
  from assms(1) obtain d where adv: "advance_peer (info_event (resp_status q)) c = (Inr (), d)"
    and c': "c' = after_info q d"
    unfolding accept_response_info [OF True] by (auto simp: and_then_Inr split: if_splits)
  from adv obtain t where t: "direct_contract (peer (conn_role c)) (peer_state c) (info_event (resp_status q)) t"
    and d: "side_kept t (peer_state d)" "progress d = progress c" "conn_reader d = conn_reader c"
    by (rule advance_peer_Inr) auto
  from direct_contract_info [OF t] d(1) have "peer_state d \<noteq> SendBody" by (auto simp: side_kept_def)
  with c' d assms(2,3) show ?thesis by (simp add: receive_ok_def reader_aligned_def)
next
  case False
  from assms(1) False obtain d frame where
    adv: "advance_peer (decision_event (resp_status q) c) c = (Inr (), d)"
    and frame: "(if bodiless (resp_status q) c then Inr (F_Fixed 0)
          else response_framing (resp_headers q) (resp_http_version q)) = Inr frame"
    and c': "c' = (if frame = F_CloseDelimited
            then (after_response q d)\<lparr>conn_state := disable_keep_alive (conn_state (after_response q d))\<rparr>
            else after_response q d)\<lparr>conn_reader := reader frame\<rparr>"
    and "e = NE_Event (Ev_Response q)"
    by (rule accept_response_finalE)
  from adv obtain t where t: "direct_contract (peer (conn_role c)) (peer_state c) (decision_event (resp_status q) c) t"
    and d: "side_kept t (peer_state d)" "progress d = progress c"
    by (rule advance_peer_Inr) auto
  have "side_kept (peer_state (after_response q d)) (peer_state c')"
    using side_kept_peer_disable [of "after_response q d"] by (auto simp: c' peer_state_def)
  with side_kept_trans [OF d(1) after_response_kept] have "side_kept t (peer_state c')"
    by (rule side_kept_trans)
  with direct_contract_decision [OF t]
  have "peer_state c' = (if switches_connect (resp_status q) c then SwitchedProtocol else SendBody)"
    by (simp add: side_kept_SendBody side_kept_Switched split: if_splits)
  with frame d(2) assms(2) show ?thesis
    by (auto simp: receive_ok_def reader_aligned_def c' bodiless_def)
qed

lemma section_ready_ok:
  "section_ready skip c = (b, d) \<Longrightarrow> receive_ok c \<Longrightarrow> receive_ok d \<and> conn_reader d = conn_reader c \<and> peer_state d = peer_state c"
  by (auto simp: section_ready_def receive_ok_def progress_ok_def dest: poll_wf [of _ _ skip]
      split: if_splits option.splits prod.splits)

lemma section_reader_ok: "progress_wf p (unread c) \<Longrightarrow> conn_reader c = R_Head \<or> conn_reader c = R_Chunked Ck_Trailers \<Longrightarrow>
   receive_ok c \<Longrightarrow> receive_ok (c\<lparr>progress := Some p\<rparr>)"
  by (simp add: receive_ok_def progress_ok_def)

lemma need_data_or_eof_same: "need_data_or_eof m c = (r, c') \<Longrightarrow> c' = c"
  by (simp add: need_data_or_eof_def split: if_splits)

lemma wait_for_section_ok:
  assumes "wait_for_section skip c = (r, c')" and "receive_ok c"
    and "conn_reader c = R_Head \<or> conn_reader c = R_Chunked Ck_Trailers"
  shows "receive_ok c'"
proof -
  define p where "p = (case progress c of None \<Rightarrow> progress_default | Some p \<Rightarrow> p)"
  have "progress_wf p (unread c)"
    using assms(2) by (auto simp: p_def receive_ok_def progress_ok_def split: option.splits)
  then have "receive_ok (c\<lparr>progress := Some (snd (poll p (unread c) skip))\<rparr>)"
    using assms(2,3) by (intro section_reader_ok poll_wf)
  with assms(1,2) show ?thesis
    by (auto simp: wait_for_section_def Let_def p_def dest!: need_data_or_eof_same split: if_splits)
qed

lemma finish_peer_ok:
  assumes "finish_peer t c = (Inr e, c')" and "progress c = None"
  shows "receive_ok c'"
proof -
  from assms(1) obtain d where adv: "advance_peer SE_EndOfMessage c = (Inr (), d)"
    and c': "c' = d\<lparr>conn_reader := R_Head\<rparr>"
    by (auto simp: finish_peer_def and_then_Inr)
  from adv obtain s where "direct_contract (peer (conn_role c)) (peer_state c) SE_EndOfMessage s"
    "side_kept s (peer_state d)" "progress d = progress c"
    by (rule advance_peer_Inr) auto
  with assms(2) show ?thesis
    by (auto simp: c' receive_ok_def reader_aligned_def side_kept_def direct_contract.simps)
qed

lemma peer_data_ok:
  assumes "peer_data d s f c = (Inr e, c')" and "progress c = None" and "reader_ok (conn_reader c) (unread c)"
    and "conn_reader c \<noteq> R_Head"
  shows "receive_ok c'"
proof -
  from assms(1) obtain d where adv: "advance_peer SE_Data c = (Inr (), d)"
    and c': "c' = d\<lparr>waiting_for_continue := False\<rparr>"
    by (auto simp: peer_data_def and_then_Inr)
  from adv obtain s where "direct_contract (peer (conn_role c)) (peer_state c) SE_Data s"
    "side_kept s (peer_state d)" "progress d = progress c" "conn_reader d = conn_reader c" "input d = input c"
    by (rule advance_peer_Inr) auto
  with assms show ?thesis
    by (auto simp: c' receive_ok_def reader_aligned_def side_kept_SendBody direct_contract.simps)
qed

lemma peer_closed_ok:
  assumes "peer_closed c = (Inr e, c')" and "receive_ok c" and "conn_reader c = R_Head"
  shows "receive_ok c'"
proof -
  from assms(1) have adv: "advance_peer SE_ConnectionClosed c = (Inr (), c')"
    by (auto simp: peer_closed_def and_then_Inr)
  then obtain s where "direct_contract (peer (conn_role c)) (peer_state c) SE_ConnectionClosed s"
    "side_kept s (peer_state c')" "progress c' = progress c" "conn_reader c' = conn_reader c" "input c' = input c"
    by (rule advance_peer_Inr) auto
  with assms(2,3) show ?thesis
    by (auto simp: receive_ok_def reader_aligned_def side_kept_def direct_contract.simps)
qed

lemma read_head_ok:
  assumes "read_head hp c = (Inr e, c')" and "receive_ok c" and "conn_reader c = R_Head"
  shows "receive_ok c'"
proof -
  obtain ready d where sr: "section_ready True c = (ready, d)" by fastforce
  from section_ready_ok [OF sr assms(2)] assms(3) have d: "receive_ok d" "conn_reader d = R_Head" by simp_all
  with assms(1) sr wait_for_section_ok [of True d] show ?thesis
    by (auto simp: read_head_def Let_def intro: accept_request_ok accept_response_ok
        split: if_splits sum.splits option.splits)
qed

lemma read_trailers_ok:
  assumes "read_trailers hp c = (Inr e, c')" and "receive_ok c" and "conn_reader c = R_Chunked Ck_Trailers"
  shows "receive_ok c'"
proof -
  obtain ready d where sr: "section_ready False c = (ready, d)" by fastforce
  from section_ready_ok [OF sr assms(2)] assms(3) have d: "receive_ok d" "conn_reader d = R_Chunked Ck_Trailers"
    by simp_all
  with assms(1) sr wait_for_section_ok [of False d] show ?thesis
    by (auto simp: read_trailers_def Let_def intro: finish_peer_ok split: if_splits sum.splits option.splits)
qed

lemma progress_ok_body: "progress_ok p r d \<Longrightarrow> r \<noteq> R_Head \<Longrightarrow> r \<noteq> R_Chunked Ck_Trailers \<Longrightarrow> p = None"
  by (auto simp: progress_ok_def split: option.splits)

lemma chunk_size_step_ok:
  assumes "receive_ok c" and "conn_reader c = R_Chunked (Ck_Size n)"
  shows "chunk_size_step n c = Inl (Inr e, c') \<Longrightarrow> receive_ok c'" "chunk_size_step n c = Inr c' \<Longrightarrow> receive_ok c'"
proof -
  from assms have find: "find_crlf (unread c) n = find_crlf (unread c) 0"
    and p: "progress c = None" and s: "peer_state c = SendBody"
    by (auto simp: receive_ok_def reader_aligned_def intro: scan_ok_find progress_ok_body)
  note [simp] = receive_ok_def reader_aligned_def p s
  show "chunk_size_step n c = Inl (Inr e, c') \<Longrightarrow> receive_ok c'"
    using scan_ok_next [of "unread c"]
    by (auto simp: chunk_size_step_def find chunk_line_too_long_def Let_def need_data_or_eof_def
        split: option.splits if_splits)
  show "chunk_size_step n c = Inr c' \<Longrightarrow> receive_ok c'"
    by (auto simp: chunk_size_step_def Let_def split: option.splits if_splits)
qed

lemma chunk_data_end_step_ok:
  assumes "receive_ok c" and "conn_reader c = R_Chunked Ck_DataEnd"
  shows "chunk_data_end_step c = Inl (Inr e, c') \<Longrightarrow> receive_ok c'" "chunk_data_end_step c = Inr c' \<Longrightarrow> receive_ok c'"
proof -
  from assms have p: "progress c = None" and s: "peer_state c = SendBody"
    by (auto simp: receive_ok_def reader_aligned_def intro: progress_ok_body)
  note [simp] = receive_ok_def reader_aligned_def p s
  show "chunk_data_end_step c = Inl (Inr e, c') \<Longrightarrow> receive_ok c'"
    using assms(1) by (auto simp: chunk_data_end_step_def need_data_or_eof_def simp del: receive_ok_def split: if_splits)
  show "chunk_data_end_step c = Inr c' \<Longrightarrow> receive_ok c'"
    by (auto simp: chunk_data_end_step_def scan_ok_def split: if_splits)
qed

lemma taken_ok:
  assumes "peer_data d s f (c\<lparr>conn_reader := r, input := b\<rparr>) = (Inr e, c')"
    and "receive_ok c" and "conn_reader c \<noteq> R_Head" and "conn_reader c \<noteq> R_Chunked Ck_Trailers"
    and "r \<noteq> R_Head" and "reader_ok r (as_slice b)"
  shows "receive_ok c'"
proof (rule peer_data_ok [OF assms(1)])
  from assms(2-4) show "progress (c\<lparr>conn_reader := r, input := b\<rparr>) = None"
    by (auto simp: receive_ok_def intro: progress_ok_body)
qed (use assms(5,6) in simp_all)

lemma chunk_data_ok:
  assumes "chunk_data n f c = (Inr e, c')" and "receive_ok c" and "conn_reader c = R_Chunked (Ck_Data n f)"
  shows "receive_ok c'"
  using assms taken_ok [OF _ assms(2)]
  by (fastforce simp: chunk_data_def Let_def buffer_take_def dest: need_data_or_eof_same split: if_splits)

lemma read_fixed_ok:
  assumes "read_fixed n c = (Inr e, c')" and "receive_ok c" and "conn_reader c = R_Fixed n"
  shows "receive_ok c'"
proof -
  from assms(2,3) have "progress c = None" by (auto simp: receive_ok_def intro: progress_ok_body)
  with assms taken_ok [OF _ assms(2)] show ?thesis
    by (fastforce simp: read_fixed_def Let_def buffer_take_def dest: need_data_or_eof_same finish_peer_ok
        split: if_splits)
qed

lemma read_close_delimited_ok:
  assumes "read_close_delimited c = (Inr e, c')" and "receive_ok c" and "conn_reader c = R_CloseDelimited"
  shows "receive_ok c'"
proof -
  from assms(2,3) have "progress c = None" by (auto simp: receive_ok_def intro: progress_ok_body)
  with assms peer_data_ok [of _ False False "c\<lparr>input := b\<rparr>" e c' for b] show ?thesis
    by (auto simp: read_close_delimited_def Let_def buffer_take_def dest: finish_peer_ok split: if_splits)
qed

lemma peer_state_return_ok:
  assumes "peer_state_return c = Some (Inr e, c')" and "receive_ok c"
  shows "receive_ok c'"
  using assms peer_closed_ok [of c e c']
  by (auto simp: peer_state_return_def receive_ok_def reader_aligned_def split: State.State.splits if_splits)

lemma next_event_inner_ok:
  "next_event_inner hp c = (Inr e, c') \<Longrightarrow> receive_ok c \<Longrightarrow> receive_ok c'"
  "read_chunked hp k c = (Inr e, c') \<Longrightarrow> receive_ok c \<Longrightarrow> conn_reader c = R_Chunked k \<Longrightarrow> receive_ok c'"
proof (induction hp c and hp k c arbitrary: e c' and e c' rule: next_event_inner_read_chunked.induct)
  case (1 hp c)
  note parts = "1.prems" "1.IH"
  then show ?case
    by (subst (asm) next_event_inner.simps)
       (auto dest: peer_state_return_ok read_head_ok read_fixed_ok read_close_delimited_ok
         split: option.splits Reader.splits)
next
  case (2 hp k c)
  note step = "2.prems"(1) [unfolded read_chunked.simps [of hp k c]]
  show ?case
  proof (cases k)
    case (Ck_Size n)
    with step 2 chunk_size_step_ok [OF "2.prems"(2), of n] show ?thesis by (cases "chunk_size_step n c") auto
  next
    case Ck_DataEnd
    with step 2 chunk_data_end_step_ok [OF "2.prems"(2)] show ?thesis by (cases "chunk_data_end_step c") auto
  qed (use step "2.prems" chunk_data_ok read_trailers_ok in auto)
qed

lemma next_event_role: "httparse_ok hp \<Longrightarrow> next_event hp c = (r, c') \<Longrightarrow> conn_role c' = conn_role c"
  by (drule frame.next_event_R) (auto simp: same_frame_def)

lemma next_event_inv: "receive_inv c \<Longrightarrow> receive_inv (snd (next_event hp c))"
proof -
  assume inv: "receive_inv c"
  obtain r d where inner: "next_event_inner hp c = (r, d)" by fastforce
  show ?thesis
  proof (cases r)
    case (Inl e)
    with inner show ?thesis
      by (simp add: next_event_def Let_def receive_inv_def peer_state_def split: if_splits)
  next
    case (Inr e)
    moreover from Inr inner have "peer_state c \<noteq> Error"
      by (auto simp: next_event_inner.simps peer_state_return_def)
    ultimately have "receive_ok d" using inner inv by (auto simp: receive_inv_def dest: next_event_inner_ok)
    with Inr inner show ?thesis by (simp add: next_event_def Let_def receive_inv_def)
  qed
qed

section \<open>The sending side\<close>

definition writer_aligned :: "State \<Rightarrow> Framing option \<Rightarrow> bool" where
  "writer_aligned s w \<longleftrightarrow>
     (if w = None then s \<noteq> SendBody else s = SendBody \<or> s = SwitchedProtocol \<and> w = Some (F_Fixed 0))"

definition send_inv :: "Connection \<Rightarrow> bool" where
  "send_inv c \<longleftrightarrow> local_state c \<noteq> Error \<and> writer_aligned (local_state c) (writer c)"

lemma send_inv_kept: "local_side_kept c c' \<Longrightarrow> send_inv c \<Longrightarrow> send_inv c'"
  by (auto simp: send_inv_def local_side_kept_def writer_aligned_def side_kept_def split: if_splits)

lemma advance_local_Inr:
  assumes "advance_local e c = (Inr u, c')"
  obtains st t where "process_event (conn_state c) (conn_role c) e = (Inr (), st)"
    and "c' = c\<lparr>conn_state := st\<rparr>" and "direct_contract (conn_role c) (local_state c) e t"
    and "side_kept t (local_state c')"
proof -
  from assms obtain st where ev: "process_event (conn_state c) (conn_role c) e = (Inr (), st)"
    and c': "c' = c\<lparr>conn_state := st\<rparr>"
    by (auto simp: advance_local_def split: prod.splits)
  from own_event [OF ev] obtain t where "direct_contract (conn_role c) (state (conn_state c) (conn_role c)) e t"
    and "side_kept t (state st (conn_role c))" .
  with ev c' that show thesis by (simp add: local_state_def)
qed

lemma advance_local_Inl: "advance_local e c = (Inl err, c') \<Longrightarrow> c' = c"
  by (auto simp: advance_local_def map_err_def dest!: process_event_Inl split: prod.splits sum.splits)

text \<open>Every failed sending call leaves the connection exactly as it was.\<close>

lemma failed_send:
  "send_request q c = (Inl err, c') \<Longrightarrow> c' = c"
  "send_informational_response i c = (Inl err, c') \<Longrightarrow> c' = c"
  "send_response r c = (Inl err, c') \<Longrightarrow> c' = c"
  "send_data_framing n c = (Inl err, c') \<Longrightarrow> c' = c"
  "end_of_message t c = (Inl err, c') \<Longrightarrow> c' = c"
  "close c = (Inl err, c') \<Longrightarrow> c' = c"
  by (auto simp: send_request_def send_informational_response_def send_response_def send_data_framing_def
      end_of_message_def close_def Let_def and_then_Inl dest: advance_local_Inl
      split: if_splits sum.splits option.splits)

lemma failed_send_data:
  "send_data d c = (Inl err, c') \<Longrightarrow> c' = c" "send_data_parts d c = (Inl err, c') \<Longrightarrow> c' = c"
  by (auto simp: send_data_def send_data_parts_def and_then_Inl dest: failed_send)

lemma send_request_Inr:
  assumes "send_request q c = (Inr out, c')"
  obtains frame upgrades d where "conn_role c = Client" and "validate_request q = Inr ()"
    and "framing (req_headers q) (req_http_version q) = Inr frame"
    and "upgrades = (if req_http_version q = Http11 then the (upgrade_protocols (req_headers q)) else [])"
    and "advance_local (SE_Request (from_flags (as_bytes (req_method q) = bytes ''CONNECT'') (upgrades \<noteq> []))) c = (Inr (), d)"
    and "c' = (apply_persistence (req_http_version q) (req_headers q) d)
      \<lparr>request_kind := Some (from_method (as_bytes (req_method q))), writer := Some frame,
       waiting_for_continue := expects_continue (req_http_version q) (req_headers q) frame,
       continue_before_upgrade := expects_continue (req_http_version q) (req_headers q) frame \<and> upgrades \<noteq> [],
       upgrade_proposals := upgrades\<rparr>"
    and "out = serialize_request q"
proof -
  from assms obtain frame ups where 1: "conn_role c = Client" "validate_request q = Inr ()"
    "framing (req_headers q) (req_http_version q) = Inr frame" "upgrade_protocols (req_headers q) = Some ups"
    by (auto simp: send_request_def Let_def split: if_splits sum.splits)
  define upgrades where "upgrades = (if req_http_version q = Http11 then ups else [])"
  from assms 1 obtain d where 2:
    "advance_local (SE_Request (from_flags (as_bytes (req_method q) = bytes ''CONNECT'') (upgrades \<noteq> []))) c = (Inr (), d)"
    "c' = (apply_persistence (req_http_version q) (req_headers q) d)
      \<lparr>request_kind := Some (from_method (as_bytes (req_method q))), writer := Some frame,
       waiting_for_continue := expects_continue (req_http_version q) (req_headers q) frame,
       continue_before_upgrade := expects_continue (req_http_version q) (req_headers q) frame \<and> upgrades \<noteq> [],
       upgrade_proposals := upgrades\<rparr>" "out = serialize_request q"
    unfolding send_request_def Let_def upgrades_def [symmetric]
    by (simp add: and_then_Inr ok_or_def split: if_splits) (auto simp: upgrades_def)
  have "upgrades = (if req_http_version q = Http11 then the (upgrade_protocols (req_headers q)) else [])"
    by (simp add: upgrades_def 1(4))
  from that [OF 1(1-3) this 2] show thesis .
qed

lemma send_informational_response_Inr:
  assumes "send_informational_response q c = (Inr out, c')"
  obtains d where "conn_role c = Server" and "is_informational (resp_status q)"
    and "validate_headers (resp_headers q) = Inr ()" and "validate_reason (resp_reason q) = Inr ()"
    and "framing_field_count (resp_headers q) = 0"
    and "as_u16 (resp_status q) = 101 \<longrightarrow>
      \<not> continue_before_upgrade c \<and> valid_upgrade_response (resp_http_version q) (resp_headers q) c"
    and "advance_local (info_event (resp_status q)) c = (Inr (), d)"
    and "c' = (if as_u16 (resp_status q) = 100
      then d\<lparr>waiting_for_continue := False, continue_before_upgrade := False\<rparr> else d)"
    and "out = serialize_response (resp_http_version q) (resp_status q) (resp_reason q) (resp_headers q)"
  using assms unfolding send_informational_response_def Let_def info_event_def [symmetric]
  by (simp add: and_then_Inr split: if_splits sum.splits) (metis (full_types) old.unit.exhaust)+

text \<open>The fields of a final response as they are written.\<close>

definition response_headers_out :: "bool \<Rightarrow> Response \<Rightarrow> Header list \<Rightarrow> Connection \<Rightarrow> Header list" where
  "response_headers_out force_close q headers c =
     (if \<not> switches_connect (resp_status q) c
         \<and> (\<not> keep_alive (conn_state c) \<or> peer_version c \<noteq> Some Http11 \<or> resp_http_version q \<noteq> Http11
            \<or> force_close \<or> has_token headers (bytes ''connection'') (bytes ''close''))
      then set_connection_close headers else headers)"

lemma send_response_Inr:
  assumes "send_response q c = (Inr out, c')"
  obtains frame headers force_close d where "conn_role c = Server" and "\<not> is_informational (resp_status q)"
    and "validate_headers (resp_headers q) = Inr ()" and "validate_reason (resp_reason q) = Inr ()"
    and "as_u16 (resp_status q) = 204 \<or> switches_connect (resp_status q) c \<longrightarrow> framing_field_count (resp_headers q) = 0"
    and "select_response_framing (bodiless (resp_status q) c) (resp_http_version q)
      (drop_unusable_framing (resp_http_version q) (resp_headers q) c) c = Inr (frame, headers, force_close)"
    and "advance_local (decision_event (resp_status q) c) c = (Inr (), d)"
    and "c' = (apply_persistence (resp_http_version q) (response_headers_out force_close q headers c) d)
      \<lparr>writer := Some frame, waiting_for_continue := False, continue_before_upgrade := False,
       upgrade_proposals := []\<rparr>"
    and "out = serialize_response (resp_http_version q) (resp_status q) (resp_reason q)
      (response_headers_out force_close q headers c)"
proof -
  note defs = send_response_def Let_def switches_connect_def [symmetric] bodiless_def [symmetric]
    response_headers_out_def [symmetric]
  from assms have 1: "conn_role c = Server" "\<not> is_informational (resp_status q)"
    "validate_headers (resp_headers q) = Inr ()" "validate_reason (resp_reason q) = Inr ()"
    "as_u16 (resp_status q) = 204 \<or> switches_connect (resp_status q) c \<longrightarrow> framing_field_count (resp_headers q) = 0"
    unfolding defs by (auto split: if_splits sum.splits)
  let ?sel = "select_response_framing (bodiless (resp_status q) c) (resp_http_version q)
      (drop_unusable_framing (resp_http_version q) (resp_headers q) c) c"
  from assms 1 obtain frame headers fc where sel: "?sel = Inr (frame, headers, fc)"
    unfolding defs by (cases ?sel) (auto split: if_splits)
  from assms 1 sel obtain d where "advance_local (decision_event (resp_status q) c) c = (Inr (), d)"
    "c' = (apply_persistence (resp_http_version q) (response_headers_out fc q headers c) d)
      \<lparr>writer := Some frame, waiting_for_continue := False, continue_before_upgrade := False,
       upgrade_proposals := []\<rparr>"
    "out = serialize_response (resp_http_version q) (resp_status q) (resp_reason q) (response_headers_out fc q headers c)"
    unfolding defs by (auto simp: and_then_Inr split: if_splits)
  from that [OF 1 sel this] show thesis .
qed

lemma direct_contract_not_Error: "direct_contract r s e t \<Longrightarrow> t \<noteq> Error"
  by (auto simp: direct_contract.simps)

lemma send_request_inv:
  assumes "send_request q c = (Inr out, c')"
  shows "send_inv c'"
proof -
  from assms obtain frame props d where adv: "advance_local (SE_Request props) c = (Inr (), d)"
    and c': "writer c' = Some frame" "local_state c' = local_state (apply_persistence (req_http_version q) (req_headers q) d)"
    by (rule send_request_Inr) auto
  from adv obtain t where "direct_contract (conn_role c) (local_state c) (SE_Request props) t" "side_kept t (local_state d)"
    by (rule advance_local_Inr) auto
  then have "local_state d = SendBody" by (auto simp: direct_contract.simps side_kept_SendBody)
  with side_kept_persistence(2) [of d "req_http_version q" "req_headers q"] c' show ?thesis
    by (simp add: send_inv_def writer_aligned_def side_kept_SendBody)
qed

lemma send_response_inv:
  assumes "send_response q c = (Inr out, c')"
  shows "send_inv c'"
proof -
  from assms obtain frame headers fc d where
    sel: "select_response_framing (bodiless (resp_status q) c) (resp_http_version q)
      (drop_unusable_framing (resp_http_version q) (resp_headers q) c) c = Inr (frame, headers, fc)"
    and adv: "advance_local (decision_event (resp_status q) c) c = (Inr (), d)"
    and c': "writer c' = Some frame"
      "local_state c' = local_state (apply_persistence (resp_http_version q) (response_headers_out fc q headers c) d)"
    by (rule send_response_Inr) simp
  from adv obtain t where t: "direct_contract (conn_role c) (local_state c) (decision_event (resp_status q) c) t"
    and d: "side_kept t (local_state d)"
    by (rule advance_local_Inr) auto
  from side_kept_trans [OF d side_kept_persistence(2)] have "side_kept t (local_state c')" by (simp add: c')
  with direct_contract_decision [OF t]
  have "local_state c' = (if switches_connect (resp_status q) c then SwitchedProtocol else SendBody)"
    by (simp add: side_kept_SendBody side_kept_Switched split: if_splits)
  moreover have "switches_connect (resp_status q) c \<Longrightarrow> frame = F_Fixed 0"
    using sel by (simp add: select_response_framing_def bodiless_def)
  ultimately show ?thesis using c'(1) by (simp add: send_inv_def writer_aligned_def)
qed

lemma send_informational_response_inv:
  assumes "send_informational_response q c = (Inr out, c')" and "send_inv c"
  shows "send_inv c'"
proof -
  from assms(1) obtain d where adv: "advance_local (info_event (resp_status q)) c = (Inr (), d)"
    and c': "writer c' = writer d" "local_state c' = local_state d"
    by (rule send_informational_response_Inr) simp
  from adv obtain t where t: "direct_contract (conn_role c) (local_state c) (info_event (resp_status q)) t"
    and d: "side_kept t (local_state d)" "writer d = writer c"
    by (rule advance_local_Inr) auto
  from t have "local_state c = SendResponse"
    by (cases "as_u16 (resp_status q) = 101") (auto simp: info_event_def direct_contract.simps)
  with assms(2) have "writer c = None" by (simp add: send_inv_def writer_aligned_def split: if_splits)
  with c' d direct_contract_info [OF t] direct_contract_not_Error [OF t] show ?thesis
    by (simp add: send_inv_def writer_aligned_def side_kept_def)
qed

lemma send_data_framing_inv:
  assumes "send_data_framing n c = (Inr out, c')"
  shows "send_inv c'"
proof -
  from assms obtain d f where adv: "advance_local SE_Data c = (Inr (), d)"
    and c': "c' = d\<lparr>writer := Some f, waiting_for_continue := False\<rparr>"
    by (auto simp: send_data_framing_def and_then_Inr split: option.splits sum.splits)
  from adv obtain t where "direct_contract (conn_role c) (local_state c) SE_Data t" "side_kept t (local_state d)"
    by (rule advance_local_Inr) auto
  then show ?thesis by (auto simp: c' send_inv_def writer_aligned_def direct_contract.simps side_kept_SendBody)
qed

lemma ended_inv:
  assumes "advance_local e c = (Inr (), d)" and "e = SE_EndOfMessage \<or> e = SE_ConnectionClosed"
  shows "local_state d \<noteq> SendBody \<and> local_state d \<noteq> Error"
  using assms(1)
proof (rule advance_local_Inr)
  fix st t
  assume "direct_contract (conn_role c) (local_state c) e t" and "side_kept t (local_state d)"
  with assms(2) show ?thesis by (auto simp: direct_contract.simps side_kept_def)
qed

lemma end_of_message_inv: "end_of_message t c = (Inr out, c') \<Longrightarrow> send_inv c'"
  by (auto simp: end_of_message_def and_then_Inr send_inv_def writer_aligned_def dest: ended_inv
      split: option.splits sum.splits)

lemma close_inv: "close c = (Inr out, c') \<Longrightarrow> send_inv c'"
  by (auto simp: close_def and_then_Inr send_inv_def writer_aligned_def dest: ended_inv)

lemma state_new_Idle [simp]: "state state_new r = Idle"
  by (cases r) (simp_all add: state_new_def)

lemma start_next_cycle_cases:
  "start_next_cycle c =
     (if client (conn_state c) = Done \<and> server (conn_state c) = Done \<and> keep_alive (conn_state c)
         \<and> is_empty (proposals (conn_state c))
      then (Inr (), c\<lparr>conn_state := state_new, conn_reader := R_Head, writer := None, progress := None,
             request_kind := None, upgrade_proposals := [], waiting_for_continue := False,
             continue_before_upgrade := False\<rparr>)
      else (Inl (local_err ''connection is not reusable''), c))"
  by (simp add: start_next_cycle_def state_start_next_cycle_def)

section \<open>The invariant of every reachable connection\<close>

definition connection_inv :: "Connection \<Rightarrow> bool" where
  "connection_inv c \<longleftrightarrow>
     legal_configuration (conn_state c) \<and> buffer_wf (input c) \<and> receive_inv c \<and> send_inv c"

lemma connection_inv_new: "connection_inv (connection_new r l)"
  by (simp add: connection_inv_def connection_new_def legal_state_new receive_inv_def receive_ok_def
      send_inv_def peer_state_def local_state_def reader_aligned_def writer_aligned_def)

lemma legal_refined: "lifecycle_refined c c' \<Longrightarrow> legal_configuration (conn_state c) \<Longrightarrow> legal_configuration (conn_state c')"
  by (auto simp: lifecycle_refined_def intro: run_preserves legal_step)

lemma receive_data_inv:
  assumes "buffer_wf (input c)"
  shows "receive_inv c \<Longrightarrow> receive_inv (snd (receive_data d c))" "send_inv c \<Longrightarrow> send_inv (snd (receive_data d c))"
  using assms
  by (auto simp: receive_data_def receive_inv_def receive_ok_def send_inv_def as_slice_extend
      intro: reader_ok_append progress_ok_append)

lemma send_call_receive_inv: "is_send op \<Longrightarrow> receive_inv c \<Longrightarrow> receive_inv (api_call hp op c)"
  by (rule receive_inv_kept [OF sending.send_call_R])

lemma sent_inv:
  assumes "send_inv c" and "\<And>e c'. x = (Inl e, c') \<Longrightarrow> c' = c" and "\<And>y c'. x = (Inr y, c') \<Longrightarrow> send_inv c'"
  shows "send_inv (snd x)"
proof (cases x)
  case (Pair r c')
  with assms show ?thesis by (cases r) auto
qed

lemma send_data_inv:
  "send_data d c = (Inr x, c') \<Longrightarrow> send_inv c'" "send_data_parts d c = (Inr y, c') \<Longrightarrow> send_inv c'"
  by (auto simp: send_data_def send_data_parts_def and_then_Inr dest: send_data_framing_inv)

lemma send_call_send_inv:
  assumes "is_send op" and inv: "send_inv c"
  shows "send_inv (api_call hp op c)"
proof -
  note sent = sent_inv [OF inv]
  have "send_inv (snd (send_request q c))" for q by (rule sent [OF failed_send(1) send_request_inv])
  moreover have "send_inv (snd (send_informational_response q c))" for q
    by (rule sent [OF failed_send(2) send_informational_response_inv [OF _ inv]])
  moreover have "send_inv (snd (send_response q c))" for q by (rule sent [OF failed_send(3) send_response_inv])
  moreover have "send_inv (snd (send_data d c))" for d by (rule sent [OF failed_send_data(1) send_data_inv(1)])
  moreover have "send_inv (snd (send_data_parts d c))" for d by (rule sent [OF failed_send_data(2) send_data_inv(2)])
  moreover have "send_inv (snd (send_data_framing n c))" for n by (rule sent [OF failed_send(4) send_data_framing_inv])
  moreover have "send_inv (snd (end_of_message t c))" for t by (rule sent [OF failed_send(5) end_of_message_inv])
  moreover have "send_inv (snd (close c))" by (rule sent [OF failed_send(6) close_inv])
  ultimately show ?thesis using assms(1) by (cases op) simp_all
qed

lemma next_event_send_inv:
  assumes "httparse_ok hp" and "send_inv c"
  shows "send_inv (snd (next_event hp c))"
  using receiving.next_event_R [OF assms(1) prod.collapse [symmetric]] assms(2) by (rule send_inv_kept)

lemma start_next_cycle_inv:
  "receive_inv c \<Longrightarrow> receive_inv (snd (start_next_cycle c))" "send_inv c \<Longrightarrow> send_inv (snd (start_next_cycle c))"
  unfolding start_next_cycle_cases
  by (auto simp: receive_inv_def receive_ok_def send_inv_def peer_state_def local_state_def
      reader_aligned_def writer_aligned_def split: if_splits)

lemma connection_inv_call:
  assumes ok: "httparse_ok hp" and inv: "connection_inv c"
  shows "connection_inv (api_call hp op c)"
proof -
  from inv have c: "buffer_wf (input c)" "receive_inv c" "send_inv c" by (simp_all add: connection_inv_def)
  have "legal_configuration (conn_state (api_call hp op c))"
    using legal_refined [OF lifecycle.api_call_R [OF ok]] inv by (simp add: connection_inv_def)
  moreover have "buffer_wf (input (api_call hp op c))"
    using buffering.api_call_R [OF ok, of c op] c(1) by (simp add: keeps_buffer_wf_def)
  moreover have "receive_inv (api_call hp op c) \<and> send_inv (api_call hp op c)"
  proof (cases "is_send op")
    case True
    with c send_call_receive_inv send_call_send_inv show ?thesis by blast
  next
    case False
    then show ?thesis
      using next_event_inv [OF c(2)] next_event_send_inv [OF ok c(3)] receive_data_inv [OF c(1)]
        start_next_cycle_inv c(2,3)
      by (cases op) simp_all
  qed
  ultimately show ?thesis by (simp add: connection_inv_def)
qed

lemma connection_inv_calls: "httparse_ok hp \<Longrightarrow> connection_inv c \<Longrightarrow> connection_inv (api_calls hp ops c)"
  by (rule api_calls_preserve) (auto intro: connection_inv_call)

end
