(* ===== verification/Sample_Parser.thy ===== *)
theory Sample_Parser
  imports Head_Parse
begin

text \<open>
  A small concrete head parser with the interface of \<open>httparse\<close>.  It is not a model of that library:
  it accepts only plain lines and exists to show that the hypotheses on the library can hold, and to
  run the connection on concrete bytes.  Its errors are \<open>True\<close> for too many headers and \<open>False\<close> for
  everything else.
\<close>

definition sample_lines :: "u8 list \<Rightarrow> u8 list list" where
  "sample_lines section =
     filter (\<lambda>l. l \<noteq> [])
       (map (\<lambda>l. if slice_last l = Some CR then butlast l else l) (split_on (\<lambda>b. b = LF) section))"

definition sample_field :: "u8 list \<Rightarrow> Header option" where
  "sample_field l =
     (case split_at_byte l 0x3a of None \<Rightarrow> None | Some (name, value) \<Rightarrow> Some (name, trim_ows value))"

definition sample_fields :: "u8 list list \<Rightarrow> usize \<Rightarrow> bool + Header list" where
  "sample_fields ls slots =
     (case collect_options (map sample_field ls) of
        None \<Rightarrow> Inl False
      | Some hs \<Rightarrow> if length hs > slots then Inl True else Inr hs)"

definition sample_version :: "u8 list \<Rightarrow> u8 option" where
  "sample_version v =
     (if v = bytes ''HTTP/1.1'' then Some 1 else if v = bytes ''HTTP/1.0'' then Some 0 else None)"

definition sample_parse_request :: "u8 list \<Rightarrow> usize \<Rightarrow> bool + (usize \<times> hp_request) option" where
  "sample_parse_request d slots =
     (case fst (poll progress_default d True) of
        None \<Rightarrow> Inr None
      | Some e \<Rightarrow>
          (case sample_lines (take e d) of
             [] \<Rightarrow> Inl False
           | l # ls \<Rightarrow>
               (case (split_on (\<lambda>b. b = SP) l, sample_fields ls slots) of
                  ([method, target, vsn], Inr hs) \<Rightarrow>
                    Inr (Some (e, \<lparr>hp_req_version = sample_version vsn, hp_req_method = Some method,
                                   hp_req_path = Some target, hp_req_headers = hs\<rparr>))
                | (_, Inl error) \<Rightarrow> Inl error
                | _ \<Rightarrow> Inl False)))"

definition sample_parse_response :: "u8 list \<Rightarrow> usize \<Rightarrow> bool + (usize \<times> hp_response) option" where
  "sample_parse_response d slots =
     (case fst (poll progress_default d True) of
        None \<Rightarrow> Inr None
      | Some e \<Rightarrow>
          (case sample_lines (take e d) of
             [] \<Rightarrow> Inl False
           | l # ls \<Rightarrow>
               (case (parse_number (take 3 (drop 9 l)) 10, sample_fields ls slots) of
                  (Some code, Inr hs) \<Rightarrow>
                    Inr (Some (e, \<lparr>hp_resp_version = sample_version (take 8 l),
                                   hp_resp_code = Some (of_nat code), hp_resp_headers = hs\<rparr>))
                | (_, Inl error) \<Rightarrow> Inl error
                | _ \<Rightarrow> Inl False)))"

definition sample_parse_headers :: "u8 list \<Rightarrow> usize \<Rightarrow> bool + (usize \<times> Header list) option" where
  "sample_parse_headers d slots =
     (case fst (poll progress_default d False) of
        None \<Rightarrow> Inr None
      | Some e \<Rightarrow>
          (case sample_fields (sample_lines (take e d)) slots of
             Inl error \<Rightarrow> Inl error
           | Inr hs \<Rightarrow> Inr (Some (e, hs))))"

definition sample_httparse :: "bool httparse" where
  "sample_httparse =
     \<lparr>hp_too_many_headers = True,
      hp_display = (\<lambda>error. if error then ''too many headers'' else ''invalid input''),
      hp_parse_request = sample_parse_request,
      hp_parse_response = sample_parse_response,
      hp_parse_headers = sample_parse_headers\<rparr>"

lemma sample_fields_length: "sample_fields ls slots = Inr hs \<Longrightarrow> length hs \<le> slots"
  by (auto simp: sample_fields_def split: option.splits if_splits)

lemma poll_default_bounds: "fst (poll progress_default d skip) = Some e \<Longrightarrow> 0 < e \<and> e \<le> length d"
  using poll_Some_bounds [OF progress_wf_default, of d skip e] by (cases "poll progress_default d skip") auto

lemma sample_httparse_ok: "httparse_ok sample_httparse"
proof -
  have "0 < e \<and> e \<le> length d \<and> length (hp_req_headers p) \<le> n"
    if "sample_parse_request d n = Inr (Some (e, p))" for d n e p
    using that poll_default_bounds [of d True e]
    by (auto simp: sample_parse_request_def dest!: sample_fields_length
        split: option.splits list.splits prod.splits sum.splits)
  moreover have "0 < e \<and> e \<le> length d \<and> length (hp_resp_headers p) \<le> n"
    if "sample_parse_response d n = Inr (Some (e, p))" for d n e p
    using that poll_default_bounds [of d True e]
    by (auto simp: sample_parse_response_def dest!: sample_fields_length
        split: option.splits list.splits prod.splits sum.splits)
  moreover have "0 < e \<and> e \<le> length d \<and> length hs \<le> n"
    if "sample_parse_headers d n = Inr (Some (e, hs))" for d n e hs
    using that poll_default_bounds [of d False e]
    by (auto simp: sample_parse_headers_def dest!: sample_fields_length
        split: option.splits sum.splits)
  ultimately show ?thesis by (auto simp: httparse_ok_def sample_httparse_def)
qed

end
