(* ===== verification/Receiving.thy ===== *)
theory Receiving
  imports Connection_Inv Sample_Parser
begin

text \<open>
  What \<^verbatim>\<open>next_event\<close> guarantees: which unread bytes a call can leave behind and when it asks for more, that
  an error is permanent, what stays paused, what holds of a request it reports, and how bodies of
  known and unknown length are delivered.
\<close>

section \<open>Asking for data\<close>

abbreviation asks_within_limit :: "NextEvent remote_result \<Rightarrow> bool" where
  "asks_within_limit r \<equiv>
     fst r = Inr NE_NeedData \<longrightarrow>
       \<not> eof (snd r) \<and> length (unread (snd r)) \<le> max_head_bytes (limits (snd r)) + 1"

lemma need_data_or_eof_asks: "length (unread c) \<le> max_head_bytes (limits c) + 1 \<Longrightarrow> asks_within_limit (need_data_or_eof m c)"
  by (simp add: need_data_or_eof_def)

lemma wait_for_section_asks: "asks_within_limit (wait_for_section skip c)"
  by (auto simp: wait_for_section_def Let_def need_data_or_eof_def)

lemma fst_and_then_Inr: "fst (and_then m f) = Inr y \<longleftrightarrow> (\<exists>x s. m = (Inr x, s) \<and> fst (f x s) = Inr y)"
  by (auto simp: and_then_def split: prod.splits sum.splits)

lemma accept_response_does_not_ask: "fst (accept_response r c) \<noteq> Inr NE_NeedData"
  by (cases "is_informational (resp_status r)")
     (auto simp: accept_response_info accept_response_final fst_and_then_Inr split: sum.splits)

lemma accept_request_does_not_ask: "fst (accept_request q c) \<noteq> Inr NE_NeedData"
  by (simp add: accept_request_def Let_def fst_and_then_Inr split: sum.split)

lemma peer_events_do_not_ask:
  "fst (peer_data d s e c) \<noteq> Inr NE_NeedData" "fst (finish_peer t c) \<noteq> Inr NE_NeedData"
  "fst (peer_closed c) \<noteq> Inr NE_NeedData" "fst (accept_request q c) \<noteq> Inr NE_NeedData"
  "fst (accept_response r c) \<noteq> Inr NE_NeedData"
  by (simp_all add: peer_data_def finish_peer_def peer_closed_def fst_and_then_Inr
      accept_response_does_not_ask accept_request_does_not_ask)

lemma read_head_asks: "asks_within_limit (read_head hp c)"
  using wait_for_section_asks peer_events_do_not_ask
  by (auto simp: read_head_def Let_def split: prod.splits sum.splits option.splits)

lemma read_trailers_asks: "asks_within_limit (read_trailers hp c)"
  using wait_for_section_asks peer_events_do_not_ask
  by (auto simp: read_trailers_def Let_def split: prod.splits sum.splits option.splits)

lemma incomplete_line_bound: "incomplete_line_len d 0 \<le> n \<Longrightarrow> length d \<le> n + 1"
  by (auto simp: incomplete_line_len_def split: if_splits)

lemma chunk_size_step_asks: "chunk_size_step n c = Inl r \<Longrightarrow> asks_within_limit r"
  using incomplete_line_bound [of "unread c" "max_head_bytes (limits c)"]
  by (auto simp: chunk_size_step_def chunk_line_too_long_def need_data_or_eof_def Let_def
      split: option.splits if_splits)

lemma chunk_data_end_step_asks: "chunk_data_end_step c = Inl r \<Longrightarrow> asks_within_limit r"
  by (auto simp: chunk_data_end_step_def need_data_or_eof_def split: if_splits)

lemma chunk_data_asks: "0 < n \<Longrightarrow> asks_within_limit (chunk_data n f c)"
  using peer_events_do_not_ask by (auto simp: chunk_data_def Let_def need_data_or_eof_def split: prod.splits)

lemma read_fixed_asks: "asks_within_limit (read_fixed n c)"
  using peer_events_do_not_ask by (auto simp: read_fixed_def Let_def need_data_or_eof_def split: prod.splits)

lemma read_close_delimited_asks: "asks_within_limit (read_close_delimited c)"
  using peer_events_do_not_ask by (auto simp: read_close_delimited_def Let_def split: prod.splits)

lemma peer_state_return_asks: "peer_state_return c = Some r \<Longrightarrow> asks_within_limit r"
  using peer_events_do_not_ask by (auto simp: peer_state_return_def split: State.State.splits if_splits)

lemma inner_asks:
  "receive_ok c \<Longrightarrow> asks_within_limit (next_event_inner hp c)"
  "receive_ok c \<Longrightarrow> conn_reader c = R_Chunked k \<Longrightarrow> asks_within_limit (read_chunked hp k c)"
proof (induction hp c and hp k c rule: next_event_inner_read_chunked.induct)
  case (1 hp c)
  show ?case
  proof (cases "peer_state_return c")
    case None
    with 1 show ?thesis
      using read_head_asks [of hp c] read_fixed_asks [of _ c] read_close_delimited_asks [of c]
      by (simp add: next_event_inner.simps [of hp c] split: Reader.splits)
  next
    case (Some r)
    with peer_state_return_asks show ?thesis by (simp add: next_event_inner.simps [of hp c])
  qed
next
  case (2 hp k c)
  note unfold = read_chunked.simps
  show ?case
  proof (cases k)
    case (Ck_Size n)
    with 2 chunk_size_step_asks [of n c] chunk_size_step_ok(2) [OF "2.prems"(1), of n] show ?thesis
      by (cases "chunk_size_step n c") (simp_all add: unfold)
  next
    case Ck_DataEnd
    with 2 chunk_data_end_step_asks [of c] chunk_data_end_step_ok(2) [OF "2.prems"(1)] show ?thesis
      by (cases "chunk_data_end_step c") (simp_all add: unfold)
  next
    case (Ck_Data n f)
    with "2.prems" have "0 < n" by (simp add: receive_ok_def)
    with chunk_data_asks [of n f c] Ck_Data show ?thesis by (simp add: unfold)
  next
    case Ck_Trailers
    with read_trailers_asks [of hp c] show ?thesis by (simp add: unfold)
  qed
qed

lemma next_event_Inr: "next_event hp c = (Inr e, c') \<longleftrightarrow> next_event_inner hp c = (Inr e, c')"
  by (auto simp: next_event_def Let_def split: prod.splits)

lemma Error_fails: "peer_state c = Error \<Longrightarrow> next_event_inner hp c = (Inl (remote_err ''peer state is ERROR'' None), c)"
  by (simp add: next_event_inner.simps peer_state_return_def)

lemma next_event_asks:
  assumes "httparse_ok hp" and "connection_inv c" and "next_event hp c = (Inr NE_NeedData, c')"
  shows "\<not> eof c \<and> length (unread c') \<le> max_head_bytes (limits c) + 1"
proof -
  from assms(3) have inner: "next_event_inner hp c = (Inr NE_NeedData, c')" by (simp add: next_event_Inr)
  then have "peer_state c \<noteq> Error" using Error_fails [of c hp] by auto
  with assms(2) have "receive_ok c" by (simp add: connection_inv_def receive_inv_def)
  from inner_asks(1) [OF this, of hp] inner have "\<not> eof c'" "length (unread c') \<le> max_head_bytes (limits c') + 1"
    by simp_all
  with frame.next_event_R [OF assms(1,3)] show ?thesis by (auto simp: same_frame_def)
qed

section \<open>Errors are permanent\<close>

lemma next_event_Inl:
  assumes "httparse_ok hp" and "next_event hp c = (Inl e, c')"
  shows "peer_state c' = Error \<and> (conn_role c = Client \<longrightarrow> suggested_status_code e = None)"
proof -
  obtain r d where inner: "next_event_inner hp c = (r, d)" by fastforce
  have "conn_role d = conn_role c" using frame.receive_R(1) [OF assms(1) inner] by (simp add: same_frame_def)
  with assms(2) inner show ?thesis
    by (cases r) (auto simp: next_event_def Let_def peer_state_def)
qed

lemma peer_Error_kept:
  assumes "httparse_ok hp" and "peer_state c = Error"
  shows "peer_state (api_calls hp ops c) = Error"
  using lifecycle.api_calls_R [OF assms(1), of c ops] assms(2) error_run
  by (auto simp: lifecycle_refined_def peer_state_def)

lemma Error_next_event: "peer_state c = Error \<Longrightarrow> isl (fst (next_event hp c))"
  by (simp add: next_event_def Error_fails)

section \<open>A switched connection keeps its bytes\<close>

lemma Switched_next_event: "peer_state c = SwitchedProtocol \<Longrightarrow> next_event hp c = (Inr NE_Paused, c)"
  by (simp add: next_event_Inr next_event_inner.simps peer_state_return_def)

definition received :: "api_op list \<Rightarrow> u8 list" where
  "received ops = concat (map (\<lambda>op. case op of A_ReceiveData d \<Rightarrow> d | _ \<Rightarrow> []) ops)"

text \<open>What a connection takes in: everything up to the empty arrival that marks the end of input, behind
  which further bytes are refused.\<close>

definition taken_in :: "bool \<Rightarrow> api_op list \<Rightarrow> u8 list" where
  "taken_in ended ops = (if ended then [] else received (takeWhile (\<lambda>op. op \<noteq> A_ReceiveData []) ops))"

lemma taken_in_Nil [simp]: "taken_in ended [] = []"
  by (simp add: taken_in_def received_def)

lemma taken_in_Cons: "taken_in ended (op # ops) = taken_in ended [op] @ taken_in (ended \<or> op = A_ReceiveData []) ops"
  by (auto simp: taken_in_def received_def)

lemma Switched_call:
  assumes "buffer_wf (input c)" and "peer_state c = SwitchedProtocol"
  shows "peer_state (api_call hp op c) = SwitchedProtocol \<and> buffer_wf (input (api_call hp op c))
    \<and> unread (api_call hp op c) = unread c @ taken_in (eof c) [op]
    \<and> eof (api_call hp op c) = (eof c \<or> op = A_ReceiveData [])"
proof (cases "is_send op")
  case True
  then have "taken_in (eof c) [op] = []" "op \<noteq> A_ReceiveData []" by (cases op; simp add: taken_in_def received_def)+
  with sending.send_call_R [OF True, of c hp] assms show ?thesis
    by (simp add: peer_side_kept_def side_kept_Switched)
next
  case False
  have "\<not> (client (conn_state c) = Done \<and> server (conn_state c) = Done)"
    using assms(2) by (cases "conn_role c") (auto simp: peer_state_def)
  with False assms show ?thesis
    by (cases op)
       (auto simp: taken_in_def received_def receive_data_def Switched_next_event start_next_cycle_cases as_slice_extend)
qed

lemma Switched_calls:
  assumes "buffer_wf (input c)" and "peer_state c = SwitchedProtocol"
  shows "peer_state (api_calls hp ops c) = SwitchedProtocol \<and> unread (api_calls hp ops c) = unread c @ taken_in (eof c) ops
    \<and> eof (api_calls hp ops c) = (eof c \<or> A_ReceiveData [] \<in> set ops)"
  using assms
proof (induction ops arbitrary: c)
  case (Cons op ops)
  note step = Switched_call [OF Cons.prems, of hp op]
  with Cons.IH [of "api_call hp op c"] show ?case by (auto simp: taken_in_Cons [of _ op ops])
qed simp

section \<open>Reported requests\<close>

abbreviation reports_request :: "NextEvent remote_result \<Rightarrow> Request \<Rightarrow> bool" where
  "reports_request r q \<equiv> fst r = Inr (NE_Event (Ev_Request q))"

lemma body_events_are_no_requests:
  "\<not> reports_request (peer_data d s e c) q" "\<not> reports_request (finish_peer t c) q"
  "\<not> reports_request (peer_closed c) q" "\<not> reports_request (need_data_or_eof m c) q"
  by (auto simp: peer_data_def finish_peer_def peer_closed_def need_data_or_eof_def fst_and_then_Inr)

lemma wait_is_no_request: "\<not> reports_request (wait_for_section skip c) q"
  by (simp add: wait_for_section_def Let_def body_events_are_no_requests)

lemma response_is_no_request: "\<not> reports_request (accept_response r c) q"
  by (cases "is_informational (resp_status r)")
     (auto simp: accept_response_info accept_response_final fst_and_then_Inr split: sum.splits)

lemmas no_requests = body_events_are_no_requests wait_is_no_request response_is_no_request

lemma chunk_steps_no_request:
  "chunk_size_step n c = Inl r \<Longrightarrow> \<not> reports_request r q"
  "chunk_size_step n c = Inr c' \<Longrightarrow> conn_reader c' \<noteq> R_Head"
  "chunk_data_end_step c = Inl r \<Longrightarrow> \<not> reports_request r q"
  "chunk_data_end_step c = Inr c' \<Longrightarrow> conn_reader c' \<noteq> R_Head"
  using no_requests
  by (auto simp: chunk_size_step_def chunk_data_end_step_def chunk_line_too_long_def Let_def
      split: option.splits if_splits)

lemma body_readers_no_request:
  "\<not> reports_request (chunk_data n f c) q" "\<not> reports_request (read_fixed n c) q"
  "\<not> reports_request (read_close_delimited c) q" "\<not> reports_request (read_trailers hp c) q"
  using no_requests
  by (auto simp: chunk_data_def read_fixed_def read_close_delimited_def read_trailers_def Let_def
      split: prod.splits sum.splits option.splits)

lemma peer_state_return_no_request: "peer_state_return c = Some r \<Longrightarrow> \<not> reports_request r q"
  using no_requests by (auto simp: peer_state_return_def split: State.State.splits if_splits)

lemma body_is_no_request:
  "conn_reader c \<noteq> R_Head \<Longrightarrow> \<not> reports_request (next_event_inner hp c) q"
  "\<not> reports_request (read_chunked hp k c) q"
proof (induction hp c and hp k c rule: next_event_inner_read_chunked.induct)
  case (1 hp c)
  then show ?case
    using peer_state_return_no_request [of c] body_readers_no_request
    by (simp add: next_event_inner.simps [of hp c] split: option.splits Reader.splits)
next
  case (2 hp k c)
  then show ?case
    using chunk_steps_no_request
    by (auto simp: read_chunked.simps body_readers_no_request split: Chunk.splits sum.splits)
qed

lemma reported_request:
  assumes "next_event hp c = (Inr (NE_Event (Ev_Request q)), c')"
  shows "read_head hp c = (Inr (NE_Event (Ev_Request q)), c')"
proof -
  from assms have inner: "next_event_inner hp c = (Inr (NE_Event (Ev_Request q)), c')"
    by (simp add: next_event_Inr)
  then have "conn_reader c = R_Head" using body_is_no_request(1) [of c hp q] by auto
  moreover from inner peer_state_return_no_request [of c "(Inr (NE_Event (Ev_Request q)), c')" q]
  have "peer_state_return c = None" by (auto simp: next_event_inner.simps split: option.splits)
  ultimately show ?thesis using inner by (simp add: next_event_inner.simps)
qed

lemma accept_request_Inr:
  assumes "accept_request q c = (Inr e, c')"
  obtains frame where "e = NE_Event (Ev_Request q)" and "valid_request_target (req_target q)"
    and "valid_host (req_http_version q) (req_headers q)"
    and "framing (req_headers q) (req_http_version q) = Inr frame"
    and "conn_reader c' = reader frame" and "request_kind c' = Some (from_method (as_bytes (req_method q)))"
    and "peer_version c' = Some (req_http_version q)"
    and "waiting_for_continue c' = expects_continue (req_http_version q) (req_headers q) frame"
    and "unread c' = unread c"
proof -
  from assms obtain frame where ok: "valid_request_target (req_target q)"
    "valid_host (req_http_version q) (req_headers q)" "framing (req_headers q) (req_http_version q) = Inr frame"
    by (auto simp: accept_request_def Let_def split: if_splits sum.splits)
  from assms ok obtain ev d where adv: "advance_peer ev c = (Inr (), d)"
    and e: "e = NE_Event (Ev_Request q)"
    and c': "conn_reader c' = reader frame" "request_kind c' = Some (from_method (as_bytes (req_method q)))"
      "peer_version c' = Some (req_http_version q)" "input c' = input d"
      "waiting_for_continue c' = expects_continue (req_http_version q) (req_headers q) frame"
    unfolding accept_request_def Let_def by (auto simp: and_then_Inr)
  from adv have "input d = input c" by (auto simp: advance_peer_def split: prod.splits)
  with e ok c' that [of frame] show thesis by simp
qed

lemma read_head_request:
  assumes "read_head hp c = (Inr (NE_Event (Ev_Request q)), c')"
  obtains d n where "conn_role c = Server" and "section_ready True c = (True, d)"
    and "parse_request_head hp (unread d) (max_head_bytes (limits d)) (max_header_count (limits d)) = Inr (Some (n, q))"
    and "accept_request q (d\<lparr>input := buffer_consume (input d) n, progress := None\<rparr>) = (Inr (NE_Event (Ev_Request q)), c')"
proof -
  obtain ready d where sr: "section_ready True c = (ready, d)" by fastforce
  have nw: "wait_for_section True d \<noteq> (Inr (NE_Event (Ev_Request q)), c')"
    using wait_is_no_request [of True d q] by (metis fst_conv)
  have nr: "accept_response r e \<noteq> (Inr (NE_Event (Ev_Request q)), c')" for r e
    using response_is_no_request [of r e q] by (metis fst_conv)
  from assms sr nw nr obtain n q' where role: "conn_role c = Server" and ready: ready
    and parse: "parse_request_head hp (unread d) (max_head_bytes (limits d)) (max_header_count (limits d)) = Inr (Some (n, q'))"
    and acc: "accept_request q' (d\<lparr>input := buffer_consume (input d) n, progress := None\<rparr>) = (Inr (NE_Event (Ev_Request q)), c')"
    by (auto simp: read_head_def Let_def split: if_splits sum.splits option.splits)
  from accept_request_Inr [OF acc] have "q' = q" by blast
  with role sr ready parse acc that show thesis by simp
qed

section \<open>Properties of receiving\<close>

text \<open>C16. When \<^verbatim>\<open>next_event\<close> fails, the peer is poisoned for good: whatever calls follow, every later
  \<^verbatim>\<open>next_event\<close> fails as well.  A client is never given a status code to answer with.\<close>

theorem errors_poison_the_peer:
  assumes "httparse_ok hp" and "next_event hp c = (Inl e, c')"
  shows "peer_state (api_calls hp ops c') = Error \<and> isl (fst (next_event hp (api_calls hp ops c')))
    \<and> (conn_role c = Client \<longrightarrow> suggested_status_code e = None)"
  using next_event_Inl [OF assms] peer_Error_kept [OF assms(1), of c' ops] Error_next_event by blast

definition sample_limits :: Limits where
  "sample_limits = \<lparr>max_head_bytes = 64, max_header_count = 8\<rparr>"

definition broken_server :: Connection where
  "broken_server = snd (receive_data (bytes ''x'' @ CRLF @ CRLF) (connection_new Server sample_limits))"

theorem errors_poison_the_peer_witness:
  "peer_state (api_calls sample_httparse [A_Close] (snd (next_event sample_httparse broken_server))) = Error"
proof -
  have "isl (fst (next_event sample_httparse broken_server))" by code_simp
  then obtain e c' where step: "next_event sample_httparse broken_server = (Inl e, c')"
    by (metis isl_def prod.collapse)
  from errors_poison_the_peer [OF sample_httparse_ok step, of "[A_Close]"] step show ?thesis by simp
qed

text \<open>C27. A connection that asks for more data holds at most one byte more than the configured head limit,
  so a peer cannot make it buffer without bound; and it never asks for data after end of input.\<close>

theorem need_data_is_bounded:
  assumes "httparse_ok hp" and "connection_inv c" and "next_event hp c = (Inr NE_NeedData, c')"
  shows "length (unread c') \<le> max_head_bytes (limits c) + 1 \<and> \<not> eof c"
  using next_event_asks [OF assms] by simp

theorem need_data_is_bounded_witness:
  "length (unread (snd (next_event sample_httparse (connection_new Server sample_limits)))) \<le> 65"
proof -
  have "fst (next_event sample_httparse (connection_new Server sample_limits)) = Inr NE_NeedData" by code_simp
  then obtain c' where step: "next_event sample_httparse (connection_new Server sample_limits) = (Inr NE_NeedData, c')"
    by (metis prod.collapse)
  from need_data_is_bounded [OF sample_httparse_ok connection_inv_new step] step show ?thesis
    by (simp add: connection_new_def sample_limits_def)
qed

text \<open>A call of \<^verbatim>\<open>next_event\<close> consumes a prefix of the unread bytes and nothing else, with or without
  an error; a sending call does not touch the input at all.\<close>

theorem input_is_consumed_in_order:
  assumes "httparse_ok hp"
  shows "(\<exists>n \<le> length (unread c). trailing_data (snd (next_event hp c)) = (drop n (unread c), eof c))
    \<and> (is_send op \<longrightarrow> trailing_data (api_call hp op c) = trailing_data c)"
proof -
  have "discards c (snd (next_event hp c))" by (rule discarding.next_event_R [OF assms prod.collapse [symmetric]])
  moreover have "is_send op \<longrightarrow> peer_side_kept c (api_call hp op c)" by (simp add: sending.send_call_R)
  ultimately show ?thesis by (auto simp: discards_def peer_side_kept_def trailing_data_def)
qed

theorem input_is_consumed_in_order_witness:
  "\<exists>n \<le> length (unread broken_server).
     trailing_data (snd (next_event sample_httparse broken_server)) = (drop n (unread broken_server), eof broken_server)"
  using input_is_consumed_in_order [OF sample_httparse_ok] by blast

text \<open>C26. After the peer switched protocols, whatever calls follow, the end of input included,
  \<^verbatim>\<open>next_event\<close> only reports the pause and changes nothing, the peer stays switched, and no call consumes a
  byte: the trailing data are all bytes unread at the switch followed by all bytes received since, up to
  the end of input, and they say whether that has been reached.\<close>

theorem switched_protocol_keeps_bytes:
  assumes "connection_inv c" and "peer_state c = SwitchedProtocol"
  shows "next_event hp (api_calls hp ops c) = (Inr NE_Paused, api_calls hp ops c)
    \<and> peer_state (api_calls hp ops c) = SwitchedProtocol
    \<and> trailing_data (api_calls hp ops c) = (unread c @ taken_in (eof c) ops, eof c \<or> A_ReceiveData [] \<in> set ops)"
  using Switched_calls [of c hp ops] assms Switched_next_event [of "api_calls hp ops c" hp]
  by (simp add: connection_inv_def trailing_data_def)

definition switched_connection :: Connection where
  "switched_connection = (connection_new Client sample_limits)
     \<lparr>conn_state := \<lparr>client = SwitchedProtocol, server = SwitchedProtocol, keep_alive = True, proposals = NONE\<rparr>\<rparr>"

lemma switched_connection_facts:
  "connection_inv switched_connection" "peer_state switched_connection = SwitchedProtocol"
  "\<not> eof switched_connection" "unread switched_connection = []"
  by (simp_all add: switched_connection_def connection_new_def connection_inv_def legal_configuration_def
      receive_inv_def receive_ok_def send_inv_def reader_aligned_def writer_aligned_def peer_state_def local_state_def)

theorem switched_protocol_keeps_bytes_witness:
  "trailing_data (api_calls sample_httparse [A_ReceiveData [1], A_NextEvent, A_ReceiveData [2], A_ReceiveData [], A_ReceiveData [3]] switched_connection)
     = ([1, 2], True)"
  using switched_protocol_keeps_bytes [OF switched_connection_facts(1,2), of sample_httparse
      "[A_ReceiveData [1], A_NextEvent, A_ReceiveData [2], A_ReceiveData [], A_ReceiveData [3]]"]
  by (simp add: switched_connection_facts(3,4) taken_in_def received_def)

text \<open>C28. Pipelined input waits: while the peer's message is complete and bytes are buffered, \<^verbatim>\<open>next_event\<close>
  reports the pause and changes nothing; starting the next cycle is possible exactly when both actors
  are done, keep-alive is on and no switch is pending, and it keeps the buffered bytes, the end-of-input
  mark and the limits while both actors are idle again.\<close>

theorem pipelined_input_waits:
  "(peer_state c \<in> {Done, MustClose} \<and> unread c \<noteq> [] \<longrightarrow> next_event hp c = (Inr NE_Paused, c))
   \<and> (case start_next_cycle c of
        (Inl _, c') \<Rightarrow> c' = c \<and>
          \<not> (local_state c = Done \<and> peer_state c = Done \<and> keep_alive (conn_state c) \<and> is_empty (proposals (conn_state c)))
      | (Inr _, c') \<Rightarrow>
          local_state c = Done \<and> peer_state c = Done \<and> keep_alive (conn_state c) \<and> is_empty (proposals (conn_state c))
          \<and> trailing_data c' = trailing_data c \<and> local_state c' = Idle \<and> peer_state c' = Idle
          \<and> conn_reader c' = R_Head \<and> writer c' = None \<and> limits c' = limits c)"
proof -
  have "peer_state c \<in> {Done, MustClose} \<and> unread c \<noteq> [] \<longrightarrow> next_event hp c = (Inr NE_Paused, c)"
    by (auto simp: next_event_Inr next_event_inner.simps peer_state_return_def)
  then show ?thesis
    by (cases "conn_role c") (auto simp: start_next_cycle_cases local_state_def peer_state_def trailing_data_def state_new_def)
qed

theorem pipelined_input_waits_witness:
  "next_event sample_httparse ((connection_new Server sample_limits)
      \<lparr>conn_state := \<lparr>client = Done, server = SendResponse, keep_alive = True, proposals = NONE\<rparr>,
       input := \<lparr>buf_bytes = [0x47], buf_start = 0\<rparr>\<rparr>)
   = (Inr NE_Paused, (connection_new Server sample_limits)
      \<lparr>conn_state := \<lparr>client = Done, server = SendResponse, keep_alive = True, proposals = NONE\<rparr>,
       input := \<lparr>buf_bytes = [0x47], buf_start = 0\<rparr>\<rparr>)"
  (is "next_event _ ?c = _")
  using pipelined_input_waits [of ?c sample_httparse]
  by (simp add: connection_new_def peer_state_def as_slice_def)

text \<open>C18. Every request that \<^verbatim>\<open>next_event\<close> reports was parsed within the configured limits, has a valid
  method token, a visible-ASCII target, exactly the Host field its version asks for, and one accepted
  framing; the body reader and the pending-continue flag are set from that framing.\<close>

theorem reported_requests_are_valid:
  assumes "httparse_ok hp" and "next_event hp c = (Inr (NE_Event (Ev_Request q)), c')"
  shows "conn_role c = Server \<and> valid_method (req_method q) \<and> valid_request_target (req_target q)
    \<and> valid_host (req_http_version q) (req_headers q) \<and> length (req_headers q) \<le> max_header_count (limits c)
    \<and> (\<exists>n \<le> max_head_bytes (limits c). unread c' = drop n (unread c))
    \<and> (\<exists>f. accepted_framing (req_headers q) (req_http_version q) f \<and> conn_reader c' = reader f
         \<and> waiting_for_continue c' = expects_continue (req_http_version q) (req_headers q) f)"
proof -
  from reported_request [OF assms(2)] obtain d n where role: "conn_role c = Server"
    and sr: "section_ready True c = (True, d)"
    and parse: "parse_request_head hp (unread d) (max_head_bytes (limits d)) (max_header_count (limits d)) = Inr (Some (n, q))"
    and acc: "accept_request q (d\<lparr>input := buffer_consume (input d) n, progress := None\<rparr>) = (Inr (NE_Event (Ev_Request q)), c')"
    by (rule read_head_request)
  have d: "limits d = limits c" "input d = input c"
    using sr by (auto simp: section_ready_def split: if_splits option.splits prod.splits)
  from acc obtain f where f: "valid_request_target (req_target q)" "valid_host (req_http_version q) (req_headers q)"
    "framing (req_headers q) (req_http_version q) = Inr f" "conn_reader c' = reader f"
    "waiting_for_continue c' = expects_continue (req_http_version q) (req_headers q) f" "unread c' = drop n (unread d)"
    by (rule accept_request_Inr) simp
  with parse_request_head_Some [OF assms(1) parse] role d show ?thesis
    by (auto simp: framing_Inr_iff)
qed

definition greeted_server :: Connection where
  "greeted_server = snd (receive_data (bytes ''GET / HTTP/1.1'' @ CRLF @ bytes ''Host: a'' @ CRLF @ CRLF)
     (connection_new Server sample_limits))"

definition greeting :: Request where
  "greeting = \<lparr>req_method = Method (bytes ''GET''), req_target = bytes ''/'',
     req_headers = [(bytes ''Host'', bytes ''a'')], req_http_version = Http11\<rparr>"

theorem reported_requests_are_valid_witness:
  "fst (next_event sample_httparse greeted_server) = Inr (NE_Event (Ev_Request greeting))
   \<and> valid_host (req_http_version greeting) (req_headers greeting)"
proof -
  have event: "fst (next_event sample_httparse greeted_server) = Inr (NE_Event (Ev_Request greeting))" by code_simp
  then obtain c' where "next_event sample_httparse greeted_server = (Inr (NE_Event (Ev_Request greeting)), c')"
    by (metis prod.collapse)
  from reported_requests_are_valid [OF sample_httparse_ok this] event show ?thesis by blast
qed

end
