(* ===== verification/Bodies.thy ===== *)
theory Bodies
  imports Receiving Sample_Parser
begin

text \<open>
  Bodies from one connection to the other: what the sending methods write for a sequence of body
  pieces under each framing, and what the receiving side reports for it.
\<close>

section \<open>Transmitting a body\<close>

text \<open>The bytes that \<^verbatim>\<open>send_data\<close> on each piece and a final \<^verbatim>\<open>end_of_message\<close> without trailers produce.\<close>

fun transmit :: "u8 list list \<Rightarrow> Connection \<Rightarrow> LocalProtocolError + u8 list" where
  "transmit [] s = fst (end_of_message [] s)"
| "transmit (d # ds) s =
     (case send_data d s of
        (Inl e, s') \<Rightarrow> Inl e
      | (Inr out, s') \<Rightarrow> (case transmit ds s' of Inl e \<Rightarrow> Inl e | Inr rest \<Rightarrow> Inr (out @ rest)))"

definition sending_body :: "Connection \<Rightarrow> Framing \<Rightarrow> bool" where
  "sending_body s f \<longleftrightarrow> legal_configuration (conn_state s) \<and> local_state s = SendBody \<and> writer s = Some f"

lemma set_state_same: "state st r = s \<Longrightarrow> set_state r s st = st"
  by (cases r) auto

lemma legal_data_event:
  "legal_configuration st \<Longrightarrow> state st r = SendBody \<Longrightarrow> process_event st r SE_Data = (Inr (), st)"
  by (simp add: process_event_Inr direct_contract.simps set_state_same legal_stable)

lemma data_is_local:
  "sending_body s f \<Longrightarrow> advance_local SE_Data s = (Inr (), s)"
  by (simp add: sending_body_def advance_local_def local_state_def legal_data_event)

lemma send_data_framed:
  assumes "sending_body s f"
  shows "send_data d s =
    (case data_framing f (length d) of
       Inl e \<Rightarrow> (Inl e, s)
     | Inr (g, prefix, suffix) \<Rightarrow>
         (Inr (prefix @ d @ suffix), s\<lparr>writer := Some g, waiting_for_continue := False\<rparr>))"
  using assms data_is_local [OF assms]
  by (simp add: send_data_def send_data_parts_def send_data_framing_def sending_body_def
      split: sum.split prod.split)

lemma sending_body_next:
  "sending_body s f \<Longrightarrow> sending_body (s\<lparr>writer := Some g, waiting_for_continue := w\<rparr>) g"
  by (simp add: sending_body_def)

lemma body_end_accepted: "sending_body s f \<Longrightarrow> fst (advance_local SE_EndOfMessage s) = Inr ()"
proof -
  assume "sending_body s f"
  then have "\<exists>st. process_event (conn_state s) (conn_role s) SE_EndOfMessage = (Inr (), st)"
    by (simp add: sending_body_def local_state_def process_event_Inr direct_contract.simps)
  then show ?thesis by (auto simp: advance_local_def)
qed

lemma end_of_message_framed:
  assumes "sending_body s f" and "validate_trailers t = Inr ()"
  shows "fst (end_of_message t s) = message_terminator f t"
  using assms body_end_accepted [OF assms(1)]
  by (cases "advance_local SE_EndOfMessage s")
     (auto simp: end_of_message_def sending_body_def split: sum.splits)

lemma validate_trailers_Nil [simp]: "validate_trailers [] = Inr ()"
  by (simp add: validate_trailers_def validate_headers_def)

lemma transmit_fixed:
  "sending_body s (F_Fixed n) \<Longrightarrow>
     transmit ds s = (if sum_list (map length ds) = n then Inr (concat ds)
       else if sum_list (map length ds) < n then Inl (local_err ''body is shorter than Content-Length'')
       else Inl (local_err ''body exceeds Content-Length''))"
proof (induction ds arbitrary: s n)
  case Nil
  then show ?case by (simp add: end_of_message_framed message_terminator_def)
next
  case (Cons d ds)
  show ?case
  proof (cases "length d \<le> n")
    case True
    let ?s = "s\<lparr>writer := Some (F_Fixed (n - length d)), waiting_for_continue := False\<rparr>"
    from Cons.prems have "sending_body ?s (F_Fixed (n - length d))" by (rule sending_body_next)
    from Cons.IH [OF this] True send_data_framed [OF Cons.prems, of d] show ?thesis
      by (auto simp: data_framing_def)
  next
    case False
    with send_data_framed [OF Cons.prems, of d] show ?thesis by (simp add: data_framing_def)
  qed
qed

definition chunk :: "u8 list \<Rightarrow> u8 list" where
  "chunk d = (if d = [] then [] else format_hex (length d) @ CRLF @ d @ CRLF)"

lemma transmit_chunked:
  "sending_body s F_Chunked \<Longrightarrow> transmit ds s = Inr (concat (map chunk ds) @ bytes ''0'' @ CRLF @ CRLF)"
proof (induction ds arbitrary: s)
  case Nil
  then show ?case by (simp add: end_of_message_framed message_terminator_def Let_def write_headers_def)
next
  case (Cons d ds)
  let ?s = "s\<lparr>writer := Some F_Chunked, waiting_for_continue := False\<rparr>"
  from Cons.prems have "sending_body ?s F_Chunked" by (rule sending_body_next)
  from Cons.IH [OF this] send_data_framed [OF Cons.prems, of d] show ?case
    by (simp add: data_framing_def chunk_def)
qed

lemma transmit_close_delimited:
  "sending_body s F_CloseDelimited \<Longrightarrow> transmit ds s = Inr (concat ds)"
proof (induction ds arbitrary: s)
  case Nil
  then show ?case by (simp add: end_of_message_framed message_terminator_def)
next
  case (Cons d ds)
  let ?s = "s\<lparr>writer := Some F_CloseDelimited, waiting_for_continue := False\<rparr>"
  from Cons.prems have "sending_body ?s F_CloseDelimited" by (rule sending_body_next)
  from Cons.IH [OF this] send_data_framed [OF Cons.prems, of d] show ?case by (simp add: data_framing_def)
qed

section \<open>Receiving a body\<close>

text \<open>The results of a number of consecutive calls of \<^verbatim>\<open>next_event\<close>.\<close>

fun pull :: "'e httparse \<Rightarrow> nat \<Rightarrow> Connection \<Rightarrow> (RemoteProtocolError + NextEvent) list \<times> Connection" where
  "pull hp 0 c = ([], c)"
| "pull hp (Suc n) c =
     (case next_event hp c of (r, c') \<Rightarrow> (case pull hp n c' of (rs, c'') \<Rightarrow> (r # rs, c'')))"

definition receiving_body :: "Connection \<Rightarrow> Reader \<Rightarrow> u8 list \<Rightarrow> bool" where
  "receiving_body c r d \<longleftrightarrow>
     legal_configuration (conn_state c) \<and> peer_state c = SendBody \<and> conn_reader c = r \<and> unread c = d
     \<and> progress c = None"

abbreviation data_event :: "u8 list \<Rightarrow> bool \<Rightarrow> bool \<Rightarrow> RemoteProtocolError + NextEvent" where
  "data_event d s e \<equiv> Inr (NE_Event (Ev_Data \<lparr>data_bytes = d, chunk_start = s, chunk_end = e\<rparr>))"

abbreviation end_event :: "Header list \<Rightarrow> RemoteProtocolError + NextEvent" where
  "end_event t \<equiv> Inr (NE_Event (Ev_EndOfMessage \<lparr>eom_trailers = t\<rparr>))"

lemma peer_data_legal:
  assumes "legal_configuration (conn_state c)" and "peer_state c = SendBody"
  shows "peer_data d s e c = (data_event d s e, c\<lparr>waiting_for_continue := False\<rparr>)"
  using assms by (simp add: peer_data_def advance_peer_def peer_state_def legal_data_event)

lemma SendBody_goes_on: "peer_state c = SendBody \<Longrightarrow> peer_state_return c = None"
  by (simp add: peer_state_return_def)

lemma finish_peer_legal:
  assumes "legal_configuration (conn_state c)" and "peer_state c = SendBody"
  shows "\<exists>c'. finish_peer t c = (end_event t, c') \<and> conn_reader c' = R_Head \<and> input c' = input c
    \<and> eof c' = eof c \<and> progress c' = progress c \<and> peer_state c' \<noteq> SendBody \<and> peer_state c' \<noteq> Error"
proof -
  obtain st where ev: "process_event (conn_state c) (peer (conn_role c)) SE_EndOfMessage = (Inr (), st)"
    using assms by (auto simp: peer_state_def process_event_Inr direct_contract.simps)
  from own_event [OF ev] have "state st (peer (conn_role c)) \<notin> {SendBody, Error}"
    by (auto simp: direct_contract.simps side_kept_def)
  with ev show ?thesis by (simp add: finish_peer_def advance_peer_def peer_state_def)
qed

lemma next_event_ok: "next_event_inner hp c = (Inr e, c') \<Longrightarrow> next_event hp c = (Inr e, c')"
  by (simp add: next_event_Inr)

lemma fixed_data:
  assumes "receiving_body c (R_Fixed n) d" and "n \<noteq> 0" and "d \<noteq> []"
  obtains c' where "next_event hp c = (data_event (take n d) False False, c')"
    and "receiving_body c' (R_Fixed (n - length d)) (drop n d)" and "eof c' = eof c"
    and "conn_role c' = conn_role c" and "limits c' = limits c"
proof -
  define k where "k = min n (length d)"
  then have "k \<noteq> 0" and take: "take n d = take k d" and drop: "drop n d = drop k d"
    and left: "n - k = n - length d"
    using assms(2,3) by (auto simp: min_def)
  define c' where "c' = c\<lparr>conn_reader := R_Fixed (n - k), input := buffer_consume (input c) k\<rparr>"
  from assms \<open>k \<noteq> 0\<close> have "next_event_inner hp c = peer_data (take k d) False False c'"
    by (simp add: receiving_body_def next_event_inner.simps SendBody_goes_on read_fixed_def Let_def
        buffer_take_def c'_def flip: k_def)
  also have "\<dots> = (data_event (take k d) False False, c'\<lparr>waiting_for_continue := False\<rparr>)"
    using assms by (intro peer_data_legal) (simp_all add: receiving_body_def c'_def)
  finally have "next_event hp c = (data_event (take n d) False False, c'\<lparr>waiting_for_continue := False\<rparr>)"
    by (simp add: take next_event_ok)
  then show thesis
    by (rule that) (use assms in \<open>simp_all add: receiving_body_def c'_def drop left\<close>)
qed

lemma fixed_end:
  assumes "receiving_body c (R_Fixed 0) d"
  shows "\<exists>c'. next_event hp c = (end_event [], c') \<and> conn_reader c' = R_Head \<and> unread c' = d \<and> progress c' = None"
proof -
  from assms have "next_event_inner hp c = finish_peer [] c"
    by (simp add: receiving_body_def next_event_inner.simps SendBody_goes_on read_fixed_def)
  with finish_peer_legal [of c "[]"] assms show ?thesis
    by (auto simp: receiving_body_def next_event_Inr)
qed

text \<open>Between two chunks: before a size line, with or without the line end of the previous chunk's data.\<close>

definition at_chunk :: "Connection \<Rightarrow> u8 list \<Rightarrow> bool" where
  "at_chunk c w \<longleftrightarrow>
     receiving_body c (R_Chunked (Ck_Size 0)) w \<or> receiving_body c (R_Chunked Ck_DataEnd) (CRLF @ w)"

definition same_terms :: "Connection \<Rightarrow> Connection \<Rightarrow> bool" where
  "same_terms c c' \<longleftrightarrow> conn_role c' = conn_role c \<and> limits c' = limits c \<and> eof c' = eof c"

text \<open>Reading on from a chunk boundary is reading the next size line.\<close>

lemma at_chunk_Size:
  assumes "at_chunk c w"
  obtains c' where "next_event_inner hp c = read_chunked hp (Ck_Size 0) c'"
    and "receiving_body c' (R_Chunked (Ck_Size 0)) w" and "same_terms c c'"
  using assms unfolding at_chunk_def
proof
  assume "receiving_body c (R_Chunked (Ck_Size 0)) w"
  then show thesis
    by (intro that [of c])
       (simp_all add: receiving_body_def next_event_inner.simps SendBody_goes_on same_terms_def)
next
  let ?c = "c\<lparr>input := buffer_consume (input c) 2, conn_reader := R_Chunked (Ck_Size 0)\<rparr>"
  assume at: "receiving_body c (R_Chunked Ck_DataEnd) (CRLF @ w)"
  then have "next_event_inner hp c = read_chunked hp Ck_DataEnd c"
    by (simp add: receiving_body_def next_event_inner.simps SendBody_goes_on)
  also have "\<dots> = next_event_inner hp ?c"
    using at by (simp add: receiving_body_def read_chunked.simps [of hp Ck_DataEnd] chunk_data_end_step_def)
  also have "\<dots> = read_chunked hp (Ck_Size 0) ?c"
    using at by (simp add: receiving_body_def next_event_inner.simps SendBody_goes_on)
  finally show thesis
    by (rule that) (use at in \<open>simp_all add: receiving_body_def same_terms_def\<close>)
qed

lemma progress_None_upd:
  "progress c = None \<Longrightarrow> c\<lparr>input := b, conn_reader := r, progress := None\<rparr> = c\<lparr>input := b, conn_reader := r\<rparr>"
  by (cases c) simp

lemma chunk_size_read:
  assumes "receiving_body c (R_Chunked (Ck_Size 0)) (format_hex n @ CRLF @ w)" and "n < usize_limit"
    and "length (format_hex n) \<le> max_head_bytes (limits c)"
  shows "read_chunked hp (Ck_Size 0) c = next_event_inner hp
    (c\<lparr>input := buffer_consume (input c) (length (format_hex n) + 2),
       conn_reader := R_Chunked (if n = 0 then Ck_Trailers else Ck_Data n True)\<rparr>)"
proof -
  have "find_crlf (unread c) 0 = Some (length (format_hex n) + 2)"
    using assms(1) find_crlf_chunk_line [of n w] by (simp add: receiving_body_def)
  moreover have "parse_chunk_header (take (length (format_hex n)) (unread c)) = Some n"
    using assms(1,2) parse_chunk_header_format_hex [of n] by (simp add: receiving_body_def)
  ultimately show ?thesis
    using assms(1,3)
    by (simp add: read_chunked.simps [of hp "Ck_Size 0" c] chunk_size_step_def Let_def receiving_body_def
        progress_None_upd)
qed

lemma chunk_received:
  assumes "at_chunk c (chunk d @ w)" and "d \<noteq> []" and "length d < usize_limit"
    and "length (format_hex (length d)) \<le> max_head_bytes (limits c)"
  obtains c' where "next_event hp c = (data_event d True True, c')" and "at_chunk c' w" and "same_terms c c'"
proof -
  let ?n = "length d"
  from assms(1,2) have "at_chunk c (format_hex ?n @ CRLF @ d @ CRLF @ w)" by (simp add: chunk_def)
  then obtain c1 where c1: "next_event_inner hp c = read_chunked hp (Ck_Size 0) c1"
    "receiving_body c1 (R_Chunked (Ck_Size 0)) (format_hex ?n @ CRLF @ d @ CRLF @ w)" "same_terms c c1"
    by (rule at_chunk_Size)
  define c2 where "c2 = c1\<lparr>input := buffer_consume (input c1) (length (format_hex ?n) + 2),
      conn_reader := R_Chunked (Ck_Data ?n True)\<rparr>"
  have b2: "receiving_body c2 (R_Chunked (Ck_Data ?n True)) (d @ CRLF @ w)"
    using c1(2) by (simp add: c2_def receiving_body_def)
  have "read_chunked hp (Ck_Size 0) c1 = next_event_inner hp c2"
    using chunk_size_read [OF c1(2) assms(3), of hp] assms(2,4) c1(3) by (simp add: c2_def same_terms_def)
  also have "\<dots> = chunk_data ?n True c2"
    using b2 by (simp add: receiving_body_def next_event_inner.simps [of hp c2] SendBody_goes_on
        read_chunked.simps [of hp "Ck_Data ?n True"])
  also have "\<dots> = peer_data d True True (c2\<lparr>conn_reader := R_Chunked Ck_DataEnd, input := buffer_consume (input c2) ?n\<rparr>)"
    using b2 assms(2) by (simp add: receiving_body_def chunk_data_def Let_def buffer_take_def)
  also have "\<dots> = (data_event d True True,
      c2\<lparr>conn_reader := R_Chunked Ck_DataEnd, input := buffer_consume (input c2) ?n, waiting_for_continue := False\<rparr>)"
    using b2 by (subst peer_data_legal) (simp_all add: receiving_body_def)
  finally show thesis
    unfolding c1(1) [symmetric] next_event_Inr [symmetric]
    by (rule that) (use c1(3) b2 in \<open>simp_all add: at_chunk_def c2_def receiving_body_def same_terms_def\<close>)
qed

text \<open>Documented behaviour of the parser on an empty field section.\<close>

definition parses_empty_section :: "'e httparse \<Rightarrow> bool" where
  "parses_empty_section hp \<longleftrightarrow> (\<forall>d n. hp_parse_headers hp (CRLF @ d) n = Inr (Some (2, [])))"

lemma poll_empty_line: "fst (poll progress_default (CRLF @ d) False) = Some 2"
  using poll_lines [of "[]" progress_default "[]" False d] by (simp add: progress_default_def)

lemma normalize_empty_section:
  assumes "d = [] \<or> \<not> is_ows (hd d)"
  shows "\<exists>e. normalize_obs_fold (CRLF @ d) = CRLF @ e"
proof -
  have "\<not> fold_ahead (LF # d)" using assms by (cases d) auto
  then have "unfold_value (CRLF @ d) = CRLF @ unfold_value d" by (simp add: unfold_value.simps)
  then show ?thesis by (auto simp: normalize_obs_fold_eq)
qed

lemma parse_empty_trailers:
  assumes "parses_empty_section hp" and "2 \<le> mb" and "uf \<longrightarrow> d = [] \<or> \<not> is_ows (hd d)"
  shows "parse_trailers hp (CRLF @ d) mb mh uf = Inr (Some (2, []))"
proof -
  have "\<exists>e. (if uf then normalize_obs_fold (CRLF @ d) else CRLF @ d) = CRLF @ e"
    using normalize_empty_section [of d] assms(3) by (cases uf) auto
  then obtain e where "(if uf then normalize_obs_fold (CRLF @ d) else CRLF @ d) = CRLF @ e" ..
  then show ?thesis
    using assms(1,2) unfolding parse_trailers_def Let_def poll_empty_line
    by (simp add: parses_empty_section_def copy_headers_def)
qed

text \<open>The size line of the last chunk leads to the trailers.\<close>

lemma last_chunk_read:
  assumes at: "at_chunk c (bytes ''0'' @ CRLF @ w)" and lim: "1 \<le> max_head_bytes (limits c)"
  obtains c' where "next_event_inner hp c = read_trailers hp c'" and "receiving_body c' (R_Chunked Ck_Trailers) w" and "same_terms c c'"
proof -
  have zero: "bytes ''0'' = format_hex 0" by (simp add: format_hex.simps hex_digit_def bytes_def)
  from at obtain c1 where c1: "next_event_inner hp c = read_chunked hp (Ck_Size 0) c1"
    "receiving_body c1 (R_Chunked (Ck_Size 0)) (format_hex 0 @ CRLF @ w)" "same_terms c c1"
    unfolding zero by (rule at_chunk_Size)
  define c2 where "c2 = c1\<lparr>input := buffer_consume (input c1) (length (format_hex 0) + 2), conn_reader := R_Chunked Ck_Trailers\<rparr>"
  have b2: "receiving_body c2 (R_Chunked Ck_Trailers) w" using c1(2) by (simp add: c2_def receiving_body_def)
  have "length (format_hex 0) \<le> max_head_bytes (limits c1)"
    using lim c1(3) zero by (simp add: same_terms_def bytes_def flip: zero)
  from chunk_size_read [OF c1(2) _ this, of hp]
  have "read_chunked hp (Ck_Size 0) c1 = next_event_inner hp c2" by (simp add: c2_def)
  also have "\<dots> = read_trailers hp c2"
    using b2 by (simp add: receiving_body_def next_event_inner.simps [of hp c2] SendBody_goes_on read_chunked.simps [of hp Ck_Trailers])
  finally show thesis using c1(1,3) b2 by (intro that [of c2]) (simp_all add: c2_def same_terms_def)
qed

lemma last_chunk_received:
  assumes hp: "parses_empty_section hp" and at: "at_chunk c (bytes ''0'' @ CRLF @ CRLF @ rest)"
    and lim: "2 \<le> max_head_bytes (limits c)"
    and role: "conn_role c = Client \<longrightarrow> rest = [] \<or> \<not> is_ows (hd rest)"
  shows "\<exists>c'. next_event hp c = (end_event [], c') \<and> conn_reader c' = R_Head \<and> unread c' = rest \<and> progress c' = None"
proof -
  obtain c2 where c2: "next_event_inner hp c = read_trailers hp c2" "receiving_body c2 (R_Chunked Ck_Trailers) (CRLF @ rest)" "same_terms c c2"
    using at by (rule last_chunk_read) (use lim in simp)
  let ?c3 = "c2\<lparr>input := buffer_consume (input c2) 2, progress := None\<rparr>"
  have "next_event_inner hp c = finish_peer [] ?c3"
    using c2 parse_empty_trailers [OF hp lim, of "conn_role c2 = Client" rest] role
    by (simp add: read_trailers_def section_ready_def receiving_body_def same_terms_def)
  moreover have "\<exists>c'. finish_peer [] ?c3 = (end_event [], c') \<and> conn_reader c' = R_Head \<and> unread c' = rest \<and> progress c' = None"
    using finish_peer_legal [of ?c3 "[]"] c2(2) by (auto simp: receiving_body_def)
  ultimately show ?thesis by (auto simp: next_event_Inr)
qed

lemma chunks_received:
  assumes hp: "parses_empty_section hp"
    and ds: "\<forall>d \<in> set ds. d \<noteq> [] \<and> length d < usize_limit \<and> length (format_hex (length d)) \<le> max_head_bytes (limits c)"
    and at: "at_chunk c (concat (map chunk ds) @ bytes ''0'' @ CRLF @ CRLF @ rest)"
    and lim: "2 \<le> max_head_bytes (limits c)"
    and role: "conn_role c = Client \<longrightarrow> rest = [] \<or> \<not> is_ows (hd rest)"
  shows "\<exists>c'. pull hp (length ds + 1) c = (map (\<lambda>d. data_event d True True) ds @ [end_event []], c')
    \<and> conn_reader c' = R_Head \<and> unread c' = rest"
  using ds at lim role
proof (induction ds arbitrary: c)
  case Nil
  with last_chunk_received [OF hp, of c rest] show ?case by auto
next
  case (Cons d ds)
  from Cons.prems(2) have "at_chunk c (chunk d @ concat (map chunk ds) @ bytes ''0'' @ CRLF @ CRLF @ rest)" by simp
  from chunk_received [OF this, where hp = hp] Cons.prems(1) obtain c' where
    c': "next_event hp c = (data_event d True True, c')"
    "at_chunk c' (concat (map chunk ds) @ bytes ''0'' @ CRLF @ CRLF @ rest)" "same_terms c c'"
    by auto
  with Cons.IH [of c'] Cons.prems show ?case by (auto simp: same_terms_def)
qed

section \<open>Arrivals\<close>

text \<open>Each arriving piece is handed to the connection, which is then asked for one event.\<close>

fun feed :: "'e httparse \<Rightarrow> u8 list list \<Rightarrow> Connection \<Rightarrow> (RemoteProtocolError + NextEvent) list \<times> Connection" where
  "feed hp [] c = ([], c)"
| "feed hp (d # ds) c =
     (case next_event hp (snd (receive_data d c)) of
        (r, c') \<Rightarrow> (case feed hp ds c' of (rs, c'') \<Rightarrow> (r # rs, c'')))"

lemma receive_body:
  assumes "receiving_body c r d" and "buffer_wf (input c)" and "\<not> eof c" and "e \<noteq> []"
  shows "receiving_body (snd (receive_data e c)) r (d @ e)" and "\<not> eof (snd (receive_data e c))"
    and "limits (snd (receive_data e c)) = limits c" and "conn_role (snd (receive_data e c)) = conn_role c"
  using assms by (simp_all add: receiving_body_def receive_data_def as_slice_extend)

lemma fixed_fed:
  assumes "httparse_ok hp" and "\<forall>e \<in> set es. e \<noteq> []" and "length (concat es) = n"
    and "receiving_body c (R_Fixed n) []" and "buffer_wf (input c)" and "\<not> eof c"
  shows "\<exists>c'. feed hp es c = (map (\<lambda>e. data_event e False False) es, c')
    \<and> (\<exists>c''. next_event hp c' = (end_event [], c'') \<and> unread c'' = [])"
  using assms(2-)
proof (induction es arbitrary: c n)
  case Nil
  with fixed_end [of c "[]" hp] show ?case by auto
next
  case (Cons e es)
  let ?c = "snd (receive_data e c)"
  have body: "receiving_body ?c (R_Fixed n) e" and eof: "\<not> eof ?c"
    using receive_body [OF Cons.prems(3-5), of e] Cons.prems(1) by simp_all
  have n: "n \<noteq> 0" "e \<noteq> []" "length e \<le> n" using Cons.prems(1,2) by auto
  from body n(1,2) obtain c' where c': "next_event hp ?c = (data_event (take n e) False False, c')"
    "receiving_body c' (R_Fixed (n - length e)) (drop n e)" "eof c' = eof ?c"
    by (rule fixed_data [where hp = hp]) blast
  have "keeps_buffer_wf c ?c" by (rule buffering.receive_data_R [OF prod.collapse [symmetric]])
  with buffering.next_event_R [OF assms(1) c'(1)] Cons.prems(4) have "buffer_wf (input c')"
    by (simp add: keeps_buffer_wf_def)
  with Cons.IH [of "n - length e" c'] Cons.prems c' eof n(3) show ?case by auto
qed

section \<open>Properties of bodies\<close>

text \<open>C40. On a message with Content-Length \<open>n\<close>, sending the pieces of a body and then ending the message
  succeeds exactly when the pieces add up to \<open>n\<close> bytes, and then writes just these bytes; with fewer
  bytes the end is refused, with more the piece that exceeds the length is.\<close>

theorem content_length_accounting:
  assumes "sending_body s (F_Fixed n)"
  shows "transmit ds s =
    (if sum_list (map length ds) = n then Inr (concat ds)
     else if sum_list (map length ds) < n then Inl (local_err ''body is shorter than Content-Length'')
     else Inl (local_err ''body exceeds Content-Length''))"
  using assms by (rule transmit_fixed)

definition sample_sender :: "Framing \<Rightarrow> Connection" where
  "sample_sender f =
     (connection_new Client \<lparr>max_head_bytes = 64, max_header_count = 8\<rparr>)
       \<lparr>conn_state := \<lparr>client = SendBody, server = SendResponse, keep_alive = True, proposals = NONE\<rparr>,
        writer := Some f\<rparr>"

definition sample_receiver :: "Framing \<Rightarrow> Connection" where
  "sample_receiver f =
     (connection_new Server \<lparr>max_head_bytes = 64, max_header_count = 8\<rparr>)
       \<lparr>conn_state := \<lparr>client = SendBody, server = SendResponse, keep_alive = True, proposals = NONE\<rparr>,
        conn_reader := reader f\<rparr>"

lemma sample_sending: "sending_body (sample_sender f) f"
  by (simp add: sending_body_def sample_sender_def connection_new_def local_state_def legal_configuration_def)

lemma sample_receiving:
  "receiving_body (sample_receiver f) (reader f) []" "buffer_wf (input (sample_receiver f))"
  "\<not> eof (sample_receiver f)" "limits (sample_receiver f) = \<lparr>max_head_bytes = 64, max_header_count = 8\<rparr>"
  "conn_role (sample_receiver f) = Server"
  by (simp_all add: receiving_body_def sample_receiver_def connection_new_def peer_state_def legal_configuration_def)

theorem content_length_accounting_witness:
  "transmit [[1, 2], [3]] (sample_sender (F_Fixed 3)) = Inr [1, 2, 3]"
  using content_length_accounting [OF sample_sending, of "[[1, 2], [3]]" 3] by simp

text \<open>C14. A body sent under Content-Length reaches the peer as it was sent, however the bytes are cut into
  arrivals: each arrival is reported as one data event, the events together are the bytes of the sent
  pieces, and the next event ends the message with no byte left unread.\<close>

theorem content_length_end_to_end:
  assumes "httparse_ok hp" and "sending_body s (F_Fixed n)" and "sum_list (map length ds) = n"
    and "receiving_body c (R_Fixed n) []" and "buffer_wf (input c)" and "\<not> eof c"
    and "concat es = concat ds" and "\<forall>e \<in> set es. e \<noteq> []"
  shows "transmit ds s = Inr (concat es)
    \<and> (\<exists>c' c''. feed hp es c = (map (\<lambda>e. data_event e False False) es, c')
         \<and> next_event hp c' = (end_event [], c'') \<and> unread c'' = [])"
proof -
  have "length (concat es) = n" using assms(3,7) by (simp add: length_concat)
  from fixed_fed [OF assms(1,8) this assms(4-6)] transmit_fixed [OF assms(2), of ds] assms(3,7) show ?thesis
    by auto
qed

theorem content_length_end_to_end_witness:
  "\<exists>c' c''. feed sample_httparse [[1], [2, 3]] (sample_receiver (F_Fixed 3)) =
       ([data_event [1] False False, data_event [2, 3] False False], c')
     \<and> next_event sample_httparse c' = (end_event [], c'') \<and> unread c'' = []"
  using content_length_end_to_end [OF sample_httparse_ok sample_sending [of "F_Fixed 3"], of "[[1, 2], [3]]"
      "sample_receiver (F_Fixed 3)" "[[1], [2, 3]]"] sample_receiving [of "F_Fixed 3"]
  by auto

text \<open>C12. A body sent under chunked framing is reported by the peer piece by piece, each as one complete
  chunk, followed by the end of the message; the bytes behind the message stay unread.  Empty pieces
  write nothing.  (On a client the first byte behind the message must not be a space or tab.)\<close>

theorem chunked_end_to_end:
  assumes "parses_empty_section hp" and "sending_body s F_Chunked"
    and "\<forall>d \<in> set ds. d \<noteq> [] \<and> length d < usize_limit \<and> length (format_hex (length d)) \<le> max_head_bytes (limits c)"
    and "2 \<le> max_head_bytes (limits c)"
    and "transmit ds s = Inr wire" and "receiving_body c (R_Chunked (Ck_Size 0)) (wire @ rest)"
    and "conn_role c = Client \<longrightarrow> rest = [] \<or> \<not> is_ows (hd rest)"
  shows "\<exists>c'. pull hp (length ds + 1) c = (map (\<lambda>d. data_event d True True) ds @ [end_event []], c')
    \<and> conn_reader c' = R_Head \<and> unread c' = rest"
proof -
  from transmit_chunked [OF assms(2), of ds] assms(5)
  have "wire = concat (map chunk ds) @ bytes ''0'' @ CRLF @ CRLF" by simp
  with assms(6) have "at_chunk c (concat (map chunk ds) @ bytes ''0'' @ CRLF @ CRLF @ rest)"
    by (simp add: at_chunk_def)
  from chunks_received [OF assms(1,3) this assms(4,7)] show ?thesis .
qed

lemma sample_parses_empty_section: "parses_empty_section sample_httparse"
  using poll_empty_line
  by (simp add: parses_empty_section_def sample_httparse_def sample_parse_headers_def sample_lines_def sample_fields_def)

theorem chunked_end_to_end_witness:
  "\<exists>wire. transmit [[0x68, 0x69]] (sample_sender F_Chunked) = Inr wire
     \<and> (\<exists>c'. pull sample_httparse 2 (snd (receive_data wire (sample_receiver F_Chunked))) =
          ([data_event [0x68, 0x69] True True, end_event []], c') \<and> unread c' = [])"
proof -
  obtain wire where wire: "transmit [[0x68, 0x69]] (sample_sender F_Chunked) = Inr wire"
    using transmit_chunked [OF sample_sending] by blast
  then have "wire \<noteq> []" using transmit_chunked [OF sample_sending, of "[[0x68, 0x69]]"] by auto
  note got = receive_body [OF sample_receiving(1-3) this, of F_Chunked]
  let ?c = "snd (receive_data wire (sample_receiver F_Chunked))"
  have limit: "max_head_bytes (limits ?c) = 64" and role: "conn_role ?c = Server"
    using got(3,4) sample_receiving(4,5) [of F_Chunked] by simp_all
  have pieces: "\<forall>d \<in> set [[0x68, 0x69 :: u8]]. d \<noteq> [] \<and> length d < usize_limit
      \<and> length (format_hex (length d)) \<le> max_head_bytes (limits ?c)"
    by (simp add: limit usize_limit_def format_hex.simps)
  have two: "pull sample_httparse (length [[0x68, 0x69 :: u8]] + 1) ?c = pull sample_httparse 2 ?c"
    by (simp add: numeral_2_eq_2)
  have "\<exists>c'. pull sample_httparse (length [[0x68, 0x69 :: u8]] + 1) ?c =
      (map (\<lambda>d. data_event d True True) [[0x68, 0x69]] @ [end_event []], c') \<and> conn_reader c' = R_Head \<and> unread c' = []"
    by (rule chunked_end_to_end [OF sample_parses_empty_section sample_sending pieces _ wire])
       (use got(1) limit role in simp_all)
  with wire show ?thesis unfolding two by auto
qed

end
