(* ===== verification/Section_Parser.thy ===== *)
theory Section_Parser
  imports Sample_Parser
begin

text \<open>
  Parsing of sections that arrive in pieces.  The predicate \<open>httparse_streams\<close> names what the
  connection relies on when it calls the third-party parser again on more bytes: a completed parse
  and an error do not depend on the bytes that follow, and a parse is complete exactly when the
  section is, that is at the end that the search of \<^verbatim>\<open>SectionProgress\<close> finds; no bytes are an
  incomplete section.  The crate's own
  functions around the parser then have the same laws, with the configured limit on top.
\<close>

section \<open>The parser on input that arrives in pieces\<close>

definition streams :: "(u8 list \<Rightarrow> usize \<Rightarrow> 'e + (usize \<times> 'p) option) \<Rightarrow> bool \<Rightarrow> bool" where
  "streams parse skip \<longleftrightarrow>
     (\<forall>d x n.
        (\<forall>r. parse d n = Inr (Some r) \<longrightarrow> parse (d @ x) n = Inr (Some r))
        \<and> (isl (parse d n) \<longrightarrow> isl (parse (d @ x) n))
        \<and> (\<forall>e p. parse d n = Inr (Some (e, p)) \<longrightarrow> fst (poll progress_default d skip) = Some e)
        \<and> (parse d n = Inr None \<longrightarrow> fst (poll progress_default d skip) = None)
        \<and> parse [] n = Inr None)"

definition httparse_streams :: "'e httparse \<Rightarrow> bool" where
  "httparse_streams hp \<longleftrightarrow>
     streams (hp_parse_request hp) True \<and> streams (hp_parse_response hp) True \<and> streams (hp_parse_headers hp) False"

lemma streamsD:
  assumes "streams parse skip"
  shows "parse d n = Inr (Some r) \<Longrightarrow> parse (d @ x) n = Inr (Some r)"
    and "parse d n = Inl f \<Longrightarrow> \<exists>g. parse (d @ x) n = Inl g"
    and "parse d n = Inr (Some (e, p)) \<Longrightarrow> fst (poll progress_default d skip) = Some e"
    and "parse d n = Inr None \<Longrightarrow> fst (poll progress_default d skip) = None"
    and "parse [] n = Inr None"
  using assms unfolding streams_def isl_def by (blast, metis, blast, blast, blast)

section \<open>The crate's parsing functions\<close>

definition section_parser :: "(u8 list \<Rightarrow> RemoteProtocolError + (usize \<times> 'q) option) \<Rightarrow> bool \<Rightarrow> usize \<Rightarrow> bool" where
  "section_parser parse skip limit \<longleftrightarrow>
     (\<forall>d x.
        (\<forall>r. parse d = Inr (Some r) \<longrightarrow> parse (d @ x) = Inr (Some r))
        \<and> (isl (parse d) \<longrightarrow> isl (parse (d @ x)))
        \<and> (\<forall>e q. parse d = Inr (Some (e, q)) \<longrightarrow> fst (poll progress_default d skip) = Some e \<and> e \<le> limit)
        \<and> (parse d = Inr None \<longrightarrow> fst (poll progress_default d skip) = None))
     \<and> parse [] = Inr None"

lemma section_parserI:
  assumes "\<And>d x r. parse d = Inr (Some r) \<Longrightarrow> parse (d @ x) = Inr (Some r)"
    and "\<And>d x f. parse d = Inl f \<Longrightarrow> isl (parse (d @ x))"
    and "\<And>d e q. parse d = Inr (Some (e, q)) \<Longrightarrow> fst (poll progress_default d skip) = Some e \<and> e \<le> limit"
    and "\<And>d. parse d = Inr None \<Longrightarrow> fst (poll progress_default d skip) = None"
    and "parse [] = Inr None"
  shows "section_parser parse skip limit"
  unfolding section_parser_def
proof (intro allI conjI impI)
  show "isl (parse d) \<Longrightarrow> isl (parse (d @ x))" for d x using assms(2) by (auto simp: isl_def)
qed (use assms in blast)+

lemma section_parserD:
  assumes "section_parser parse skip limit"
  shows "parse d = Inr (Some r) \<Longrightarrow> parse (d @ x) = Inr (Some r)"
    and "parse d = Inl f \<Longrightarrow> \<exists>g. parse (d @ x) = Inl g"
    and "parse d = Inr (Some (e, q)) \<Longrightarrow> fst (poll progress_default d skip) = Some e"
    and "parse d = Inr (Some (e, q)) \<Longrightarrow> e \<le> limit"
    and "parse d = Inr (Some (e, q)) \<Longrightarrow> e \<le> length d"
    and "parse d = Inr None \<Longrightarrow> fst (poll progress_default d skip) = None"
    and "parse [] = Inr None"
proof -
  note laws = assms [unfolded section_parser_def, THEN conjunct1, rule_format]
  show "parse d = Inr (Some r) \<Longrightarrow> parse (d @ x) = Inr (Some r)" using laws by blast
  show "parse d = Inl f \<Longrightarrow> \<exists>g. parse (d @ x) = Inl g" using laws [of d x] by (auto simp: isl_def)
  show ends: "parse d = Inr (Some (e, q)) \<Longrightarrow> fst (poll progress_default d skip) = Some e" using laws by blast
  show "parse d = Inr (Some (e, q)) \<Longrightarrow> e \<le> limit" using laws by blast
  show "parse d = Inr (Some (e, q)) \<Longrightarrow> e \<le> length d" using ends poll_default_bounds by blast
  show "parse d = Inr None \<Longrightarrow> fst (poll progress_default d skip) = None" using laws by blast
  show "parse [] = Inr None" using assms by (simp add: section_parser_def)
qed

lemma poll_default_append:
  "fst (poll progress_default d skip) = Some e \<Longrightarrow> fst (poll progress_default (d @ x) skip) = Some e"
  using poll_append [OF progress_wf_default, of d x skip]
  by (cases "poll progress_default d skip") auto

lemma poll_default_later:
  assumes "fst (poll progress_default d skip) = None" and "fst (poll progress_default (d @ x) skip) = Some e"
  shows "length d < e"
proof -
  obtain p where none: "poll progress_default d skip = (None, p)"
    using assms(1) by (cases "poll progress_default d skip") auto
  then have wf: "progress_wf p d" "sp_at p = length d"
    using poll_wf [OF progress_wf_default, of d skip] poll_None_at [OF progress_wf_default none] by simp_all
  have "fst (poll p (d @ x) skip) = Some e"
    using poll_append [OF progress_wf_default, of d x skip] none assms(2) by simp
  with wf poll_Some_bounds [OF progress_wf_append, of p d x skip e] show ?thesis
    by (cases "poll p (d @ x) skip") auto
qed

text \<open>An incomplete section longer than the limit stays unparsable.\<close>

lemma past_limit:
  assumes "section_parser parse skip limit" and "parse d = Inr None" and "limit < length d"
  shows "parse (d @ x) \<noteq> Inr (Some r)"
proof
  assume "parse (d @ x) = Inr (Some r)"
  then obtain e where "fst (poll progress_default (d @ x) skip) = Some e" and "e \<le> limit"
    using section_parserD(3,4) [OF assms(1)] by (cases r) blast
  with poll_default_later [OF section_parserD(6) [OF assms(1,2)]] assms(3) show False by fastforce
qed

lemma parse_request_head_streams:
  assumes "streams (hp_parse_request hp) True"
  shows "section_parser (\<lambda>d. parse_request_head hp d mb mh) True mb"
proof (rule section_parserI)
  fix d x r f e q
  note laws = streamsD [OF assms]
  have same: "parse_request_head hp (d @ x) mb mh = parse_request_head hp d mb mh"
    if "hp_parse_request hp d mh = Inr (Some s)" for s
    using laws(1) [OF that, of x] that by (simp add: parse_request_head_def)
  have complete: "parse_request_head hp d mb mh = Inr (Some r) \<Longrightarrow> \<exists>s. hp_parse_request hp d mh = Inr (Some s)" for r
    by (auto simp: parse_request_head_def split: sum.splits option.splits)
  show "parse_request_head hp d mb mh = Inr (Some r) \<Longrightarrow> parse_request_head hp (d @ x) mb mh = Inr (Some r)"
    using complete same by metis
  show "isl (parse_request_head hp (d @ x) mb mh)" if err: "parse_request_head hp d mb mh = Inl f"
  proof (cases "hp_parse_request hp d mh")
    case (Inl g)
    from laws(2) [OF this, of x] show ?thesis by (auto simp: parse_request_head_def)
  next
    case (Inr o_res)
    with err obtain s where "hp_parse_request hp d mh = Inr (Some s)"
      by (cases o_res) (auto simp: parse_request_head_def)
    with same err show ?thesis by simp
  qed
  show "parse_request_head hp d mb mh = Inr (Some (e, q)) \<Longrightarrow> fst (poll progress_default d True) = Some e \<and> e \<le> mb"
    using laws(3) [of d mh] by (auto simp: parse_request_head_def split: sum.splits option.splits if_splits)
  show "parse_request_head hp [] mb mh = Inr None" using laws(5) by (simp add: parse_request_head_def)
  show "parse_request_head hp d mb mh = Inr None \<Longrightarrow> fst (poll progress_default d True) = None"
    using laws(4) [of d mh] by (auto simp: parse_request_head_def split: sum.splits option.splits if_splits)
qed

lemma parse_response_head_streams:
  assumes "streams (hp_parse_response hp) True"
  shows "section_parser (\<lambda>d. parse_response_head hp d mb mh) True mb"
proof (rule section_parserI)
  fix d x r f e q
  note laws = streamsD [OF assms]
  have same: "parse_response_head hp (d @ x) mb mh = parse_response_head hp d mb mh"
    if "hp_parse_response hp d mh = Inr (Some s)" for s
  proof -
    obtain e p where s: "s = (e, p)" by fastforce
    with laws(3) that have "e \<le> length d" using poll_default_bounds by blast
    then have "take e (d @ x) = take e d" by simp
    with laws(1) [OF that, of x] that show ?thesis
      unfolding parse_response_head_def s by (simp only: length_header_slots sum.case option.case prod.case)
  qed
  have complete: "parse_response_head hp d mb mh = Inr (Some r) \<Longrightarrow> \<exists>s. hp_parse_response hp d mh = Inr (Some s)" for r
    by (auto simp: parse_response_head_def Let_def split: sum.splits option.splits)
  show "parse_response_head hp d mb mh = Inr (Some r) \<Longrightarrow> parse_response_head hp (d @ x) mb mh = Inr (Some r)"
    using complete same by metis
  show "isl (parse_response_head hp (d @ x) mb mh)" if err: "parse_response_head hp d mb mh = Inl f"
  proof (cases "hp_parse_response hp d mh")
    case (Inl g)
    from laws(2) [OF this, of x] show ?thesis by (auto simp: parse_response_head_def)
  next
    case (Inr o_res)
    with err obtain s where "hp_parse_response hp d mh = Inr (Some s)"
      by (cases o_res) (auto simp: parse_response_head_def)
    with same err show ?thesis by simp
  qed
  show "parse_response_head hp d mb mh = Inr (Some (e, q)) \<Longrightarrow> fst (poll progress_default d True) = Some e \<and> e \<le> mb"
    using laws(3) [of d mh] by (auto simp: parse_response_head_def Let_def split: sum.splits option.splits if_splits)
  show "parse_response_head hp [] mb mh = Inr None" using laws(5) by (simp add: parse_response_head_def)
  show "parse_response_head hp d mb mh = Inr None \<Longrightarrow> fst (poll progress_default d True) = None"
    using laws(4) [of d mh] by (auto simp: parse_response_head_def Let_def split: sum.splits option.splits if_splits)
qed

lemma parse_trailers_streams:
  assumes "streams (hp_parse_headers hp) False"
  shows "section_parser (\<lambda>d. parse_trailers hp d mb mh False) False mb"
proof (rule section_parserI)
  fix d x r f e q
  note laws = streamsD [OF assms]
  let ?o = "\<lambda>d. fst (poll progress_default d False)"
  have some: "?o d = Some e \<Longrightarrow> ?o (d @ x) = Some e" for e by (rule poll_default_append)
  show "parse_trailers hp d mb mh False = Inr (Some r) \<Longrightarrow> parse_trailers hp (d @ x) mb mh False = Inr (Some r)"
    using some laws(1) [of d mh _ x] laws(3) [of d mh]
    by (cases "hp_parse_headers hp d mh"; cases "projr (hp_parse_headers hp d mh)")
       (auto simp: parse_trailers_def Let_def split: if_splits)
  show "isl (parse_trailers hp (d @ x) mb mh False)" if err: "parse_trailers hp d mb mh False = Inl f"
  proof (cases "(case ?o d of Some e \<Rightarrow> e | None \<Rightarrow> length d) > mb")
    case True
    have "(case ?o (d @ x) of Some e \<Rightarrow> e | None \<Rightarrow> length (d @ x)) > mb"
      using True some poll_default_later [of d False x] by (fastforce split: option.splits)
    then show ?thesis by (simp add: parse_trailers_def)
  next
    case False
    with err obtain g where "hp_parse_headers hp d mh = Inl g"
      by (auto simp: parse_trailers_def Let_def split: sum.splits option.splits if_splits)
    from laws(2) [OF this, of x] show ?thesis by (auto simp: parse_trailers_def Let_def)
  qed
  show "parse_trailers hp d mb mh False = Inr (Some (e, q)) \<Longrightarrow> ?o d = Some e \<and> e \<le> mb"
    using laws(3) [of d mh] by (auto simp: parse_trailers_def Let_def split: sum.splits option.splits if_splits)
  show "parse_trailers hp [] mb mh False = Inr None"
    using laws(5) by (simp add: parse_trailers_def Let_def poll_stop progress_default_def)
  show "parse_trailers hp d mb mh False = Inr None \<Longrightarrow> ?o d = None"
    using laws(4) [of d mh] by (auto simp: parse_trailers_def Let_def split: sum.splits option.splits if_splits)
qed

text \<open>Without folds in the buffer, a client parses trailers as a server does.\<close>

lemma parse_trailers_no_fold: "\<not> has_fold d \<Longrightarrow> parse_trailers hp d mb mh uf = parse_trailers hp d mb mh False"
  by (cases uf) (simp_all add: parse_trailers_def Let_def normalize_obs_fold_def)

text \<open>The three parsers of the crate.\<close>

lemma section_parsers:
  assumes "httparse_streams hp"
  shows "section_parser (\<lambda>d. parse_request_head hp d mb mh) True mb"
    "section_parser (\<lambda>d. parse_response_head hp d mb mh) True mb"
    "section_parser (\<lambda>d. parse_trailers hp d mb mh False) False mb"
  using assms
  by (simp_all add: httparse_streams_def parse_request_head_streams parse_response_head_streams parse_trailers_streams)

section \<open>The hypotheses can hold\<close>

lemma sample_streams:
  assumes "\<And>d n. parse d n = (case fst (poll progress_default d skip) of None \<Rightarrow> Inr None
      | Some e \<Rightarrow> (case f (take e d) n of Inl g \<Rightarrow> Inl g | Inr p \<Rightarrow> Inr (Some (e, p))))"
  shows "streams parse skip"
  unfolding streams_def
proof (intro allI conjI impI)
  fix d x n r e p
  let ?o = "fst (poll progress_default d skip)"
  have more: "parse (d @ x) n = parse d n" if "?o = Some e" for e
    using poll_default_append [OF that, of x] poll_default_bounds [OF that] that by (simp add: assms)
  show "parse d n = Inr (Some r) \<Longrightarrow> parse (d @ x) n = Inr (Some r)"
    using more by (cases ?o) (auto simp: assms)
  show "isl (parse d n) \<Longrightarrow> isl (parse (d @ x) n)"
    using more by (cases ?o) (auto simp: assms)
  show "parse d n = Inr (Some (e, p)) \<Longrightarrow> ?o = Some e"
    by (auto simp: assms split: option.splits sum.splits)
  show "parse d n = Inr None \<Longrightarrow> ?o = None"
    by (auto simp: assms split: option.splits sum.splits)
  show "parse [] n = Inr None" by (simp add: assms poll_stop progress_default_def)
qed

lemma sample_httparse_streams: "httparse_streams sample_httparse"
proof -
  have "streams sample_parse_request True"
    by (rule sample_streams [where f = "\<lambda>section n.
        case sample_lines section of [] \<Rightarrow> Inl False
        | l # ls \<Rightarrow>
            (case (split_on (\<lambda>b. b = SP) l, sample_fields ls n) of
               ([method, target, vsn], Inr hs) \<Rightarrow>
                 Inr \<lparr>hp_req_version = sample_version vsn, hp_req_method = Some method,
                      hp_req_path = Some target, hp_req_headers = hs\<rparr>
             | (_, Inl error) \<Rightarrow> Inl error
             | _ \<Rightarrow> Inl False)"])
       (simp add: sample_parse_request_def split: option.split list.split sum.split)
  moreover have "streams sample_parse_response True"
    by (rule sample_streams [where f = "\<lambda>section n.
        case sample_lines section of [] \<Rightarrow> Inl False
        | l # ls \<Rightarrow>
            (case (parse_number (take 3 (drop 9 l)) 10, sample_fields ls n) of
               (Some code, Inr hs) \<Rightarrow>
                 Inr \<lparr>hp_resp_version = sample_version (take 8 l),
                      hp_resp_code = Some (of_nat code), hp_resp_headers = hs\<rparr>
             | (_, Inl error) \<Rightarrow> Inl error
             | _ \<Rightarrow> Inl False)"])
       (simp add: sample_parse_response_def split: option.split list.split sum.split)
  moreover have "streams sample_parse_headers False"
    by (rule sample_streams [where f = "\<lambda>section n. sample_fields (sample_lines section) n"])
       (simp add: sample_parse_headers_def split: option.split sum.split)
  ultimately show ?thesis by (simp add: httparse_streams_def sample_httparse_def)
qed

end
