(* ===== verification/Reading.thy ===== *)
theory Reading
  imports Connection_Inv
begin

text \<open>
  Induction over a poll.  \<^verbatim>\<open>next_event_inner\<close> returns at once, reads a head, a piece of a body or trailers, or
  passes a line between two chunks and starts over on what is left.  The rule \<open>reading_induct\<close> has one case for
  each of these; the two lines between chunks, the size line and the line end behind the data, are one
  step (\<open>line_step\<close>).
\<close>

definition line_step :: "Chunk \<Rightarrow> Connection \<Rightarrow> (NextEvent remote_result + Connection) option" where
  "line_step k c =
     (case k of
        Ck_Size n \<Rightarrow> Some (chunk_size_step n c)
      | Ck_DataEnd \<Rightarrow> Some (chunk_data_end_step c)
      | _ \<Rightarrow> None)"

lemma line_step_cases [consumes 1, case_names size_line line_end]:
  assumes "line_step k c = Some s"
  obtains n where "k = Ck_Size n" and "chunk_size_step n c = s"
    | "k = Ck_DataEnd" and "chunk_data_end_step c = s"
  using assms by (auto simp: line_step_def split: Chunk.splits)

lemma line_step_None:
  "line_step k c = None \<longleftrightarrow> k = Ck_Trailers \<or> (\<exists>n f. k = Ck_Data n f)"
  by (simp add: line_step_def split: Chunk.split)

lemma read_chunked_line:
  "line_step k c = Some s \<Longrightarrow>
     read_chunked hp k c = (case s of Inl r \<Rightarrow> r | Inr d \<Rightarrow> next_event_inner hp d)"
  by (erule line_step_cases) (simp_all add: read_chunked.simps)

lemma read_chunked_other:
  "read_chunked hp (Ck_Data n f) c = chunk_data n f c" "read_chunked hp Ck_Trailers c = read_trailers hp c"
  by (simp_all add: read_chunked.simps)

lemma line_step_shorter: "line_step k c = Some (Inr d) \<Longrightarrow> length (unread d) < length (unread c)"
  by (erule line_step_cases) (auto dest: chunk_size_step_Inr chunk_data_end_step_Inr)

lemma line_step_ok:
  "line_step k c = Some (Inr d) \<Longrightarrow> receive_ok c \<Longrightarrow> conn_reader c = R_Chunked k \<Longrightarrow> receive_ok d"
  by (erule line_step_cases) (auto intro: chunk_size_step_ok chunk_data_end_step_ok)

text \<open>What a poll does once the state of the peer lets it read.\<close>

lemma inner_reads:
  assumes "peer_state_return c = None"
  shows "next_event_inner hp c =
    (case conn_reader c of
       R_Head \<Rightarrow> read_head hp c
     | R_Fixed n \<Rightarrow> read_fixed n c
     | R_CloseDelimited \<Rightarrow> read_close_delimited c
     | R_Chunked k \<Rightarrow> read_chunked hp k c)"
  using assms by (simp add: next_event_inner.simps [of hp c])

lemma inner_returns: "peer_state_return c = Some r \<Longrightarrow> next_event_inner hp c = r"
  by (simp add: next_event_inner.simps [of hp c])

lemma reading_induct [case_names return head fixed close_delimited line_stops line_passed data trailers]:
  fixes hp :: "'e httparse"
  assumes "\<And>c r. peer_state_return c = Some r \<Longrightarrow> P c r"
    and "\<And>c. peer_state_return c = None \<Longrightarrow> conn_reader c = R_Head \<Longrightarrow> P c (read_head hp c)"
    and "\<And>c n. peer_state_return c = None \<Longrightarrow> conn_reader c = R_Fixed n \<Longrightarrow> P c (read_fixed n c)"
    and "\<And>c. peer_state_return c = None \<Longrightarrow> conn_reader c = R_CloseDelimited \<Longrightarrow> P c (read_close_delimited c)"
    and "\<And>c k r. peer_state_return c = None \<Longrightarrow> conn_reader c = R_Chunked k \<Longrightarrow> line_step k c = Some (Inl r) \<Longrightarrow> P c r"
    and "\<And>c k d. peer_state_return c = None \<Longrightarrow> conn_reader c = R_Chunked k \<Longrightarrow> line_step k c = Some (Inr d)
      \<Longrightarrow> P d (next_event_inner hp d) \<Longrightarrow> P c (next_event_inner hp d)"
    and "\<And>c n f. peer_state_return c = None \<Longrightarrow> conn_reader c = R_Chunked (Ck_Data n f) \<Longrightarrow> P c (chunk_data n f c)"
    and "\<And>c. peer_state_return c = None \<Longrightarrow> conn_reader c = R_Chunked Ck_Trailers \<Longrightarrow> P c (read_trailers hp c)"
  shows "P c (next_event_inner hp c)"
proof (induction "length (unread c)" arbitrary: c rule: less_induct)
  case less
  show ?case
  proof (cases "peer_state_return c")
    case None
    have "P c (read_chunked hp k c)" if k: "conn_reader c = R_Chunked k" for k
    proof (cases "line_step k c")
      case None
      then show ?thesis using assms(7,8) \<open>peer_state_return c = None\<close> k
        by (auto simp: line_step_None read_chunked_other)
    next
      case (Some s)
      then show ?thesis using assms(5,6) \<open>peer_state_return c = None\<close> k less [OF line_step_shorter]
        by (auto simp: read_chunked_line split: sum.split)
    qed
    with None assms(2-4) show ?thesis by (simp add: inner_reads split: Reader.split)
  qed (simp add: assms(1) inner_returns)
qed

end
