(* ===== verification/Input_View.thy ===== *)
theory Input_View
  imports Bodies Section_Parser Reading
begin

text \<open>
  What \<^verbatim>\<open>next_event\<close> sees of the input buffer: the unread bytes, not their representation.  Every step of
  receiving commutes with a change of the buffer that keeps the unread bytes, so a connection may be
  replaced by the one whose buffer holds just these bytes.
\<close>

section \<open>The representation of the buffer\<close>

definition bare :: "u8 list \<Rightarrow> Buffer" where
  "bare d = \<lparr>buf_bytes = d, buf_start = 0\<rparr>"

lemma as_slice_bare [simp]: "as_slice (bare d) = d"
  by (simp add: bare_def as_slice_def)

definition settle :: "Connection \<Rightarrow> Connection" where
  "settle c = c\<lparr>input := bare (unread c)\<rparr>"

lemma unread_settle [simp]: "unread (settle c) = unread c"
  by (simp add: settle_def)

lemma advance_peer_input:
  "advance_peer e (c\<lparr>input := b\<rparr>) = apsnd (\<lambda>d. d\<lparr>input := b\<rparr>) (advance_peer e c)"
  by (simp add: advance_peer_def split: prod.split)

lemma and_then_commutes:
  assumes "m' = apsnd g m" and "\<And>u d. f u (g d) = apsnd g (f u d)"
  shows "and_then m' f = apsnd g (and_then m f)"
  using assms by (cases m) (auto simp: and_then_def split: sum.splits)

lemma apply_persistence_input:
  "apply_persistence v hs (d\<lparr>input := b\<rparr>) = (apply_persistence v hs d)\<lparr>input := b\<rparr>"
  by (simp add: apply_persistence_def Let_def)

lemma accept_request_input:
  "accept_request q (c\<lparr>input := b\<rparr>) = apsnd (\<lambda>d. d\<lparr>input := b\<rparr>) (accept_request q c)"
  unfolding accept_request_def Let_def
  by (auto intro!: and_then_commutes advance_peer_input simp: apply_persistence_input split: sum.split)

lemma after_response_input: "after_response q (d\<lparr>input := b\<rparr>) = (after_response q d)\<lparr>input := b\<rparr>"
  by (simp add: after_response_def apply_persistence_input)

lemma after_info_input: "after_info q (d\<lparr>input := b\<rparr>) = (after_info q d)\<lparr>input := b\<rparr>"
  by (simp add: after_info_def)

lemma response_tests_input [simp]:
  "bodiless s (c\<lparr>input := b\<rparr>) = bodiless s c" "switches_connect s (c\<lparr>input := b\<rparr>) = switches_connect s c"
  "valid_upgrade_response v hs (c\<lparr>input := b\<rparr>) = valid_upgrade_response v hs c"
  by (simp_all add: bodiless_def switches_connect_def request_is_def valid_upgrade_response_def split: option.split)

lemma accept_response_input:
  "accept_response q (c\<lparr>input := b\<rparr>) = apsnd (\<lambda>d. d\<lparr>input := b\<rparr>) (accept_response q c)"
proof (cases "is_informational (resp_status q)")
  case True
  then show ?thesis
    by (auto intro!: and_then_commutes advance_peer_input simp: accept_response_info after_info_input)
next
  case False
  show ?thesis
    unfolding accept_response_final [OF False] response_tests_input
    by (rule and_then_commutes [OF advance_peer_input]) (auto simp: after_response_input split: sum.split)
qed

lemma peer_events_input:
  "peer_data d s e (c\<lparr>input := b\<rparr>) = apsnd (\<lambda>d. d\<lparr>input := b\<rparr>) (peer_data d s e c)"
  "finish_peer t (c\<lparr>input := b\<rparr>) = apsnd (\<lambda>d. d\<lparr>input := b\<rparr>) (finish_peer t c)"
  "peer_closed (c\<lparr>input := b\<rparr>) = apsnd (\<lambda>d. d\<lparr>input := b\<rparr>) (peer_closed c)"
  unfolding peer_data_def finish_peer_def peer_closed_def
  by (rule and_then_commutes [OF advance_peer_input]; simp)+

lemmas input_moves = accept_request_input accept_response_input peer_events_input

lemma settle_upd [simp]: "settle (c\<lparr>input := b\<rparr>) = c\<lparr>input := bare (as_slice b)\<rparr>"
  by (simp add: settle_def)

text \<open>Updates of the input are moved outermost.\<close>

lemma upd_swap [simp]:
  "c\<lparr>input := b, progress := p\<rparr> = c\<lparr>progress := p, input := b\<rparr>"
  "c\<lparr>input := b, conn_reader := r\<rparr> = c\<lparr>conn_reader := r, input := b\<rparr>"
  by (cases c; simp)+

lemma min_zero [simp]: "min a b = (0 :: nat) \<longleftrightarrow> a = 0 \<or> b = 0"
  by (auto simp: min_def)

lemma moved_settle:
  assumes "\<And>c b. f (c\<lparr>input := b\<rparr>) = apsnd (\<lambda>d. d\<lparr>input := b\<rparr>) (f c)"
  shows "apsnd settle (f (c\<lparr>input := b\<rparr>)) = apsnd (\<lambda>d. d\<lparr>input := bare (as_slice b)\<rparr>) (f c)"
  unfolding assms by (cases "f c") simp

lemmas settle_moves = input_moves [THEN moved_settle]

text \<open>A step sees only the unread bytes of the buffer.\<close>

definition slice_only :: "(Connection \<Rightarrow> 'a \<times> Connection) \<Rightarrow> bool" where
  "slice_only f \<longleftrightarrow>
     (\<forall>c b. apsnd settle (f (c\<lparr>input := b\<rparr>)) = apsnd settle (f (c\<lparr>input := bare (as_slice b)\<rparr>)))"

lemma need_data_or_eof_settle:
  "apsnd settle (need_data_or_eof m (c\<lparr>input := b\<rparr>)) =
     (if eof c then Inl (remote_err m (Some 400)) else Inr NE_NeedData, c\<lparr>input := bare (as_slice b)\<rparr>)"
  by (simp add: need_data_or_eof_def)

lemma peer_state_return_settle:
  "map_option (apsnd settle) (peer_state_return (c\<lparr>input := b\<rparr>)) =
     map_option (apsnd settle) (peer_state_return (c\<lparr>input := bare (as_slice b)\<rparr>))"
  by (simp add: peer_state_return_def settle_moves split: State.State.split)

lemma wait_for_section_settle: "slice_only (wait_for_section skip)"
  by (simp add: slice_only_def wait_for_section_def Let_def need_data_or_eof_def)

text \<open>The search that precedes a parse: whether to go on, and the progress to keep.\<close>

definition search :: "bool \<Rightarrow> SectionProgress option \<Rightarrow> u8 list \<Rightarrow> bool \<Rightarrow> bool \<times> SectionProgress option" where
  "search ended p d skip =
     (if ended then (True, p)
      else case p of
        None \<Rightarrow> (True, None)
      | Some p \<Rightarrow> (case poll p d skip of (found, p) \<Rightarrow> (found \<noteq> None, Some p)))"

lemma section_ready_search:
  "section_ready skip c =
     (case search (eof c) (progress c) (unread c) skip of (ready, p) \<Rightarrow> (ready, c\<lparr>progress := p\<rparr>))"
  by (cases c) (auto simp: section_ready_def search_def split: option.split prod.split)

lemma read_head_search:
  "read_head hp c =
     (case search (eof c) (progress c) (unread c) True of (ready, p) \<Rightarrow>
        if \<not> ready then wait_for_section True (c\<lparr>progress := p\<rparr>)
        else if conn_role c = Server then
          (case parse_request_head hp (unread c) (max_head_bytes (limits c)) (max_header_count (limits c)) of
             Inl e \<Rightarrow> (Inl e, c\<lparr>progress := p\<rparr>)
           | Inr None \<Rightarrow> wait_for_section True (c\<lparr>progress := p\<rparr>)
           | Inr (Some (n, q)) \<Rightarrow> accept_request q (c\<lparr>progress := None, input := buffer_consume (input c) n\<rparr>))
        else
          (case parse_response_head hp (unread c) (max_head_bytes (limits c)) (max_header_count (limits c)) of
             Inl e \<Rightarrow> (Inl e, c\<lparr>progress := p\<rparr>)
           | Inr None \<Rightarrow> wait_for_section True (c\<lparr>progress := p\<rparr>)
           | Inr (Some (n, q)) \<Rightarrow> accept_response q (c\<lparr>progress := None, input := buffer_consume (input c) n\<rparr>)))"
  by (simp add: read_head_def section_ready_search Let_def split: prod.split sum.split option.split)

lemma read_trailers_search:
  "read_trailers hp c =
     (case search (eof c) (progress c) (unread c) False of (ready, p) \<Rightarrow>
        if \<not> ready then wait_for_section False (c\<lparr>progress := p\<rparr>)
        else
          (case parse_trailers hp (unread c) (max_head_bytes (limits c)) (max_header_count (limits c))
                  (conn_role c = Client) of
             Inl e \<Rightarrow> (Inl e, c\<lparr>progress := p\<rparr>)
           | Inr None \<Rightarrow> wait_for_section False (c\<lparr>progress := p\<rparr>)
           | Inr (Some (n, t)) \<Rightarrow> finish_peer t (c\<lparr>progress := None, input := buffer_consume (input c) n\<rparr>)))"
  by (simp add: read_trailers_def section_ready_search Let_def split: prod.split sum.split option.split)

lemma slice_onlyD:
  "slice_only f \<Longrightarrow> apsnd settle (f (c\<lparr>input := b\<rparr>)) = apsnd settle (f (c\<lparr>input := bare (as_slice b)\<rparr>))"
  by (simp add: slice_only_def)

lemma slice_only_moves:
  "slice_only (accept_request q)" "slice_only (accept_response r)" "slice_only (peer_data d s e)"
  "slice_only (finish_peer t)" "slice_only peer_closed"
  by (simp_all add: slice_only_def settle_moves)

lemma read_head_settle: "slice_only (read_head hp)"
  unfolding slice_only_def read_head_search
  using slice_onlyD [OF wait_for_section_settle [of True]]
  by (simp add: settle_moves split: sum.split option.split prod.split)

lemma read_trailers_settle: "slice_only (read_trailers hp)"
  unfolding slice_only_def read_trailers_search
  using slice_onlyD [OF wait_for_section_settle [of False]]
  by (simp add: settle_moves split: sum.split option.split prod.split)

lemma body_readers_settle: "slice_only (chunk_data n f)" "slice_only (read_fixed n)" "slice_only read_close_delimited"
  unfolding slice_only_def chunk_data_def read_fixed_def read_close_delimited_def
  by (simp_all add: settle_moves need_data_or_eof_settle buffer_take_def Let_def)

lemma chunk_steps_settle:
  "map_sum (apsnd settle) settle (chunk_size_step n (c\<lparr>input := b\<rparr>)) =
     map_sum (apsnd settle) settle (chunk_size_step n (c\<lparr>input := bare (as_slice b)\<rparr>))"
  "map_sum (apsnd settle) settle (chunk_data_end_step (c\<lparr>input := b\<rparr>)) =
     map_sum (apsnd settle) settle (chunk_data_end_step (c\<lparr>input := bare (as_slice b)\<rparr>))"
  by (simp_all add: chunk_size_step_def chunk_data_end_step_def chunk_line_too_long_def Let_def
      need_data_or_eof_settle split: option.split)

lemma settle_settle [simp]: "settle (settle c) = settle c"
  by (simp add: settle_def)

lemma step_settle:
  assumes "map_sum (apsnd settle) settle s = map_sum (apsnd settle) settle s'"
    and "\<And>c. s = Inr c \<Longrightarrow> apsnd settle (f c) = apsnd settle (f (settle c))"
    and "\<And>c. s' = Inr c \<Longrightarrow> apsnd settle (f c) = apsnd settle (f (settle c))"
  shows "apsnd settle (case s of Inl r \<Rightarrow> r | Inr c \<Rightarrow> f c) = apsnd settle (case s' of Inl r \<Rightarrow> r | Inr c \<Rightarrow> f c)"
proof (cases s)
  case (Inr c)
  with assms(1) obtain d where "s' = Inr d" "settle d = settle c" by (cases s') auto
  with Inr assms(2) [of c] assms(3) [of d] show ?thesis by simp
qed (use assms(1) in \<open>cases s'; simp\<close>)

lemma line_step_settle:
  assumes "\<And>e. length (unread e) < length (unread c)
      \<Longrightarrow> apsnd settle (next_event_inner hp e) = apsnd settle (next_event_inner hp (settle e))"
    and "line_step k c = Some s"
  shows "apsnd settle (read_chunked hp k c) = apsnd settle (read_chunked hp k (settle c))"
proof -
  have d: "settle c = c\<lparr>input := bare (unread c)\<rparr>" by (simp add: settle_def)
  obtain s' where s': "line_step k (settle c) = Some s'" "map_sum (apsnd settle) settle s = map_sum (apsnd settle) settle s'"
    using assms(2) chunk_steps_settle [where c = c and b = "input c"]
    by (cases rule: line_step_cases) (auto simp: line_step_def d)
  show ?thesis
    unfolding read_chunked_line [OF assms(2)] read_chunked_line [OF s'(1)]
  proof (rule step_settle [OF s'(2)])
    show "apsnd settle (next_event_inner hp e) = apsnd settle (next_event_inner hp (settle e))" if "s = Inr e" for e
      using assms(2) that by (intro assms(1)) (auto dest: line_step_shorter)
    show "apsnd settle (next_event_inner hp e) = apsnd settle (next_event_inner hp (settle e))" if "s' = Inr e" for e
      using s'(1) that by (intro assms(1)) (auto dest: line_step_shorter)
  qed
qed

lemma inner_settle: "apsnd settle (next_event_inner hp c) = apsnd settle (next_event_inner hp (settle c))"
proof (induction "length (unread c)" arbitrary: c rule: less_induct)
  case less
  let ?d = "settle c"
  have d: "?d = c\<lparr>input := bare (unread c)\<rparr>" by (simp add: settle_def)
  have reads: "apsnd settle (f c) = apsnd settle (f ?d)" if "slice_only f" for f :: "Connection \<Rightarrow> NextEvent remote_result"
    using slice_onlyD [OF that, where c = c and b = "input c"] by (simp add: d)
  have chunked: "apsnd settle (read_chunked hp k c) = apsnd settle (read_chunked hp k ?d)" for k
  proof (cases "line_step k c")
    case None
    with reads [OF body_readers_settle(1)] reads [OF read_trailers_settle [of hp]] show ?thesis
      by (auto simp: line_step_None read_chunked_other)
  qed (rule line_step_settle [OF less])
  have ret: "map_option (apsnd settle) (peer_state_return c) = map_option (apsnd settle) (peer_state_return ?d)"
    using peer_state_return_settle [where c = c and b = "input c"] by (simp add: d)
  show ?case
  proof (cases "peer_state_return c")
    case None
    with ret have "peer_state_return ?d = None" by simp
    moreover have "conn_reader ?d = conn_reader c" by (simp add: settle_def)
    ultimately show ?thesis
      using None chunked reads [OF read_head_settle [of hp]] reads [OF body_readers_settle(2)] reads [OF body_readers_settle(3)]
      by (simp add: inner_reads split: Reader.split)
  next
    case (Some r)
    with ret obtain r' where "peer_state_return ?d = Some r'" "apsnd settle r = apsnd settle r'"
      by (cases "peer_state_return ?d") auto
    with Some show ?thesis by (simp add: inner_returns)
  qed
qed

end
