(* ===== verification/Resumption.thy ===== *)
theory Resumption
  imports Input_View
begin

text \<open>
  Interrupted searches.  Between two arrivals a connection keeps how far it searched for the end of a
  section or of a chunk line.  A connection that resumes such a search agrees with one that reads
  its unread bytes from scratch, with one exception: while the end of the section is missing it asks
  for more data, where a parse from scratch may already find an error.
\<close>

section \<open>Reading a section\<close>

definition read_section ::
  "(u8 list \<Rightarrow> RemoteProtocolError + (usize \<times> 'q) option) \<Rightarrow> ('q \<Rightarrow> Connection \<Rightarrow> NextEvent remote_result)
     \<Rightarrow> bool \<Rightarrow> Connection \<Rightarrow> NextEvent remote_result" where
  "read_section parse accept skip c =
     (case search (eof c) (progress c) (unread c) skip of (ready, p) \<Rightarrow>
        if \<not> ready then wait_for_section skip (c\<lparr>progress := p\<rparr>)
        else
          (case parse (unread c) of
             Inl e \<Rightarrow> (Inl e, c\<lparr>progress := p\<rparr>)
           | Inr None \<Rightarrow> wait_for_section skip (c\<lparr>progress := p\<rparr>)
           | Inr (Some (n, q)) \<Rightarrow> accept q (c\<lparr>progress := None, input := buffer_consume (input c) n\<rparr>)))"

abbreviation head_limit :: "Connection \<Rightarrow> usize" where
  "head_limit c \<equiv> max_head_bytes (limits c)"

lemma read_head_section:
  "read_head hp c =
     (if conn_role c = Server
      then read_section (\<lambda>d. parse_request_head hp d (head_limit c) (max_header_count (limits c))) accept_request True c
      else read_section (\<lambda>d. parse_response_head hp d (head_limit c) (max_header_count (limits c))) accept_response True c)"
  by (simp add: read_head_search read_section_def split: prod.split)

lemma read_trailers_section:
  "read_trailers hp c =
     read_section (\<lambda>d. parse_trailers hp d (head_limit c) (max_header_count (limits c)) (conn_role c = Client))
       finish_peer False c"
  by (simp add: read_trailers_search read_section_def)

lemma wait_fails: "isl (fst (wait_for_section skip c)) \<longleftrightarrow> eof c \<or> head_limit c < length (unread c)"
  by (simp add: wait_for_section_def need_data_or_eof_def Let_def)

lemma wait_waits:
  "\<not> eof c \<Longrightarrow> length (unread c) \<le> head_limit c \<Longrightarrow>
     wait_for_section skip c =
       (Inr NE_NeedData,
        c\<lparr>progress := Some (snd (poll (case progress c of None \<Rightarrow> progress_default | Some p \<Rightarrow> p) (unread c) skip))\<rparr>)"
  by (simp add: wait_for_section_def need_data_or_eof_def Let_def)

lemma wait_progress:
  "fst (wait_for_section skip (c\<lparr>progress := p\<rparr>)) = fst (wait_for_section skip c)"
  "(snd (wait_for_section skip c))\<lparr>progress := None\<rparr> = c\<lparr>progress := None\<rparr>"
  by (simp_all add: wait_for_section_def need_data_or_eof_def Let_def)

section \<open>Interrupted searches\<close>

text \<open>The progress of a search is what a search of the bytes seen so far leaves.\<close>

definition search_resumes :: "SectionProgress option \<Rightarrow> u8 list \<Rightarrow> bool \<Rightarrow> bool" where
  "search_resumes p d skip \<longleftrightarrow>
     (case p of None \<Rightarrow> True
      | Some p \<Rightarrow> sp_at p \<le> length d \<and> poll progress_default (take (sp_at p) d) skip = (None, p))"

lemma search_resumes_poll: "search_resumes (Some p) d skip \<Longrightarrow> poll p d skip = poll progress_default d skip"
  using poll_append [OF progress_wf_default, of "take (sp_at p) d" "drop (sp_at p) d" skip]
  by (simp add: search_resumes_def)

lemma search_resumes_append: "search_resumes p d skip \<Longrightarrow> search_resumes p (d @ x) skip"
  by (auto simp: search_resumes_def split: option.splits)

lemma search_resumes_default:
  assumes "poll progress_default d skip = (None, p)"
  shows "search_resumes (Some p) d skip"
  using poll_None_at [OF progress_wf_default assms] assms by (simp add: search_resumes_def)

text \<open>Reading with the progress of an earlier search agrees with reading from scratch, except that it
  may still ask for data where a parse from scratch already reports the error.\<close>

lemma search_decides:
  assumes "search_resumes (progress c) d skip" and "progress c = Some p" and "\<not> eof c"
  obtains p' where "search (eof c) (progress c) d skip = (fst (poll progress_default d skip) \<noteq> None, p')"
  using assms search_resumes_poll [of p d skip] by (cases "poll progress_default d skip") (auto simp: search_def)

lemma section_lag:
  assumes "section_parser parse skip (head_limit c)" and "search_resumes (progress c) (unread c) skip"
  shows "let a = read_section parse accept skip c; f = read_section parse accept skip (c\<lparr>progress := None\<rparr>) in
    fst a = fst f \<and> (snd a)\<lparr>progress := None\<rparr> = (snd f)\<lparr>progress := None\<rparr>
    \<or> isl (fst a) \<and> isl (fst f)
    \<or> fst a = Inr NE_NeedData \<and> (snd a)\<lparr>progress := None\<rparr> = c\<lparr>progress := None\<rparr> \<and> isl (fst f)"
proof -
  have scratch: "search (eof c) None (unread c) skip = (True, None)" by (simp add: search_def)
  consider "progress c = None" | p where "progress c = Some p" "eof c"
    | p e where "progress c = Some p" "\<not> eof c" "fst (poll progress_default (unread c) skip) = Some e"
    | p where "progress c = Some p" "\<not> eof c" "fst (poll progress_default (unread c) skip) = None"
    by fastforce
  then show ?thesis
  proof cases
    case 1
    then have "c\<lparr>progress := None\<rparr> = c" by (cases c) simp
    then show ?thesis by simp
  next
    case 2
    then have "search (eof c) (progress c) (unread c) skip = (True, Some p)" by (simp add: search_def)
    with scratch show ?thesis
      by (simp add: read_section_def Let_def wait_progress split: sum.split option.split)
  next
    case 3
    then obtain p' where found: "search (eof c) (progress c) (unread c) skip = (True, p')"
      using search_decides [OF assms(2)] by auto
    have "parse (unread c) \<noteq> Inr None" using section_parserD(6) [OF assms(1)] 3(3) by force
    with found scratch show ?thesis
      by (simp add: read_section_def Let_def split: sum.split option.split)
  next
    case 4
    then obtain p' where missing: "search (eof c) (progress c) (unread c) skip = (False, p')"
      using search_decides [OF assms(2)] by auto
    have incomplete: "parse (unread c) \<noteq> Inr (Some r)" for r
      using section_parserD(3) [OF assms(1), of "unread c"] 4(3) by (cases r) force
    have waits: "fst (wait_for_section skip (c\<lparr>progress := p'\<rparr>)) = Inr NE_NeedData
        \<or> isl (fst (wait_for_section skip (c\<lparr>progress := p'\<rparr>)))"
      using wait_waits [of "c\<lparr>progress := p'\<rparr>" skip] wait_fails [of skip "c\<lparr>progress := p'\<rparr>"] 4(2)
      by (cases "length (unread c) \<le> head_limit c") auto
    with missing scratch incomplete show ?thesis
      by (cases "parse (unread c)"; cases "projr (parse (unread c))")
         (auto simp: read_section_def Let_def wait_progress)
  qed
qed

lemma section_search_kept:
  assumes "section_parser parse skip (head_limit c)" and "search_resumes (progress c) (unread c) skip"
    and "read_section parse accept skip c = (Inr NE_NeedData, c')" and "\<And>q d. fst (accept q d) \<noteq> Inr NE_NeedData"
  shows "\<exists>p. c' = c\<lparr>progress := p\<rparr> \<and> search_resumes p (unread c) skip"
proof -
  obtain found p where poll: "poll progress_default (unread c) skip = (found, p)" by fastforce
  have again: "found = None \<Longrightarrow> poll p (unread c) skip = (None, p)"
    using poll_None_at [OF progress_wf_default] poll by (simp add: poll_stop)
  obtain ready q where srch: "search (eof c) (progress c) (unread c) skip = (ready, q)" by fastforce
  have wait: "wait_for_section skip (c\<lparr>progress := q\<rparr>) = (Inr NE_NeedData, c')"
    and none: "parse (unread c) = Inr None \<or> \<not> ready"
    using assms(3,4) srch
    by (auto simp: read_section_def split: if_splits sum.splits option.splits) (metis fst_conv)+
  have "isl (fst (wait_for_section skip (c\<lparr>progress := q\<rparr>))) = False" by (simp add: wait)
  then have ok: "\<not> eof c" "length (unread c) \<le> head_limit c" unfolding wait_fails by simp_all
  have start: "progress c = None \<and> q = None \<or> (\<exists>r. progress c = Some r) \<and> q = Some p \<and> (ready \<longleftrightarrow> found \<noteq> None)"
    using srch ok(1) assms(2) search_resumes_poll poll by (auto simp: search_def split: option.splits)
  moreover have "parse (unread c) = Inr None \<Longrightarrow> found = None"
    using section_parserD(6) [OF assms(1), of "unread c"] poll by simp
  ultimately have "found = None" using none srch ok(1) by (auto simp: search_def)
  with start wait_waits [of "c\<lparr>progress := q\<rparr>" skip] ok wait again poll
  have "c' = c\<lparr>progress := Some p\<rparr>" by auto
  with search_resumes_default poll \<open>found = None\<close> show ?thesis by blast
qed

lemma moved_progress:
  "advance_peer e c = (r, c') \<Longrightarrow> progress c' = progress c"
  "peer_data d s e' c = (r', c') \<Longrightarrow> progress c' = progress c"
  "finish_peer t c = (r', c') \<Longrightarrow> progress c' = progress c"
  "peer_closed c = (r', c') \<Longrightarrow> progress c' = progress c"
  by (auto simp: advance_peer_def peer_data_def finish_peer_def peer_closed_def and_then_def
      split: prod.splits sum.splits)

lemma accept_progress:
  "accept_request q c = (r, c') \<Longrightarrow> progress c' = progress c"
  "accept_response q' c = (r, c') \<Longrightarrow> progress c' = progress c"
proof -
  show "accept_request q c = (r, c') \<Longrightarrow> progress c' = progress c"
    by (auto simp: accept_request_def Let_def and_then_def dest!: moved_progress(1) split: if_splits prod.splits sum.splits)
  show "accept_response q' c = (r, c') \<Longrightarrow> progress c' = progress c"
    by (cases "is_informational (resp_status q')")
       (auto simp: accept_response_info accept_response_final and_then_def dest!: moved_progress(1)
         split: if_splits prod.splits sum.splits)
qed

lemma section_event_progress:
  assumes "read_section parse accept skip c = (Inr e, c')" and "e \<noteq> NE_NeedData"
    and "\<And>q d r d'. accept q d = (r, d') \<Longrightarrow> progress d' = progress d"
  shows "progress c' = None"
proof -
  have "wait_for_section skip d \<noteq> (Inr e, c')" for d
    using assms(2) by (auto simp: wait_for_section_def need_data_or_eof_def Let_def)
  with assms(1,3) show ?thesis
    by (auto simp: read_section_def split: prod.splits if_splits sum.splits option.splits)
qed

section \<open>Reading from scratch\<close>

fun rewind :: "Reader \<Rightarrow> Reader" where
  "rewind (R_Chunked (Ck_Size _)) = R_Chunked (Ck_Size 0)"
| "rewind r = r"

definition unwound :: "Connection \<Rightarrow> Connection" where
  "unwound c = c\<lparr>progress := None, conn_reader := rewind (conn_reader c)\<rparr>"

definition searched :: "Connection \<Rightarrow> bool" where
  "searched c \<longleftrightarrow> search_resumes (progress c) (unread c) (conn_reader c = R_Head)"

definition no_unfolding :: "Connection \<Rightarrow> bool" where
  "no_unfolding c \<longleftrightarrow> conn_role c = Server \<or> \<not> has_fold (unread c)"

definition lagging :: "'e httparse \<Rightarrow> NextEvent remote_result \<Rightarrow> NextEvent remote_result \<Rightarrow> bool" where
  "lagging hp a f \<longleftrightarrow>
     fst a = fst f \<and> unwound (snd a) = unwound (snd f)
     \<or> isl (fst a) \<and> isl (fst f)
     \<or> fst a = Inr NE_NeedData \<and> isl (fst f) \<and> isl (fst (next_event_inner hp (unwound (snd a))))"

lemma rewind_rewind [simp]: "rewind (rewind r) = rewind r"
  by (cases r rule: rewind.cases) simp_all

lemma rewind_Head [simp]: "rewind r = R_Head \<longleftrightarrow> r = R_Head" "rewind r = R_Chunked Ck_Trailers \<longleftrightarrow> r = R_Chunked Ck_Trailers"
  by (cases r rule: rewind.cases; simp)+

lemma unwound_unwound [simp]: "unwound (unwound c) = unwound c"
  by (simp add: unwound_def)

lemma unwound_fields [simp]:
  "unread (unwound c) = unread c" "conn_role (unwound c) = conn_role c" "limits (unwound c) = limits c"
  "eof (unwound c) = eof c" "conn_state (unwound c) = conn_state c" "peer_state (unwound c) = peer_state c"
  by (simp_all add: unwound_def)

lemma unwound_same: "progress c = None \<Longrightarrow> rewind (conn_reader c) = conn_reader c \<Longrightarrow> unwound c = c"
  by (cases c) (simp add: unwound_def)

lemma unwound_progress:
  "c\<lparr>progress := None\<rparr> = d\<lparr>progress := None\<rparr> \<Longrightarrow> unwound c = unwound d"
  by (cases c; cases d) (simp add: unwound_def)

lemma peer_closed_unwound: "peer_closed (unwound c) = apsnd unwound (peer_closed c)"
  by (simp add: peer_closed_def advance_peer_def unwound_def and_then_def split: prod.split sum.split)

lemma peer_state_return_unwound:
  "peer_state_return (unwound c) = map_option (apsnd unwound) (peer_state_return c)"
  by (simp add: peer_state_return_def peer_closed_unwound split: State.State.split)

lemma lagging_same: "lagging hp a a"
  by (simp add: lagging_def)

lemma lagging_return: "lagging hp a (apsnd unwound a)"
  by (simp add: lagging_def)

lemma read_trailers_plain:
  assumes "no_unfolding c"
  shows "read_trailers hp c =
    read_section (\<lambda>d. parse_trailers hp d (head_limit c) (max_header_count (limits c)) False) finish_peer False c"
  using assms parse_trailers_no_fold [of "unread c" hp "head_limit c" "max_header_count (limits c)" True]
  by (cases "conn_role c") (simp_all add: no_unfolding_def read_trailers_section read_section_def split: prod.split)

lemma section_lagging:
  assumes "section_parser parse skip (head_limit c)" and "search_resumes (progress c) (unread c) skip"
    and "unwound c = c\<lparr>progress := None\<rparr>"
    and "next_event_inner hp (unwound c) = read_section parse accept skip (unwound c)"
  shows "lagging hp (read_section parse accept skip c) (next_event_inner hp (unwound c))"
proof -
  define a where "a = read_section parse accept skip c"
  define f where "f = next_event_inner hp (unwound c)"
  have "f = read_section parse accept skip (c\<lparr>progress := None\<rparr>)" using assms(3,4) by (simp add: f_def)
  with section_lag [OF assms(1,2), of accept]
  consider "fst a = fst f" "(snd a)\<lparr>progress := None\<rparr> = (snd f)\<lparr>progress := None\<rparr>" | "isl (fst a)" "isl (fst f)"
    | "fst a = Inr NE_NeedData" "(snd a)\<lparr>progress := None\<rparr> = c\<lparr>progress := None\<rparr>" "isl (fst f)"
    by (auto simp: Let_def a_def)
  then have "lagging hp a f"
  proof cases
    case 3
    from 3(2) have "unwound (snd a) = unwound c" by (rule unwound_progress)
    with 3 show ?thesis by (simp add: lagging_def f_def)
  qed (auto simp: lagging_def dest: unwound_progress)
  then show ?thesis by (simp add: a_def f_def)
qed

lemma chunk_size_unwound:
  assumes "scan_ok n (unread c)" and "conn_reader c = R_Chunked (Ck_Size n)" and "progress c = None"
  shows "chunk_size_step n c = chunk_size_step 0 (unwound c)
    \<or> (\<exists>e. chunk_size_step n c = Inl (Inl e, c) \<and> chunk_size_step 0 (unwound c) = Inl (Inl e, unwound c))"
  using assms scan_ok_find [OF assms(1)]
  by (cases c) (auto simp: chunk_size_step_def unwound_def chunk_line_too_long_def Let_def split: option.split)

lemma resumed_unwound:
  assumes "conn_reader c = R_Head \<or> conn_reader c = R_Chunked Ck_Trailers"
  shows "unwound c = c\<lparr>progress := None\<rparr>" and "conn_reader (unwound c) = conn_reader c"
  using assms by (cases c; auto simp: unwound_def)+

lemma head_lagging:
  assumes "httparse_streams hp" and "searched c" and "conn_reader c = R_Head" and "peer_state_return (unwound c) = None"
  shows "lagging hp (read_head hp c) (next_event_inner hp (unwound c))"
proof -
  note u = resumed_unwound [OF disjI1 [OF assms(3)]]
  have resumes: "search_resumes (progress c) (unread c) True" using assms(2,3) by (simp add: searched_def)
  have "next_event_inner hp (unwound c) = read_head hp (unwound c)"
    using assms(3) u(2) by (simp add: inner_reads [OF assms(4)])
  with section_lagging [OF section_parsers(1) [OF assms(1)] resumes u(1), of hp "max_header_count (limits c)" accept_request]
    section_lagging [OF section_parsers(2) [OF assms(1)] resumes u(1), of hp "max_header_count (limits c)" accept_response] show ?thesis
    by (cases "conn_role c") (simp_all add: read_head_section)
qed

lemma chunked_lagging:
  assumes "httparse_streams hp" and "no_unfolding c" and "searched c" and "receive_ok c" and "conn_reader c = R_Chunked k"
    and "peer_state_return (unwound c) = None"
  shows "lagging hp (read_chunked hp k c) (next_event_inner hp (unwound c))"
proof (cases k)
  case (Ck_Size n)
  with assms(4,5) have "scan_ok n (unread c)" "progress c = None"
    by (auto simp: receive_ok_def intro: progress_ok_body)
  moreover have "conn_reader (unwound c) = R_Chunked (Ck_Size 0)" using assms(5) Ck_Size by (simp add: unwound_def)
  ultimately show ?thesis
    using assms(5) Ck_Size chunk_size_unwound [of n c]
    by (auto simp: inner_reads [OF assms(6)] read_chunked.simps lagging_same lagging_def)
next
  case Ck_Trailers
  note u = resumed_unwound [OF disjI2, OF assms(5) [unfolded Ck_Trailers]]
  have resumes: "search_resumes (progress c) (unread c) False"
    using assms(3,5) Ck_Trailers by (simp add: searched_def)
  have "no_unfolding (unwound c)" using assms(2) by (simp add: no_unfolding_def)
  with assms(2,5) Ck_Trailers u(2)
    section_lagging [OF section_parsers(3) [OF assms(1)] resumes u(1), of hp "max_header_count (limits c)" finish_peer] show ?thesis
    by (simp add: inner_reads [OF assms(6)] read_chunked_other read_trailers_plain)
qed (use assms(4-6) in \<open>auto simp: unwound_same lagging_same inner_reads receive_ok_def dest: progress_ok_body\<close>)

lemma inner_lagging:
  assumes "httparse_streams hp" and "no_unfolding c" and "searched c" and "receive_ok c"
  shows "lagging hp (next_event_inner hp c) (next_event_inner hp (unwound c))"
proof (cases "peer_state_return c")
  case (Some r)
  then show ?thesis by (simp add: inner_returns [OF Some] inner_returns [of "unwound c" "apsnd unwound r"] peer_state_return_unwound lagging_return)
next
  case None
  then have goes: "peer_state_return (unwound c) = None" by (simp add: peer_state_return_unwound)
  show ?thesis
  proof (cases "conn_reader c")
    case R_Head
    with head_lagging [OF assms(1,3) R_Head goes] show ?thesis by (simp add: inner_reads [OF None])
  next
    case (R_Chunked k)
    with chunked_lagging [OF assms R_Chunked goes] show ?thesis by (simp add: inner_reads [OF None])
  qed (use assms(4) in \<open>auto simp: unwound_same lagging_same receive_ok_def dest: progress_ok_body\<close>)
qed

section \<open>The progress kept by a connection\<close>

lemma has_fold_drop: "has_fold (drop n d) \<Longrightarrow> has_fold d"
proof (induction n arbitrary: d)
  case (Suc n)
  then show ?case by (cases d) (auto simp: has_fold_Cons)
qed simp

lemma has_fold_append: "has_fold d \<Longrightarrow> has_fold (d @ x)"
  by (induction d rule: has_fold.induct) (auto simp: has_fold_Cons elim: fold_ahead.elims)

lemma no_unfolding_drop:
  "no_unfolding c \<Longrightarrow> conn_role c' = conn_role c \<Longrightarrow> unread c' = drop n (unread c) \<Longrightarrow> no_unfolding c'"
  by (auto simp: no_unfolding_def dest: has_fold_drop)

lemma searched_None: "progress c = None \<Longrightarrow> searched c"
  by (simp add: searched_def search_resumes_def)

lemma body_progress:
  "chunk_data n f c = (r, c') \<Longrightarrow> progress c' = progress c"
  "read_fixed n c = (r, c') \<Longrightarrow> progress c' = progress c"
  "read_close_delimited c = (r, c') \<Longrightarrow> progress c' = progress c"
  by (auto simp: chunk_data_def read_fixed_def read_close_delimited_def Let_def buffer_take_def need_data_or_eof_def
      dest!: moved_progress split: if_splits)

lemma peer_state_return_kept:
  "peer_state_return c = Some (r, c') \<Longrightarrow>
     progress c' = progress c \<and> input c' = input c \<and> conn_reader c' = conn_reader c"
  by (auto simp: peer_state_return_def peer_closed_def advance_peer_def and_then_def
      split: State.State.splits if_splits prod.splits sum.splits)

lemma section_searched:
  assumes "section_parser parse skip (head_limit c)" and "searched c" and "skip = (conn_reader c = R_Head)"
    and "read_section parse accept skip c = (Inr e, c')" and "\<And>q d. fst (accept q d) \<noteq> Inr NE_NeedData"
    and "\<And>q d r d'. accept q d = (r, d') \<Longrightarrow> progress d' = progress d"
  shows "searched c'"
proof (cases "e = NE_NeedData")
  case True
  have "search_resumes (progress c) (unread c) skip" using assms(2,3) by (simp add: searched_def)
  with section_search_kept [OF assms(1) _ assms(4) [unfolded True] assms(5)] assms(3) show ?thesis
    by (auto simp: searched_def)
next
  case False
  with section_event_progress [OF assms(4) _ assms(6)] show ?thesis by (simp add: searched_None)
qed

lemma chunk_steps_kept:
  "chunk_size_step n c = Inl (r, c') \<Longrightarrow> progress c' = progress c"
  "chunk_size_step n c = Inr c' \<Longrightarrow>
     (progress c = None \<longrightarrow> progress c' = None) \<and> conn_role c' = conn_role c \<and> (\<exists>m. unread c' = drop m (unread c))"
  "chunk_data_end_step c = Inl (r, c') \<Longrightarrow> progress c' = progress c"
  "chunk_data_end_step c = Inr c' \<Longrightarrow>
     progress c' = progress c \<and> conn_role c' = conn_role c \<and> (\<exists>m. unread c' = drop m (unread c))"
  by (auto simp: chunk_size_step_def chunk_data_end_step_def chunk_line_too_long_def need_data_or_eof_def Let_def
      split: option.splits if_splits)

lemma line_step_kept:
  "line_step k c = Some (Inl (r, c')) \<Longrightarrow> progress c' = progress c"
  "line_step k c = Some (Inr c') \<Longrightarrow>
     (progress c = None \<longrightarrow> progress c' = None) \<and> conn_role c' = conn_role c \<and> (\<exists>m. unread c' = drop m (unread c))"
  by (erule line_step_cases; drule chunk_steps_kept; simp)+

lemma line_step_unsearched:
  assumes "receive_ok c" and "conn_reader c = R_Chunked k" and "line_step k c = Some s"
  shows "progress c = None"
  using assms(3,1,2) by (cases rule: line_step_cases) (auto simp: receive_ok_def dest: progress_ok_body)

lemma inner_searched:
  assumes "httparse_streams hp" and "next_event_inner hp c = (Inr e, c')" and "no_unfolding c" and "searched c" and "receive_ok c"
  shows "searched c'"
proof -
  let ?P = "\<lambda>c a. no_unfolding c \<and> searched c \<and> receive_ok c \<longrightarrow> (\<forall>e c'. a = (Inr e, c') \<longrightarrow> searched c')"
  note parsers = section_parsers [OF assms(1)]
  have "?P c (next_event_inner hp c)"
  proof (rule reading_induct [where P = ?P], goal_cases return head fixed close_delimited line_stops line_passed data trailers)
    case (return c r)
    then show ?case using peer_state_return_kept by (auto simp: searched_def)
  next
    case (head c)
    have "searched c'" if "searched c" and "read_head hp c = (Inr e, c')" for e c'
      using that head section_searched [OF parsers(1) that(1), of "max_header_count (limits c)" accept_request e c']
        section_searched [OF parsers(2) that(1), of "max_header_count (limits c)" accept_response e c'] peer_events_do_not_ask accept_progress
      by (cases "conn_role c") (auto simp: read_head_section)
    then show ?case by blast
  next
    case (line_stops c k r)
    then show ?case by (metis searched_None line_step_unsearched line_step_kept(1))
  next
    case (line_passed c k d)
    show ?case
    proof (rule impI)
      assume c: "no_unfolding c \<and> searched c \<and> receive_ok c"
      note kept = line_step_kept(2) [OF line_passed(3)]
      have "no_unfolding d" using c kept by (blast intro: no_unfolding_drop)
      moreover have "searched d" using c kept line_passed(2,3) by (metis searched_None line_step_unsearched)
      ultimately show "\<forall>e c'. next_event_inner hp d = (Inr e, c') \<longrightarrow> searched c'"
        using c line_passed line_step_ok by blast
    qed
  next
    case (trailers c)
    have "searched c'" if "searched c" and "no_unfolding c" and "read_trailers hp c = (Inr e, c')" for e c'
      using that trailers section_searched [OF parsers(3) that(1), of "max_header_count (limits c)" finish_peer e c']
        peer_events_do_not_ask moved_progress(3)
      by (auto simp: read_trailers_plain)
    then show ?case by blast
  qed (auto simp: receive_ok_def intro!: searched_None dest!: body_progress dest: progress_ok_body)
  with assms(2-5) show ?thesis by blast
qed

end
