(* ===== verification/Draining.thy ===== *)
theory Draining
  imports Prelude
begin

text \<open>
  Machines that react to buffered input.  A reaction reports an event, delivers a piece of a body,
  finishes, waits for more input or fails.  Draining a machine lets it react until it waits,
  finishes or fails, which is how a caller polls a connection between two arrivals.  The locale
  \<open>segmented_input\<close> states what makes the drained results independent of how the input was cut
  into arrivals; the connection is shown to be such a machine in theory \<open>Segmentation\<close>.
\<close>

section \<open>Reactions and draining\<close>

datatype 'ev reaction =
    Emits 'ev
  | Delivers "u8 list"
  | Finishes 'ev
  | Waits
  | Fails

text \<open>The outcome is the machine left behind, or \<open>None\<close> after a failure, the events and the body bytes.\<close>

inductive drains :: "('s \<Rightarrow> 'ev reaction \<times> 's) \<Rightarrow> 's \<Rightarrow> 's option \<Rightarrow> 'ev list \<Rightarrow> u8 list \<Rightarrow> bool"
  for react where
  drain_waits: "react s = (Waits, s') \<Longrightarrow> drains react s (Some s') [] []"
| drain_fails: "react s = (Fails, s') \<Longrightarrow> drains react s None [] []"
| drain_finishes: "react s = (Finishes e, s') \<Longrightarrow> drains react s (Some s') [e] []"
| drain_emits: "react s = (Emits e, s') \<Longrightarrow> drains react s' r es b \<Longrightarrow> drains react s r (e # es) b"
| drain_delivers: "react s = (Delivers d, s') \<Longrightarrow> drains react s' r es b \<Longrightarrow> drains react s r es (d @ b)"

inductive_cases drainsE: "drains react s r es b"

lemma drains_waits: "react s = (Waits, s') \<Longrightarrow> drains react s r es b \<longleftrightarrow> r = Some s' \<and> es = [] \<and> b = []"
  by (auto elim: drainsE intro: drain_waits)

lemma drains_fails: "react s = (Fails, s') \<Longrightarrow> drains react s r es b \<longleftrightarrow> r = None \<and> es = [] \<and> b = []"
  by (auto elim: drainsE intro: drain_fails)

lemma drains_finishes:
  "react s = (Finishes e, s') \<Longrightarrow> drains react s r es b \<longleftrightarrow> r = Some s' \<and> es = [e] \<and> b = []"
  by (auto elim: drainsE intro: drain_finishes)

lemma drains_emits:
  "react s = (Emits e, s') \<Longrightarrow> drains react s r es b \<longleftrightarrow> (\<exists>es'. es = e # es' \<and> drains react s' r es' b)"
  by (auto elim: drainsE intro: drain_emits)

lemma drains_delivers:
  "react s = (Delivers d, s') \<Longrightarrow> drains react s r es b \<longleftrightarrow> (\<exists>b'. b = d @ b' \<and> drains react s' r es b')"
  by (auto elim: drainsE intro: drain_delivers)

lemmas drains_cases = drains_waits drains_fails drains_finishes drains_emits drains_delivers

lemma drains_determ:
  "drains react s r es b \<Longrightarrow> drains react s r' es' b' \<Longrightarrow> r = r' \<and> es = es' \<and> b = b'"
proof (induction arbitrary: r' es' b' rule: drains.induct)
  case (drain_waits s s')
  then show ?case by (simp add: drains_waits [of react s s'])
next
  case (drain_fails s s')
  then show ?case by (simp add: drains_fails [of react s s'])
next
  case (drain_finishes s e s')
  then show ?case by (simp add: drains_finishes [of react s e s'])
next
  case (drain_emits s e s' r es b)
  from drain_emits.prems drain_emits.hyps obtain fs where "es' = e # fs" "drains react s' r' fs b'"
    unfolding drains_emits [of react, OF drain_emits.hyps(1)] by blast
  with drain_emits.IH show ?case by blast
next
  case (drain_delivers s d s' r es b)
  from drain_delivers.prems drain_delivers.hyps obtain c where "b' = d @ c" "drains react s' r' es' c"
    unfolding drains_delivers [of react, OF drain_delivers.hyps(1)] by blast
  with drain_delivers.IH show ?case by blast
qed

text \<open>Arrivals one after the other, the machine drained after each; a failure ends them.\<close>

inductive arrives ::
  "('s \<Rightarrow> 'ev reaction \<times> 's) \<Rightarrow> ('s \<Rightarrow> u8 list \<Rightarrow> 's) \<Rightarrow> 's \<Rightarrow> u8 list list
     \<Rightarrow> 's option \<Rightarrow> 'ev list \<Rightarrow> u8 list \<Rightarrow> bool"
  for react push where
  arrive_end: "arrives react push s [] (Some s) [] []"
| arrive_fail: "drains react (push s x) None es b \<Longrightarrow> arrives react push s (x # xs) None es b"
| arrive_next: "drains react (push s x) (Some s') es b \<Longrightarrow> arrives react push s' xs r es' b' \<Longrightarrow>
    arrives react push s (x # xs) r (es @ es') (b @ b')"

inductive_simps arrives_simps: "arrives react push s [] r es b" "arrives react push s (x # xs) r es b"

section \<open>Independence of the segmentation\<close>

locale segmented_input =
  fixes react :: "'s \<Rightarrow> 'ev reaction \<times> 's"
    and push :: "'s \<Rightarrow> u8 list \<Rightarrow> 's"
    and good :: "'s \<Rightarrow> bool"
  assumes push_push: "push (push s x) y = push s (x @ y)"
    and good_before: "good (push s x) \<Longrightarrow> good s"
    and good_push: "good (push s x) \<Longrightarrow> react s = (k, s') \<Longrightarrow> k \<noteq> Fails \<Longrightarrow> good (push s' x)"
    and no_finish: "good s \<Longrightarrow> fst (react s) \<noteq> Finishes e"
    and waits_push: "good (push s x) \<Longrightarrow> x \<noteq> [] \<Longrightarrow> react s = (Waits, s') \<Longrightarrow> react (push s x) = react (push s' x)"
    and emits_push: "good (push s x) \<Longrightarrow> x \<noteq> [] \<Longrightarrow> react s = (Emits e, s') \<Longrightarrow>
      react (push s x) = (Emits e, push s' x)"
    and fails_push: "good (push s x) \<Longrightarrow> x \<noteq> [] \<Longrightarrow> fst (react s) = Fails \<Longrightarrow> fst (react (push s x)) = Fails"
    and delivers_push: "good (push s x) \<Longrightarrow> x \<noteq> [] \<Longrightarrow> react s = (Delivers d, s') \<Longrightarrow>
      react (push s x) = (Delivers d, push s' x)
      \<or> (\<exists>y t. react s' = (Waits, s') \<and> react (push s' x) = (Delivers y, t) \<and> react (push s x) = (Delivers (d @ y), t))"
begin

text \<open>What a machine does before more input arrives is the start of what it does with that input.\<close>

lemma drained_push:
  "drains react s (Some s') es b \<Longrightarrow> good (push s x) \<Longrightarrow> x \<noteq> [] \<Longrightarrow>
     good (push s' x) \<and> (drains react (push s' x) r es' b' \<longrightarrow> drains react (push s x) r (es @ es') (b @ b'))"
proof (induction s "Some s'" es b rule: drains.induct)
  case (drain_waits s)
  then have "react (push s x) = react (push s' x)" and "good (push s' x)"
    using waits_push good_push [of s x Waits s'] by simp_all
  then show ?case by (simp add: drains.simps [of react "push s x"] drains.simps [of react "push s' x"])
next
  case (drain_finishes s e)
  with no_finish [OF good_before, of s x e] show ?case by simp
next
  case (drain_emits s e s1 es b)
  note step = emits_push [OF drain_emits.prems drain_emits.hyps(1)]
  from good_push [OF drain_emits.prems(1) drain_emits.hyps(1)] have "good (push s1 x)" by simp
  with drain_emits.hyps(3) drain_emits.prems(2) show ?case by (simp add: drains_emits [of react, OF step])
next
  case (drain_delivers s d s1 es b)
  from good_push [OF drain_delivers.prems(1) drain_delivers.hyps(1)] have good: "good (push s1 x)" by simp
  from delivers_push [OF drain_delivers.prems drain_delivers.hyps(1)] show ?case
  proof (elim disjE exE conjE)
    assume step: "react (push s x) = (Delivers d, push s1 x)"
    with drain_delivers.hyps(3) [OF good drain_delivers.prems(2)] show ?thesis
      by (auto simp: drains_delivers [of react, OF step])
  next
    fix y t
    assume wait: "react s1 = (Waits, s1)" and more: "react (push s1 x) = (Delivers y, t)"
      and joined: "react (push s x) = (Delivers (d @ y), t)"
    from drain_delivers.hyps(2) have "s' = s1" "es = []" "b = []" by (simp_all add: drains_waits [of react, OF wait])
    with good show ?thesis by (auto simp: drains_delivers [of react, OF more] drains_delivers [of react, OF joined])
  qed
qed

text \<open>A failure is not undone by more input.\<close>

lemma failed_push:
  "drains react s None es b \<Longrightarrow> good (push s x) \<Longrightarrow> x \<noteq> [] \<Longrightarrow> \<exists>es b. drains react (push s x) None es b"
proof (induction s "None :: 's option" es b rule: drains.induct)
  case (drain_fails s s')
  then have "fst (react (push s x)) = Fails" by (auto intro: fails_push)
  then obtain t where "react (push s x) = (Fails, t)" by (cases "react (push s x)") auto
  then show ?case by (blast intro: drains.drain_fails)
next
  case (drain_emits s e s1 es b)
  note step = emits_push [OF drain_emits.prems drain_emits.hyps(1)]
  from good_push [OF drain_emits.prems(1) drain_emits.hyps(1)] have "good (push s1 x)" by simp
  from drain_emits.hyps(3) [OF this drain_emits.prems(2)] show ?case
    using step by (blast intro: drains.drain_emits)
next
  case (drain_delivers s d s1 es b)
  from good_push [OF drain_delivers.prems(1) drain_delivers.hyps(1)] have good: "good (push s1 x)" by simp
  from delivers_push [OF drain_delivers.prems drain_delivers.hyps(1)] show ?case
  proof (elim disjE exE conjE)
    assume step: "react (push s x) = (Delivers d, push s1 x)"
    from drain_delivers.hyps(3) [OF good drain_delivers.prems(2)] step show ?thesis
      by (blast intro: drains.drain_delivers)
  next
    assume "react s1 = (Waits, s1)"
    with drain_delivers.hyps(2) show ?thesis by (simp add: drains_waits [of react])
  qed
qed

theorem segmentation_irrelevant:
  assumes "arrives react push s xs r es b" and "good (push s (concat xs))" and "\<forall>x \<in> set xs. x \<noteq> []" and "xs \<noteq> []"
  shows "\<exists>es' b'. drains react (push s (concat xs)) r es' b' \<and> (r \<noteq> None \<longrightarrow> es' = es \<and> b' = b)"
  using assms
proof (induction rule: arrives.induct)
  case (arrive_fail s x es b xs)
  show ?case
  proof (cases "concat xs = []")
    case False
    have "good (push (push s x) (concat xs))" using arrive_fail.prems(1) by (simp add: push_push)
    from failed_push [OF arrive_fail.hyps this False] show ?thesis by (simp add: push_push)
  next
    case True
    with arrive_fail.hyps show ?thesis by (auto simp del: concat_eq_Nil_conv)
  qed
next
  case (arrive_next s x s1 es b xs r es' b')
  show ?case
  proof (cases "xs = []")
    case True
    with arrive_next.hyps show ?thesis by (auto simp: arrives_simps)
  next
    case False
    then have ne: "concat xs \<noteq> []" using arrive_next.prems(2) by (cases xs) auto
    have "good (push (push s x) (concat xs))" using arrive_next.prems(1) by (simp add: push_push)
    note ext = drained_push [OF arrive_next.hyps(1) this ne]
    from arrive_next.IH ext arrive_next.prems(2) False obtain es2 b2 where
      "drains react (push s1 (concat xs)) r es2 b2" "r \<noteq> None \<longrightarrow> es2 = es' \<and> b2 = b'" by auto
    with ext [of r es2 b2] show ?thesis by (auto simp: push_push)
  qed
qed simp

end

end
