(* ===== verification/Segmentation.thy ===== *)
theory Segmentation
  imports Resumption Draining
begin

text \<open>
  The connection as a machine that reacts to its input.  What a caller sees of \<^verbatim>\<open>next_event\<close> does not
  depend on how the peer's bytes were cut into arrivals, nor on the moments at which the connection
  was polled in between: the locale \<open>segmented_input\<close> is interpreted on the connection.
\<close>

section \<open>The connection as a reacting machine\<close>

definition fresh :: "Connection \<Rightarrow> Connection" where
  "fresh c = settle (unwound c)"

definition push :: "Connection \<Rightarrow> u8 list \<Rightarrow> Connection" where
  "push c x = c\<lparr>input := bare (unread c @ x)\<rparr>"

fun classify :: "RemoteProtocolError + NextEvent \<Rightarrow> Event reaction" where
  "classify (Inl e) = Fails"
| "classify (Inr (NE_Event (Ev_Data d))) = Delivers (data_bytes d)"
| "classify (Inr (NE_Event Ev_ConnectionClosed)) = Finishes Ev_ConnectionClosed"
| "classify (Inr (NE_Event ev)) = Emits ev"
| "classify (Inr _) = Waits"

definition view :: "NextEvent remote_result \<Rightarrow> Event reaction \<times> Connection" where
  "view a = (classify (fst a), fresh (snd a))"

definition react :: "'e httparse \<Rightarrow> Connection \<Rightarrow> Event reaction \<times> Connection" where
  "react hp c = view (next_event_inner hp c)"

lemma fresh_settle [simp]: "fresh (settle c) = fresh c"
  by (simp add: fresh_def settle_def unwound_def)

lemma fresh_fields [simp]:
  "unread (fresh c) = unread c" "conn_role (fresh c) = conn_role c" "limits (fresh c) = limits c"
  "eof (fresh c) = eof c" "conn_state (fresh c) = conn_state c" "peer_state (fresh c) = peer_state c"
  "progress (fresh c) = None" "conn_reader (fresh c) = rewind (conn_reader c)"
  by (simp_all add: fresh_def settle_def unwound_def)

lemma fresh_fresh [simp]: "fresh (fresh c) = fresh c"
  by (simp add: fresh_def settle_def unwound_def)

lemma push_fields [simp]:
  "unread (push c x) = unread c @ x" "conn_role (push c x) = conn_role c" "limits (push c x) = limits c"
  "eof (push c x) = eof c" "conn_state (push c x) = conn_state c" "peer_state (push c x) = peer_state c"
  "progress (push c x) = progress c" "conn_reader (push c x) = conn_reader c"
  by (simp_all add: push_def)

lemma push_push: "push (push c x) y = push c (x @ y)"
  by (simp add: push_def)

lemma push_settle [simp]: "push (settle c) x = push c x"
  by (simp add: push_def settle_def)

lemma fresh_push [simp]: "fresh (push c x) = push (fresh c) x"
  by (simp add: fresh_def push_def settle_def unwound_def)

lemma view_settle: "view (apsnd settle a) = view a"
  by (simp add: view_def)

lemma react_settle: "react hp (settle c) = react hp c"
  using arg_cong [OF inner_settle [of hp c], of view] by (simp add: react_def view_settle)

lemma classify_fails [simp]: "classify r = Fails \<longleftrightarrow> isl r"
  by (cases r rule: classify.cases) simp_all

definition steady :: "Connection \<Rightarrow> bool" where
  "steady c \<longleftrightarrow>
     unwound c = c \<and> \<not> eof c \<and> receive_ok c \<and> legal_configuration (conn_state c) \<and> peer_state c \<noteq> Closed"

definition extends :: "'e httparse \<Rightarrow> u8 list \<Rightarrow> NextEvent remote_result \<Rightarrow> NextEvent remote_result \<Rightarrow> bool" where
  "extends hp x a a' \<longleftrightarrow>
     (case classify (fst a) of
        Fails \<Rightarrow> isl (fst a')
      | Waits \<Rightarrow> view a' = react hp (push (fresh (snd a)) x)
      | Emits ev \<Rightarrow> view a' = (Emits ev, push (fresh (snd a)) x)
      | Finishes ev \<Rightarrow> False
      | Delivers d \<Rightarrow>
          view a' = (Delivers d, push (fresh (snd a)) x)
          \<or> (\<exists>y t. react hp (fresh (snd a)) = (Waits, fresh (snd a)) \<and> react hp (push (fresh (snd a)) x) = (Delivers y, t)
              \<and> view a' = (Delivers (d @ y), t)))"

lemma extends_view: "view a' = view a'' \<Longrightarrow> extends hp x a a' = extends hp x a a''"
proof -
  assume same: "view a' = view a''"
  then have "isl (fst a') = isl (fst a'')" by (simp add: view_def flip: classify_fails)
  with same show ?thesis unfolding extends_def by (auto simp del: classify_fails split: reaction.split)
qed

lemma steady_fresh: "steady c \<Longrightarrow> fresh c = settle c"
  by (simp add: steady_def fresh_def)

text \<open>A reaction that leaves the connection as it is: waiting.\<close>

lemma extends_waits:
  assumes "steady c" and "fst a = Inr NE_NeedData \<or> fst a = Inr NE_Paused" and "fresh (snd a) = fresh c"
    and "a' = next_event_inner hp (push c x)"
  shows "extends hp x a a'"
proof -
  have "push (fresh (snd a)) x = push c x" using assms(1,3) by (simp add: steady_fresh)
  with assms(2,4) show ?thesis by (auto simp: extends_def react_def)
qed

text \<open>A reaction that consumes bytes it has and moves on.\<close>

lemma fresh_consumed:
  "n \<le> length (unread c) \<Longrightarrow>
     fresh (d\<lparr>input := buffer_consume (bare (unread c @ x)) n\<rparr>) = push (fresh (d\<lparr>input := buffer_consume (input c) n\<rparr>)) x"
  by (simp add: fresh_def push_def settle_def unwound_def)

lemma extends_moved:
  assumes moves: "\<And>c b. f (c\<lparr>input := b\<rparr>) = apsnd (\<lambda>d. d\<lparr>input := b\<rparr>) (f c)"
    and "n \<le> length (unread c)"
    and "\<And>c. isl (fst (f c)) \<or> (\<exists>ev. classify (fst (f c)) = Emits ev)"
  shows "extends hp x (f (d\<lparr>input := buffer_consume (input c) n\<rparr>)) (f (d\<lparr>input := buffer_consume (bare (unread c @ x)) n\<rparr>))"
proof -
  obtain r d' where f: "f d = (r, d')" by fastforce
  from assms(3) [of d] f consider "isl r" | ev where "classify r = Emits ev" by auto
  then show ?thesis
  proof cases
    case 1
    then obtain e where "r = Inl e" by (auto simp: isl_def)
    with f moves show ?thesis by (simp add: extends_def)
  next
    case 2
    with f moves fresh_consumed [OF assms(2), where d = d' and x = x] show ?thesis by (simp add: extends_def view_def)
  qed
qed

lemma extends_fails: "isl (fst a) \<Longrightarrow> isl (fst a') \<Longrightarrow> extends hp x a a'"
  by (cases a; cases "fst a") (auto simp: extends_def)

section \<open>Sections\<close>

lemma push_upd: "push c x = c\<lparr>input := bare (unread c @ x)\<rparr>"
  by (simp add: push_def)

lemma read_section_unsearched:
  assumes "progress d = None" and "\<not> eof d"
  shows "read_section parse accept skip d =
    (case parse (unread d) of
       Inl e \<Rightarrow> (Inl e, d)
     | Inr None \<Rightarrow> wait_for_section skip d
     | Inr (Some (n, q)) \<Rightarrow> accept q (d\<lparr>input := buffer_consume (input d) n\<rparr>))"
  using assms by (cases d) (simp add: read_section_def search_def split: sum.split option.split)

lemma section_extends:
  assumes parser: "section_parser parse skip (head_limit c)" and "steady c"
    and inner: "next_event_inner hp (push c x) = read_section parse accept skip (push c x)"
    and moves: "\<And>q c b. accept q (c\<lparr>input := b\<rparr>) = apsnd (\<lambda>d. d\<lparr>input := b\<rparr>) (accept q c)"
    and emits: "\<And>q c. isl (fst (accept q c)) \<or> (\<exists>ev. classify (fst (accept q c)) = Emits ev)"
  shows "extends hp x (read_section parse accept skip c) (next_event_inner hp (push c x))"
proof -
  from assms(2) have c: "progress c = None" "\<not> eof c" by (auto simp: steady_def unwound_def dest: arg_cong [of _ _ progress])
  note here = read_section_unsearched [OF c] and there = read_section_unsearched [of "push c x", simplified, OF c]
  consider e where "parse (unread c) = Inl e" | "parse (unread c) = Inr None" | n q where "parse (unread c) = Inr (Some (n, q))"
    by (cases "parse (unread c)"; cases "projr (parse (unread c))") auto
  then show ?thesis
  proof cases
    case 1
    from section_parserD(2) [OF parser 1, of x] obtain g where "parse (unread c @ x) = Inl g" ..
    with 1 show ?thesis by (simp add: inner here there extends_def)
  next
    case 2
    show ?thesis
    proof (cases "head_limit c < length (unread c)")
      case True
      have "isl (fst (wait_for_section skip c))" "isl (fst (wait_for_section skip (push c x)))"
        using True by (simp_all add: wait_fails)
      with 2 past_limit [OF parser 2 True, of x] show ?thesis
        by (cases "parse (unread c @ x)"; cases "projr (parse (unread c @ x))")
           (auto simp: inner here there intro!: extends_fails)
    next
      case False
      with c have "wait_for_section skip c = (Inr NE_NeedData, c\<lparr>progress := Some (snd (poll progress_default (unread c) skip))\<rparr>)"
        by (simp add: wait_waits)
      with 2 have "fst (read_section parse accept skip c) = Inr NE_NeedData"
        "fresh (snd (read_section parse accept skip c)) = fresh c"
        by (simp_all add: here fresh_def settle_def unwound_def)
      with assms(2) show ?thesis by (auto intro: extends_waits)
    qed
  next
    case 3
    from section_parserD(1) [OF parser 3, of x] section_parserD(5) [OF parser 3]
      extends_moved [where f = "accept q" and d = c, OF moves _ emits, of n c hp x] 3 show ?thesis
      by (simp add: inner here there) (simp add: push_def)
  qed
qed

section \<open>Bodies\<close>

text \<open>A connection in the middle of a body: the reader and the unread bytes.\<close>

definition in_body :: "Connection \<Rightarrow> Reader \<Rightarrow> u8 list \<Rightarrow> Connection" where
  "in_body c r u = c\<lparr>progress := None, conn_reader := r, waiting_for_continue := False, input := bare u\<rparr>"

definition receiving :: "Connection \<Rightarrow> bool" where
  "receiving c \<longleftrightarrow> legal_configuration (conn_state c) \<and> peer_state c = SendBody \<and> \<not> eof c"

lemma in_body_simps [simp]:
  "in_body (in_body c r u) r' u' = in_body c r' u'" "receiving (in_body c r u) = receiving c"
  "unread (in_body c r u) = u" "conn_reader (in_body c r u) = r" "push (in_body c r u) x = in_body c r (u @ x)"
  "rewind r = r \<Longrightarrow> fresh (in_body c r u) = in_body c r u" "in_body (push c x) r u = in_body c r u"
  "receiving (push c x) = receiving c"
  by (simp_all add: in_body_def receiving_def push_def fresh_def settle_def unwound_def)

lemma delivered:
  assumes "receiving c" and "rewind r = r"
  shows "view (peer_data d s e (c\<lparr>conn_reader := r, input := b\<rparr>)) = (Delivers d, in_body c r (as_slice b))"
  using assms by (subst peer_data_legal)
    (simp_all add: receiving_def view_def fresh_def settle_def unwound_def in_body_def)

lemma view_read_fixed:
  assumes "receiving c" and "0 < n" and "unread c \<noteq> []"
  shows "view (read_fixed n c) = (Delivers (take n (unread c)), in_body c (R_Fixed (n - length (unread c))) (drop n (unread c)))"
  using assms by (cases "n \<le> length (unread c)") (simp_all add: read_fixed_def Let_def buffer_take_def delivered min_def)

lemma view_chunk_data:
  assumes "receiving c" and "0 < n" and "unread c \<noteq> []"
  shows "view (chunk_data n f c) =
    (Delivers (take n (unread c)),
     in_body c (R_Chunked (if n \<le> length (unread c) then Ck_DataEnd else Ck_Data (n - length (unread c)) False)) (drop n (unread c)))"
  using assms by (cases "n \<le> length (unread c)") (simp_all add: chunk_data_def Let_def buffer_take_def delivered min_def)

lemma view_read_close_delimited:
  assumes "receiving c" and "unread c \<noteq> []" and "conn_reader c = R_CloseDelimited"
  shows "view (read_close_delimited c) = (Delivers (unread c), in_body c R_CloseDelimited [])"
proof -
  have "c\<lparr>conn_reader := R_CloseDelimited\<rparr> = c" using assms(3) by (cases c) simp
  with delivered [of c R_CloseDelimited "unread c" False False "buffer_consume (input c) (length (unread c))"] assms
  show ?thesis by (simp add: read_close_delimited_def Let_def buffer_take_def)
qed

lemma receiving_goes_on: "receiving c \<Longrightarrow> peer_state_return c = None"
  by (simp add: receiving_def SendBody_goes_on)

lemma react_body:
  "receiving c \<Longrightarrow> conn_reader c = R_Fixed n \<Longrightarrow> react hp c = view (read_fixed n c)"
  "receiving c \<Longrightarrow> conn_reader c = R_CloseDelimited \<Longrightarrow> react hp c = view (read_close_delimited c)"
  "receiving c \<Longrightarrow> conn_reader c = R_Chunked k \<Longrightarrow> react hp c = view (read_chunked hp k c)"
  by (simp_all add: react_def next_event_inner.simps receiving_goes_on)

lemma body_waits:
  assumes "receiving c" and "r = R_Fixed n \<and> 0 < n \<or> r = R_Chunked (Ck_Data n f) \<or> r = R_CloseDelimited"
  shows "react hp (in_body c r []) = (Waits, in_body c r [])"
proof -
  have "\<not> eof (in_body c r [])" using assms(1) by (simp add: receiving_def in_body_def)
  with assms show ?thesis
    by (auto simp: react_body read_fixed_def read_close_delimited_def read_chunked.simps chunk_data_def
        need_data_or_eof_def view_def)
qed

lemma fixed_extends:
  assumes "receiving c" and "0 < n" and "unread c \<noteq> []" and "x \<noteq> []" and "conn_reader c = R_Fixed n"
  shows "extends hp x (read_fixed n c) (next_event_inner hp (push c x))"
proof -
  let ?u = "unread c"
  have there: "view (next_event_inner hp (push c x)) =
      (Delivers (take n (?u @ x)), in_body c (R_Fixed (n - length (?u @ x))) (drop n (?u @ x)))"
    using assms view_read_fixed [of "push c x" n] react_body(1) [of "push c x" n hp] by (simp add: react_def)
  have here: "classify (fst (read_fixed n c)) = Delivers (take n ?u)"
    "fresh (snd (read_fixed n c)) = in_body c (R_Fixed (n - length ?u)) (drop n ?u)"
    using view_read_fixed [OF assms(1-3)] by (simp_all add: view_def)
  show ?thesis
  proof (cases "n \<le> length ?u")
    case True
    with here there show ?thesis by (simp add: extends_def)
  next
    case False
    then have "0 < n - length ?u" by simp
    from body_waits [OF assms(1), of "R_Fixed (n - length ?u)"] this False here there assms(1,4)
      view_read_fixed [of "in_body c (R_Fixed (n - length ?u)) x" "n - length ?u"]
    show ?thesis by (simp add: extends_def react_body(1))
  qed
qed

lemma chunk_data_extends:
  assumes "receiving c" and "0 < n" and "unread c \<noteq> []" and "x \<noteq> []" and "conn_reader c = R_Chunked (Ck_Data n f)"
  shows "extends hp x (chunk_data n f c) (next_event_inner hp (push c x))"
proof -
  let ?u = "unread c" and ?r = "\<lambda>n u. R_Chunked (if n \<le> length u then Ck_DataEnd else Ck_Data (n - length u) False)"
  have there: "view (next_event_inner hp (push c x)) = (Delivers (take n (?u @ x)), in_body c (?r n (?u @ x)) (drop n (?u @ x)))"
    using assms view_chunk_data [of "push c x" n f] react_body(3) [of "push c x" "Ck_Data n f" hp]
    by (simp add: react_def read_chunked.simps)
  have here: "classify (fst (chunk_data n f c)) = Delivers (take n ?u)"
    "fresh (snd (chunk_data n f c)) = in_body c (?r n ?u) (drop n ?u)"
    using view_chunk_data [OF assms(1-3)] by (simp_all add: view_def)
  show ?thesis
  proof (cases "n \<le> length ?u")
    case True
    with here there show ?thesis by (simp add: extends_def)
  next
    case False
    then have "0 < n - length ?u" by simp
    moreover have "(n \<le> length (?u @ x)) = (n - length ?u \<le> length x)" by auto
    ultimately show ?thesis
      using body_waits [OF assms(1), of "R_Chunked (Ck_Data (n - length ?u) False)"] False here there assms(1,4)
        view_chunk_data [of "in_body c (R_Chunked (Ck_Data (n - length ?u) False)) x" "n - length ?u" False]
      by (simp add: extends_def react_body(3) read_chunked.simps)
  qed
qed

lemma close_delimited_extends:
  assumes "receiving c" and "unread c \<noteq> []" and "x \<noteq> []" and "conn_reader c = R_CloseDelimited"
  shows "extends hp x (read_close_delimited c) (next_event_inner hp (push c x))"
proof -
  have there: "view (next_event_inner hp (push c x)) = (Delivers (unread c @ x), in_body c R_CloseDelimited [])"
    using assms view_read_close_delimited [of "push c x"] react_body(2) [of "push c x" hp] by (simp add: react_def)
  have here: "classify (fst (read_close_delimited c)) = Delivers (unread c)"
    "fresh (snd (read_close_delimited c)) = in_body c R_CloseDelimited []"
    using view_read_close_delimited [OF assms(1,2,4)] by (simp_all add: view_def)
  from body_waits [OF assms(1), of R_CloseDelimited] here there assms(1,3)
    view_read_close_delimited [of "in_body c R_CloseDelimited x"]
  show ?thesis by (simp add: extends_def react_body(2))
qed

section \<open>Chunk lines\<close>

lemma crlf_position_extend: "crlf_position d = Some i \<Longrightarrow> crlf_position (d @ x) = Some i"
proof (induction d arbitrary: i rule: crlf_position.induct)
  case (3 a b d)
  then show ?case by (cases "a = CR \<and> b = LF") auto
qed auto

lemma find_crlf_extend: "find_crlf d 0 = Some e \<Longrightarrow> find_crlf (d @ x) 0 = Some e"
  by (auto simp: find_crlf_def dest: crlf_position_extend)

text \<open>A line end that arrives later lies behind what was there, up to a final CR.\<close>

lemma find_crlf_later:
  assumes "find_crlf d 0 = None" and "find_crlf (d @ x) 0 = Some e"
  shows "incomplete_line_len d 0 \<le> e - 2"
proof -
  from assms(2) obtain i where i: "crlf_position (d @ x) = Some i" "e = i + 2" by (auto simp: find_crlf_def)
  from assms(1) have none: "crlf_position d = None" by (simp add: find_crlf_def)
  note at = crlf_position_Some [OF i(1)]
  show ?thesis
  proof (rule ccontr)
    assume "\<not> ?thesis"
    then have lt: "i < incomplete_line_len d 0" using i(2) by simp
    then have "i < length d" by (simp add: incomplete_line_len_def split: if_splits)
    with at have cr: "d ! i = CR" by (simp add: nth_append)
    have "\<not> Suc i < length d" using crlf_position_None [OF none, of i] at cr by (auto simp: nth_append)
    with \<open>i < length d\<close> have "i = length d - 1" by simp
    with cr \<open>i < length d\<close> have "slice_last d = Some CR" by (auto simp: slice_last_conv last_conv_nth)
    with lt \<open>i = length d - 1\<close> show False by (simp add: incomplete_line_len_def)
  qed
qed

lemma incomplete_line_extend: "x \<noteq> [] \<Longrightarrow> incomplete_line_len d 0 \<le> incomplete_line_len (d @ x) 0"
  by (cases x) (auto simp: incomplete_line_len_def)

lemma too_long_extends:
  assumes "head_limit c < incomplete_line_len (unread c) 0" and "find_crlf (unread c) 0 = None" and "x \<noteq> []"
  shows "\<exists>e. chunk_size_step 0 (push c x) = Inl (Inl e, push c x)"
proof (cases "find_crlf (unread c @ x) 0")
  case None
  with assms incomplete_line_extend [of x "unread c"] show ?thesis
    by (simp add: chunk_size_step_def chunk_line_too_long_def)
next
  case (Some e)
  with assms find_crlf_later [OF assms(2) Some] show ?thesis
    by (simp add: chunk_size_step_def chunk_line_too_long_def)
qed

lemma size_line_extends:
  assumes "steady c" and "chunk_size_step 0 c = Inl a" and "conn_reader c = R_Chunked (Ck_Size 0)" and "x \<noteq> []"
    and inner: "next_event_inner hp (push c x) = (case chunk_size_step 0 (push c x) of Inl r \<Rightarrow> r | Inr d \<Rightarrow> next_event_inner hp d)"
  shows "extends hp x a (next_event_inner hp (push c x))"
proof (cases "find_crlf (unread c) 0")
  case None
  show ?thesis
  proof (cases "head_limit c < incomplete_line_len (unread c) 0")
    case True
    from too_long_extends [OF True None assms(4)] inner have "isl (fst (next_event_inner hp (push c x)))" by auto
    moreover have "isl (fst a)" using True None assms(2) by (auto simp: chunk_size_step_def chunk_line_too_long_def)
    ultimately show ?thesis by (rule extends_fails [rotated])
  next
    case False
    with None assms(1,2) have "a = (Inr NE_NeedData, c\<lparr>conn_reader := R_Chunked (Ck_Size (length (unread c) - 1))\<rparr>)"
      by (simp add: chunk_size_step_def need_data_or_eof_def steady_def)
    with assms(1,3) show ?thesis
      by (intro extends_waits) (simp_all add: fresh_def settle_def unwound_def)
  qed
next
  case (Some e)
  from find_crlf_extend [OF this, of x] find_crlf_Some(2) [OF Some] Some assms(2) inner show ?thesis
    by (auto simp: chunk_size_step_def chunk_line_too_long_def Let_def intro!: extends_fails split: if_splits option.splits)
qed

lemma size_line_push:
  assumes "chunk_size_step 0 c = Inr d"
  shows "\<exists>d'. chunk_size_step 0 (push c x) = Inr d' \<and> settle d' = push d x"
proof -
  from assms obtain e where e: "find_crlf (unread c) 0 = Some e"
    by (auto simp: chunk_size_step_def Let_def split: option.splits if_splits)
  from find_crlf_extend [OF this, of x] find_crlf_Some(2) [OF e] e assms show ?thesis
    by (auto simp: chunk_size_step_def Let_def push_def settle_def split: option.splits if_splits)
qed

lemma data_end_push:
  assumes "chunk_data_end_step c = Inr d"
  shows "\<exists>d'. chunk_data_end_step (push c x) = Inr d' \<and> settle d' = push d x"
  using assms by (auto simp: chunk_data_end_step_def push_def settle_def split: if_splits)

lemma data_end_extends:
  assumes "steady c" and "chunk_data_end_step c = Inl a"
    and inner: "next_event_inner hp (push c x) = (case chunk_data_end_step (push c x) of Inl r \<Rightarrow> r | Inr d \<Rightarrow> next_event_inner hp d)"
  shows "extends hp x a (next_event_inner hp (push c x))"
proof (cases "length (unread c) < 2")
  case True
  with assms(1,2) have "a = (Inr NE_NeedData, c)"
    by (simp add: chunk_data_end_step_def need_data_or_eof_def steady_def)
  with assms(1) show ?thesis by (intro extends_waits) simp_all
next
  case False
  with assms(2) inner show ?thesis
    by (auto simp: chunk_data_end_step_def intro!: extends_fails split: if_splits)
qed

section \<open>The laws of segmented input\<close>

lemma accept_reacts:
  "isl (fst (accept_request q c)) \<or> (\<exists>ev. classify (fst (accept_request q c)) = Emits ev)"
  "isl (fst (accept_response r c)) \<or> (\<exists>ev. classify (fst (accept_response r c)) = Emits ev)"
  "isl (fst (finish_peer t c)) \<or> (\<exists>ev. classify (fst (finish_peer t c)) = Emits ev)"
proof -
  show "isl (fst (accept_request q c)) \<or> (\<exists>ev. classify (fst (accept_request q c)) = Emits ev)"
    by (auto simp: accept_request_def Let_def and_then_def split: sum.splits prod.splits)
  show "isl (fst (accept_response r c)) \<or> (\<exists>ev. classify (fst (accept_response r c)) = Emits ev)"
    by (cases "is_informational (resp_status r)")
       (auto simp: accept_response_info accept_response_final and_then_def split: sum.splits prod.splits)
  show "isl (fst (finish_peer t c)) \<or> (\<exists>ev. classify (fst (finish_peer t c)) = Emits ev)"
    by (auto simp: finish_peer_def and_then_def split: sum.splits prod.splits)
qed

lemma return_extends:
  assumes "steady c" and "peer_state_return c = Some a"
  shows "extends hp x a (next_event_inner hp (push c x))"
proof (cases "peer_state c = Error")
  case True
  with assms(2) show ?thesis
    by (auto simp: peer_state_return_def next_event_inner.simps [of hp "push c x"] intro!: extends_fails)
next
  case False
  with assms have "fst a = Inr NE_NeedData \<or> fst a = Inr NE_Paused" "snd a = c"
    by (auto simp: peer_state_return_def steady_def split: State.State.splits if_splits)
  with assms(1) show ?thesis by (auto intro: extends_waits)
qed

lemma unwound_eq: "unwound c = c \<Longrightarrow> progress c = None \<and> rewind (conn_reader c) = conn_reader c"
  by (metis Connection.select_convs(5,6) Connection.surjective Connection.update_convs(5,6) unwound_def)

lemma steady_receiving:
  assumes "steady c" and "peer_state_return c = None" and "conn_reader c \<noteq> R_Head"
  shows "receiving c"
  using assms
  by (auto simp: steady_def receiving_def receive_ok_def reader_aligned_def peer_state_return_def
      split: State.State.splits if_splits)

lemma goes_on_push: "steady c \<Longrightarrow> peer_state_return c = None \<Longrightarrow> peer_state_return (push c x) = None"
  by (auto simp: peer_state_return_def steady_def split: State.State.splits if_splits)

text \<open>A step between two chunks, with the same step on more input.\<close>

lemma chunk_step_steady:
  assumes "steady c" and "chunk_size_step 0 c = Inr d \<and> conn_reader c = R_Chunked (Ck_Size 0)
      \<or> chunk_data_end_step c = Inr d \<and> conn_reader c = R_Chunked Ck_DataEnd"
  shows "steady d"
proof -
  have "receive_ok d" using assms by (auto simp: steady_def intro: chunk_size_step_ok chunk_data_end_step_ok)
  moreover have "eof d = eof c" "conn_state d = conn_state c" "conn_role d = conn_role c"
    "progress d = None" "rewind (conn_reader d) = conn_reader d"
    using assms unwound_eq [of c]
    by (auto simp: steady_def chunk_size_step_def chunk_data_end_step_def Let_def split: option.splits if_splits)
  ultimately show ?thesis using assms(1) by (simp add: steady_def unwound_same peer_state_def)
qed

lemma chunk_step_extends:
  assumes "steady d \<Longrightarrow> no_unfolding (push d x) \<Longrightarrow> extends hp x (next_event_inner hp d) (next_event_inner hp (push d x))"
    and "settle d' = push d x" and "steady d" and "no_unfolding d'"
  shows "extends hp x (next_event_inner hp d) (next_event_inner hp d')"
proof -
  have "no_unfolding (push d x)" using assms(2,4) by (metis no_unfolding_def push_fields(1,2) settle_def unread_settle
      Connection.select_convs(1) Connection.surjective Connection.update_convs(4))
  from assms(1) [OF assms(3) this] show ?thesis
    using extends_view [where hp = hp and x = x and a' = "next_event_inner hp d'" and a'' = "next_event_inner hp (push d x)"]
      react_settle [of hp d'] by (simp add: react_def assms(2))
qed

lemma consume_none: "buffer_consume b 0 = b"
  by (simp add: buffer_consume_def)

text \<open>A line between two chunks.\<close>

lemma steady_size: "steady c \<Longrightarrow> conn_reader c = R_Chunked (Ck_Size n) \<Longrightarrow> n = 0"
  using unwound_eq [of c] by (auto simp: steady_def)

lemma chunked_push:
  "steady c \<Longrightarrow> peer_state_return c = None \<Longrightarrow> conn_reader c = R_Chunked k
     \<Longrightarrow> next_event_inner hp (push c x) = read_chunked hp k (push c x)"
  by (simp add: inner_reads goes_on_push)

lemma line_stops_extends:
  assumes "steady c" and "peer_state_return c = None" and "conn_reader c = R_Chunked k" and "line_step k c = Some (Inl a)" and "x \<noteq> []"
  shows "extends hp x a (next_event_inner hp (push c x))"
  using assms(4)
proof (cases rule: line_step_cases)
  case (size_line n)
  with assms(1,3) have "n = 0" by (simp add: steady_size)
  with size_line assms chunked_push [OF assms(1-3), of hp x] show ?thesis
    by (intro size_line_extends) (simp_all add: read_chunked.simps)
next
  case line_end
  with assms chunked_push [OF assms(1-3), of hp x] show ?thesis
    by (intro data_end_extends) (simp_all add: read_chunked.simps)
qed

lemma line_push:
  assumes "steady c" and "conn_reader c = R_Chunked k" and "line_step k c = Some (Inr d)"
  obtains d' where "line_step k (push c x) = Some (Inr d')" and "settle d' = push d x" and "steady d"
  using assms(3)
proof (cases rule: line_step_cases)
  case (size_line n)
  with assms(1,2) have "n = 0" by (simp add: steady_size)
  with size_line size_line_push [of c d x] chunk_step_steady [OF assms(1), of d] assms(2) that show thesis
    by (auto simp: line_step_def)
next
  case line_end
  with data_end_push [of c d x] chunk_step_steady [OF assms(1), of d] assms(2) that show thesis
    by (auto simp: line_step_def)
qed

lemma line_passed_extends:
  assumes c: "steady c" "peer_state_return c = None" "conn_reader c = R_Chunked k" and d: "line_step k c = Some (Inr d)"
    and fold: "no_unfolding (push c x)"
    and rec: "steady d \<Longrightarrow> no_unfolding (push d x) \<Longrightarrow> extends hp x (next_event_inner hp d) (next_event_inner hp (push d x))"
  shows "extends hp x (next_event_inner hp d) (next_event_inner hp (push c x))"
proof -
  obtain d' where d': "line_step k (push c x) = Some (Inr d')" "settle d' = push d x" "steady d"
    using c(1,3) d by (rule line_push)
  have "no_unfolding d'" using line_step_kept(2) [OF d'(1)] fold by (blast intro: no_unfolding_drop)
  with rec d'(2,3) have "extends hp x (next_event_inner hp d) (next_event_inner hp d')" by (blast intro: chunk_step_extends)
  then show ?thesis by (simp add: chunked_push [OF c] read_chunked_line [OF d'(1)])
qed

text \<open>A body of which nothing, or something, has arrived.\<close>

lemma empty_extends:
  assumes "steady c" and "unread c = []"
  shows "0 < n \<Longrightarrow> extends hp x (read_fixed n c) (next_event_inner hp (push c x))"
    "extends hp x (read_close_delimited c) (next_event_inner hp (push c x))"
    "extends hp x (chunk_data n f c) (next_event_inner hp (push c x))"
  using assms
  by (auto simp: read_fixed_def read_close_delimited_def chunk_data_def need_data_or_eof_def steady_def
      intro!: extends_waits [OF assms(1)])

lemma body_extends:
  assumes "steady c" and "peer_state_return c = None" and "x \<noteq> []"
  shows "conn_reader c = R_Fixed n \<Longrightarrow> extends hp x (read_fixed n c) (next_event_inner hp (push c x))"
    and "conn_reader c = R_CloseDelimited \<Longrightarrow> extends hp x (read_close_delimited c) (next_event_inner hp (push c x))"
    and "conn_reader c = R_Chunked (Ck_Data n f) \<Longrightarrow> extends hp x (chunk_data n f c) (next_event_inner hp (push c x))"
proof -
  note body = steady_receiving [OF assms(1,2)] and empty = empty_extends [OF assms(1)]
  show "extends hp x (read_close_delimited c) (next_event_inner hp (push c x))" if "conn_reader c = R_CloseDelimited"
    using that body assms(3) empty(2) close_delimited_extends [of c x hp] by (cases "unread c = []") simp_all
  show "extends hp x (chunk_data n f c) (next_event_inner hp (push c x))" if "conn_reader c = R_Chunked (Ck_Data n f)"
    using that body assms(1,3) empty(3) chunk_data_extends [of c n x f hp]
    by (cases "unread c = []") (simp_all add: steady_def receive_ok_def)
  show "extends hp x (read_fixed n c) (next_event_inner hp (push c x))" if r: "conn_reader c = R_Fixed n"
  proof (cases "n = 0")
    case True
    with r extends_moved [where f = "finish_peer []" and d = c and n = 0 and c = c and hp = hp and x = x,
        OF peer_events_input(2) _ accept_reacts(3)] show ?thesis
      by (simp add: inner_reads goes_on_push [OF assms(1,2)] read_fixed_def consume_none) (simp add: push_def)
  next
    case False
    with r body assms(3) empty(1) [of n] fixed_extends [of c n x hp] show ?thesis by (cases "unread c = []") simp_all
  qed
qed

lemma inner_extends:
  assumes "httparse_streams hp" and "x \<noteq> []" and "steady c" and "no_unfolding (push c x)"
  shows "extends hp x (next_event_inner hp c) (next_event_inner hp (push c x))"
proof -
  let ?P = "\<lambda>c a. steady c \<longrightarrow> no_unfolding (push c x) \<longrightarrow> extends hp x a (next_event_inner hp (push c x))"
  note parsers = section_parsers [OF assms(1)]
  have "?P c (next_event_inner hp c)"
  proof (rule reading_induct [where P = ?P], goal_cases return head fixed close_delimited line_stops line_passed data trailers)
    case (head c)
    have "extends hp x (read_head hp c) (next_event_inner hp (push c x))" if "steady c"
      using head section_extends [where accept = accept_request and hp = hp and x = x, OF parsers(1) that _ accept_request_input accept_reacts(1)]
        section_extends [where accept = accept_response and hp = hp and x = x, OF parsers(2) that _ accept_response_input accept_reacts(2)]
      by (cases "conn_role c") (simp_all add: inner_reads goes_on_push [OF that] read_head_section)
    then show ?case by blast
  next
    case (line_passed c k d)
    then show ?case using line_passed_extends [OF _ line_passed(1-3), of x hp] by blast
  next
    case (trailers c)
    have "extends hp x (read_trailers hp c) (next_event_inner hp (push c x))" if "steady c" and fold: "no_unfolding (push c x)"
    proof -
      have "no_unfolding c" using fold by (auto simp: no_unfolding_def dest: has_fold_append)
      with section_extends [where accept = finish_peer and hp = hp and x = x, OF parsers(3) that(1) _ peer_events_input(2) accept_reacts(3)]
        read_trailers_plain [OF fold, of hp] chunked_push [OF that(1) trailers, of hp x] show ?thesis
        by (simp add: read_chunked_other read_trailers_plain)
    qed
    then show ?case by blast
  qed (use assms(2) in \<open>auto intro: return_extends body_extends line_stops_extends\<close>)
  with assms(3,4) show ?thesis by blast
qed

section \<open>The connection is a machine with segmented input\<close>

text \<open>Without end of input, nothing the peer sends closes its side.\<close>

definition stays_open :: "Connection \<Rightarrow> Connection \<Rightarrow> bool" where
  "stays_open c c' \<longleftrightarrow>
     conn_role c' = conn_role c \<and> eof c' = eof c
     \<and> (\<not> eof c \<and> peer_state c \<noteq> Closed \<longrightarrow> peer_state c' \<noteq> Closed)"

lemma stabilize_pass_Closed: "state (stabilize_pass st) r = Closed \<longleftrightarrow> state st r = Closed"
  by (cases r) (auto simp: stabilize_pass_defs Let_def)

lemma event_Closed:
  assumes "process_event st r e = (Inr (), st')" and "e \<noteq> SE_ConnectionClosed"
  shows "state st' r \<noteq> Closed"
proof -
  from assms(1) obtain t d where "direct_contract r (state st r) e t" "st' = stabilize_pass (set_state r t d)"
    by (auto simp: process_event_Inr)
  with assms(2) show ?thesis by (auto simp: stabilize_pass_Closed direct_contract.simps)
qed

interpretation unclosed: peer_evolution stays_open
proof unfold_locales
  show "process_event (conn_state c) (peer (conn_role c)) e = (Inr (), st) \<Longrightarrow>
      (e = SE_ConnectionClosed \<longrightarrow> eof c) \<Longrightarrow> stays_open c (c\<lparr>conn_state := st\<rparr>)" for c e st
    by (auto simp: stays_open_def peer_state_def dest: event_Closed)
  have "state (disable_keep_alive st) r = Closed \<longleftrightarrow> state st r = Closed" for st r
    by (cases r) (simp_all add: disable_keep_alive_def stabilize_eq_pass
        stabilize_pass_Closed [of _ Client, simplified] stabilize_pass_Closed [of _ Server, simplified])
  then show "stays_open c (c\<lparr>conn_state := disable_keep_alive (conn_state c)\<rparr>)" for c
    by (simp add: stays_open_def peer_state_def)
qed (auto simp: stays_open_def peer_state_def)

definition good :: "'e httparse \<Rightarrow> Connection \<Rightarrow> bool" where
  "good hp c \<longleftrightarrow> httparse_ok hp \<and> httparse_streams hp \<and> steady c \<and> no_unfolding c"

lemma receive_ok_fresh: "receive_ok c \<Longrightarrow> receive_ok (fresh c)"
proof -
  assume ok: "receive_ok c"
  have "rewind r = R_Fixed 0 \<longleftrightarrow> r = R_Fixed 0" for r by (cases r rule: rewind.cases) simp_all
  moreover have "reader_ok r d \<Longrightarrow> reader_ok (rewind r) d" for r d
    by (cases r rule: rewind.cases) (simp_all add: scan_ok_def)
  ultimately show ?thesis using ok by (simp add: receive_ok_def reader_aligned_def)
qed

lemma receive_ok_push: "receive_ok (push c x) \<longleftrightarrow> receive_ok c" if "unwound c = c"
proof -
  from unwound_eq [OF that] have p: "progress c = None" and r: "rewind (conn_reader c) = conn_reader c" by simp_all
  from r have "reader_ok (conn_reader c) (unread c @ x) = reader_ok (conn_reader c) (unread c)"
    by (cases "conn_reader c" rule: rewind.cases) (auto simp: scan_ok_def split: Chunk.splits)
  with p show ?thesis by (simp add: receive_ok_def)
qed

lemma unwound_iff: "unwound c = c \<longleftrightarrow> progress c = None \<and> rewind (conn_reader c) = conn_reader c"
  by (blast intro: unwound_same dest: unwound_eq)

lemma unwound_push: "unwound (push c x) = push c x \<longleftrightarrow> unwound c = c"
  by (simp add: unwound_iff)

lemma steady_push: "steady (push c x) \<longleftrightarrow> steady c"
  using receive_ok_push [of c x] by (auto simp: steady_def unwound_push)

lemma unwound_fresh [simp]: "unwound (fresh c) = fresh c"
  by (simp add: unwound_iff)

lemma inner_steady:
  assumes "httparse_ok hp" and "steady c" and "next_event_inner hp c = (Inr e, c')"
  shows "steady (fresh c')"
proof -
  have "receive_ok c'" using assms next_event_inner_ok(1) by (auto simp: steady_def)
  moreover have "stays_open c c'" by (rule unclosed.receive_R(1) [OF assms(1,3)])
  moreover have "legal_configuration (conn_state c')"
    using legal_refined [OF lifecycle.receive_R(1) [OF assms(1,3)]] assms(2) by (simp add: steady_def)
  ultimately show ?thesis using assms(2) by (simp add: steady_def stays_open_def receive_ok_fresh)
qed

lemma inner_unfolding:
  assumes "httparse_ok hp" and "next_event_inner hp c = (r, c')" and "no_unfolding (push c x)"
  shows "no_unfolding (push (fresh c') x)"
proof -
  have "discards c c'" by (rule discarding.receive_R(1) [OF assms(1,2)])
  then obtain n where n: "n \<le> length (unread c)" "unread c' = drop n (unread c)" unfolding discards_def by blast
  have "conn_role (push (fresh c') x) = conn_role (push c x)"
    using unclosed.receive_R(1) [OF assms(1,2)] by (simp add: stays_open_def)
  moreover have "unread (push (fresh c') x) = drop n (unread (push c x))" using n by simp
  ultimately show ?thesis by (rule no_unfolding_drop [OF assms(3)])
qed

lemma unfolding_push: "no_unfolding (push c x) \<Longrightarrow> no_unfolding c"
  by (auto simp: no_unfolding_def dest: has_fold_append)

lemma reaction_extends:
  assumes "good hp (push c x)" and "x \<noteq> []"
  shows "extends hp x (next_event_inner hp c) (next_event_inner hp (push c x))"
  using assms inner_extends [of hp x c] by (simp add: good_def steady_push)

lemma push_Nil: "push c [] = settle c"
  by (simp add: push_def settle_def)

lemma reaction_good:
  assumes "good hp (push c x)" and "react hp c = (k, c')" and "k \<noteq> Fails"
  shows "good hp (push c' x)"
proof -
  obtain r d where inner: "next_event_inner hp c = (r, d)" by fastforce
  with assms(2,3) obtain e where r: "r = Inr e" and c': "c' = fresh d" by (cases r) (auto simp: react_def view_def)
  from assms(1) have "httparse_ok hp" "httparse_streams hp" "steady c" "no_unfolding (push c x)"
    by (simp_all add: good_def steady_push)
  with inner_steady [of hp c e d] inner_unfolding [OF _ inner, of x] inner r show ?thesis
    by (simp add: good_def steady_push c')
qed

lemma has_fold_snoc: "\<not> is_ows b \<Longrightarrow> has_fold (d @ [b]) = has_fold d"
  by (induction d rule: has_fold.induct) auto

lemma good_more: "good hp c \<Longrightarrow> good hp (push c [CR])"
  using has_fold_snoc [of CR "unread c"] by (simp add: good_def steady_push no_unfolding_def is_ows_def)

interpretation segments: segmented_input "react hp" push "good hp" for hp
proof unfold_locales
  fix c x y k c' ev d
  note extends = reaction_extends [of hp c x, unfolded extends_def view_def]
  show "push (push c x) y = push c (x @ y)" by (rule push_push)
  show "good hp (push c x) \<Longrightarrow> good hp c"
    by (auto simp: good_def steady_push intro: unfolding_push)
  show "good hp (push c x) \<Longrightarrow> react hp c = (k, c') \<Longrightarrow> k \<noteq> Fails \<Longrightarrow> good hp (push c' x)"
    by (rule reaction_good)
  show "good hp c \<Longrightarrow> fst (react hp c) \<noteq> Finishes ev"
    using reaction_extends [OF good_more, of hp c] by (auto simp: extends_def react_def view_def)
  show "good hp (push c x) \<Longrightarrow> x \<noteq> [] \<Longrightarrow> react hp c = (Waits, c') \<Longrightarrow> react hp (push c x) = react hp (push c' x)"
    using reaction_extends [of hp c x] by (auto simp: extends_def react_def view_def)
  show "good hp (push c x) \<Longrightarrow> x \<noteq> [] \<Longrightarrow> react hp c = (Emits ev, c') \<Longrightarrow> react hp (push c x) = (Emits ev, push c' x)"
    using reaction_extends [of hp c x] by (auto simp: extends_def react_def view_def)
  show "good hp (push c x) \<Longrightarrow> x \<noteq> [] \<Longrightarrow> fst (react hp c) = Fails \<Longrightarrow> fst (react hp (push c x)) = Fails"
    using reaction_extends [of hp c x]
    by (cases "fst (next_event_inner hp c)") (auto simp: extends_def react_def view_def)
  show "good hp (push c x) \<Longrightarrow> x \<noteq> [] \<Longrightarrow> react hp c = (Delivers d, c') \<Longrightarrow>
      react hp (push c x) = (Delivers d, push c' x)
      \<or> (\<exists>y t. react hp c' = (Waits, c') \<and> react hp (push c' x) = (Delivers y, t) \<and> react hp (push c x) = (Delivers (d @ y), t))"
    using reaction_extends [of hp c x] unfolding extends_def react_def by (auto simp: view_def)
qed

end
