(* ===== verification/End_Of_Input.thy ===== *)
theory End_Of_Input
  imports Segmentation
begin

text \<open>
  The end of input.  After the peer closed its side a connection reads what it has from scratch, so
  that connections with the same unread bytes react in exactly the same way; and what failed before
  the end of input fails after it.
\<close>

section \<open>Methods do not look at the end of input while they accept\<close>

lemma advance_peer_eof: "advance_peer e (c\<lparr>eof := b\<rparr>) = apsnd (\<lambda>d. d\<lparr>eof := b\<rparr>) (advance_peer e c)"
  by (simp add: advance_peer_def split: prod.split)

lemma apply_persistence_eof: "apply_persistence v hs (d\<lparr>eof := b\<rparr>) = (apply_persistence v hs d)\<lparr>eof := b\<rparr>"
  by (simp add: apply_persistence_def Let_def)

lemma accept_request_eof: "accept_request q (c\<lparr>eof := b\<rparr>) = apsnd (\<lambda>d. d\<lparr>eof := b\<rparr>) (accept_request q c)"
  unfolding accept_request_def Let_def
  by (auto intro!: and_then_commutes advance_peer_eof simp: apply_persistence_eof split: sum.split)

lemma response_tests_eof [simp]:
  "bodiless s (c\<lparr>eof := b\<rparr>) = bodiless s c" "switches_connect s (c\<lparr>eof := b\<rparr>) = switches_connect s c"
  "valid_upgrade_response v hs (c\<lparr>eof := b\<rparr>) = valid_upgrade_response v hs c"
  by (simp_all add: bodiless_def switches_connect_def request_is_def valid_upgrade_response_def split: option.split)

lemma accept_response_eof: "accept_response q (c\<lparr>eof := b\<rparr>) = apsnd (\<lambda>d. d\<lparr>eof := b\<rparr>) (accept_response q c)"
proof (cases "is_informational (resp_status q)")
  case True
  then show ?thesis
    by (auto intro!: and_then_commutes advance_peer_eof simp: accept_response_info after_info_def)
next
  case False
  have "after_response q (d\<lparr>eof := b\<rparr>) = (after_response q d)\<lparr>eof := b\<rparr>" for d
    by (simp add: after_response_def apply_persistence_eof)
  then show ?thesis
    unfolding accept_response_final [OF False] response_tests_eof
    by (intro and_then_commutes advance_peer_eof) (auto split: sum.split)
qed

lemma peer_events_eof:
  "peer_data d s e (c\<lparr>eof := b\<rparr>) = apsnd (\<lambda>d. d\<lparr>eof := b\<rparr>) (peer_data d s e c)"
  "finish_peer t (c\<lparr>eof := b\<rparr>) = apsnd (\<lambda>d. d\<lparr>eof := b\<rparr>) (finish_peer t c)"
  unfolding peer_data_def finish_peer_def
  by (rule and_then_commutes [OF advance_peer_eof]; simp)+

lemmas eof_moves = accept_request_eof accept_response_eof peer_events_eof

section \<open>Reading from scratch at the end of input\<close>

lemma section_eof:
  assumes "eof c"
  shows "fst (read_section parse accept skip c) = fst (read_section parse accept skip (c\<lparr>progress := None\<rparr>))
    \<and> (snd (read_section parse accept skip c))\<lparr>progress := None\<rparr> =
        (snd (read_section parse accept skip (c\<lparr>progress := None\<rparr>)))\<lparr>progress := None\<rparr>"
  using assms by (simp add: read_section_def search_def wait_progress split: sum.split option.split)

definition same_result :: "NextEvent remote_result \<Rightarrow> NextEvent remote_result \<Rightarrow> bool" where
  "same_result a f \<longleftrightarrow> fst a = fst f \<and> unwound (snd a) = unwound (snd f)"

lemma section_eof_unwound:
  assumes "eof c" and "unwound c = c\<lparr>progress := None\<rparr>"
  shows "same_result (read_section parse accept skip c) (read_section parse accept skip (unwound c))"
  using section_eof [OF assms(1), of parse accept skip] unfolding assms(2)
  by (auto simp: same_result_def intro: unwound_progress)

lemma inner_eof_unwound:
  assumes "eof c" and "receive_ok c"
  shows "same_result (next_event_inner hp c) (next_event_inner hp (unwound c))"
proof (cases "peer_state_return c")
  case (Some r)
  then show ?thesis
    by (simp add: next_event_inner.simps [of hp c] next_event_inner.simps [of hp "unwound c"]
        peer_state_return_unwound same_result_def)
next
  case None
  then have goes: "peer_state_return (unwound c) = None" by (simp add: peer_state_return_unwound)
  note inner = next_event_inner.simps [of hp c] next_event_inner.simps [of hp "unwound c"] None goes
  show ?thesis
  proof (cases "conn_reader c")
    case R_Head
    then have u: "unwound c = c\<lparr>progress := None\<rparr>" "conn_reader (unwound c) = R_Head"
      by (cases c; simp add: unwound_def)+
    from R_Head u(2) section_eof_unwound [where accept = accept_request, OF assms(1) u(1)]
      section_eof_unwound [where accept = accept_response, OF assms(1) u(1)] show ?thesis
      by (cases "conn_role c") (simp_all add: inner read_head_section)
  next
    case (R_Chunked k)
    show ?thesis
    proof (cases k)
      case (Ck_Size n)
      with assms(2) R_Chunked have "scan_ok n (unread c)" "progress c = None"
        by (auto simp: receive_ok_def intro: progress_ok_body)
      moreover have "conn_reader (unwound c) = R_Chunked (Ck_Size 0)" using R_Chunked Ck_Size by (simp add: unwound_def)
      ultimately show ?thesis
        using R_Chunked Ck_Size chunk_size_unwound [of n c]
        by (auto simp: inner read_chunked.simps same_result_def)
    next
      case Ck_Trailers
      then have u: "unwound c = c\<lparr>progress := None\<rparr>" "conn_reader (unwound c) = R_Chunked Ck_Trailers"
        using R_Chunked by (cases c; simp add: unwound_def)+
      from R_Chunked Ck_Trailers u(2) section_eof_unwound [OF assms(1) u(1)] show ?thesis
        by (simp add: inner read_chunked.simps read_trailers_section)
    qed (use R_Chunked assms(2) in \<open>auto simp: unwound_same same_result_def receive_ok_def dest: progress_ok_body\<close>)
  qed (use assms(2) in \<open>auto simp: unwound_same same_result_def receive_ok_def dest: progress_ok_body\<close>)
qed

lemma inner_eof_fresh:
  assumes "eof c" and "receive_ok c"
  shows "fst (next_event_inner hp c) = fst (next_event_inner hp (fresh c))"
    and "fresh (snd (next_event_inner hp c)) = fresh (snd (next_event_inner hp (fresh c)))"
proof -
  note settled = inner_settle [of hp "unwound c"]
  have "fst (next_event_inner hp (unwound c)) = fst (next_event_inner hp (fresh c))"
    using arg_cong [OF settled, of fst] by (simp add: fresh_def)
  moreover have "settle (snd (next_event_inner hp (unwound c))) = settle (snd (next_event_inner hp (fresh c)))"
    using arg_cong [OF settled, of snd] by (simp add: fresh_def)
  then have "fresh (snd (next_event_inner hp (unwound c))) = fresh (snd (next_event_inner hp (fresh c)))"
    by (metis fresh_settle)
  moreover note inner_eof_unwound [OF assms, of hp, unfolded same_result_def]
  ultimately show "fst (next_event_inner hp c) = fst (next_event_inner hp (fresh c))"
    and "fresh (snd (next_event_inner hp c)) = fresh (snd (next_event_inner hp (fresh c)))"
    by (simp_all add: fresh_def)
qed

section \<open>What failed keeps failing\<close>

abbreviation ended :: "Connection \<Rightarrow> Connection" where
  "ended c \<equiv> c\<lparr>eof := True\<rparr>"

lemma section_fails_ended:
  assumes "isl (fst (read_section parse accept skip c))" and "progress c = None" and "\<not> eof c"
    and "\<And>q d. accept q (ended d) = apsnd ended (accept q d)"
  shows "isl (fst (read_section parse accept skip (ended c)))"
proof -
  have swap: "(ended c)\<lparr>progress := p, input := b\<rparr> = ended (c\<lparr>progress := p, input := b\<rparr>)" for p b by simp
  have ready: "search (eof (ended c)) (progress (ended c)) d skip = (True, None)" "search (eof c) (progress c) d skip = (True, None)" for d
    using assms(2,3) by (simp_all add: search_def)
  show ?thesis
    using assms(1) unfolding read_section_def ready
    by (auto simp: wait_fails assms(4) swap simp del: Connection.update_convs split: sum.splits option.splits)
qed

lemma return_fails_ended:
  assumes "peer_state_return c = None" and "peer_state c = Idle \<longrightarrow> unread c \<noteq> []"
  shows "peer_state_return (ended c) = None"
  using assms by (auto simp: peer_state_return_def split: State.State.splits if_splits)

lemma idle_waits:
  assumes "httparse_streams hp" and "peer_state c = Idle" and "unread c = []" and "\<not> eof c" and "conn_reader c = R_Head"
    and "progress c = None"
  shows "fst (next_event_inner hp c) = Inr NE_NeedData"
proof -
  note empty = section_parsers(1,2) [OF assms(1), THEN section_parserD(7)]
  have "peer_state_return c = None" using assms(2,4) by (simp add: peer_state_return_def)
  with assms(3-6) empty show ?thesis
    by (simp add: next_event_inner.simps read_head_section read_section_def search_def wait_waits)
qed

lemma chunk_steps_ended:
  "chunk_size_step n c = Inr d \<Longrightarrow> chunk_size_step n (ended c) = Inr (ended d)"
  "chunk_data_end_step c = Inr d \<Longrightarrow> chunk_data_end_step (ended c) = Inr (ended d)"
  "chunk_size_step n c = Inl a \<Longrightarrow> isl (fst a) \<Longrightarrow> \<exists>b. chunk_size_step n (ended c) = Inl b \<and> isl (fst b)"
  "chunk_data_end_step c = Inl a \<Longrightarrow> isl (fst a) \<Longrightarrow> \<exists>b. chunk_data_end_step (ended c) = Inl b \<and> isl (fst b)"
  by (auto simp: chunk_size_step_def chunk_data_end_step_def chunk_line_too_long_def need_data_or_eof_def Let_def
      split: option.splits if_splits)

lemma body_fails_ended:
  "isl (fst (read_fixed n c)) \<Longrightarrow> isl (fst (read_fixed n (ended c)))"
  "isl (fst (chunk_data n f c)) \<Longrightarrow> isl (fst (chunk_data n f (ended c)))"
  "isl (fst (read_close_delimited c)) \<Longrightarrow> isl (fst (read_close_delimited (ended c)))"
proof -
  have swap: "(ended c)\<lparr>conn_reader := r, input := b\<rparr> = ended (c\<lparr>conn_reader := r, input := b\<rparr>)"
    "(ended c)\<lparr>input := b\<rparr> = ended (c\<lparr>input := b\<rparr>)" for r b by simp_all
  show "isl (fst (read_fixed n c)) \<Longrightarrow> isl (fst (read_fixed n (ended c)))"
    "isl (fst (chunk_data n f c)) \<Longrightarrow> isl (fst (chunk_data n f (ended c)))"
    "isl (fst (read_close_delimited c)) \<Longrightarrow> isl (fst (read_close_delimited (ended c)))"
    unfolding read_fixed_def chunk_data_def read_close_delimited_def Let_def buffer_take_def
    by (auto simp: swap peer_events_eof need_data_or_eof_def simp del: Connection.update_convs split: if_splits)
qed

lemma return_none_ended:
  assumes "httparse_streams hp" and "peer_state_return c = None" and "receive_ok c" and "progress c = None" and "\<not> eof c"
    and "isl (fst (next_event_inner hp c))"
  shows "peer_state_return (ended c) = None"
proof (rule return_fails_ended [OF assms(2)], intro impI notI)
  assume "peer_state c = Idle" and "unread c = []"
  moreover from this assms(3) have "conn_reader c = R_Head" by (auto simp: receive_ok_def reader_aligned_def split: if_splits)
  ultimately show False using idle_waits [OF assms(1)] assms(4-6) by simp
qed

lemma line_step_eof: "line_step k c = Some (Inr d) \<Longrightarrow> eof d = eof c"
  by (erule line_step_cases)
     (auto simp: chunk_size_step_def chunk_data_end_step_def Let_def split: option.splits if_splits)

lemma line_step_ended:
  "line_step k c = Some (Inr d) \<Longrightarrow> line_step k (ended c) = Some (Inr (ended d))"
  "line_step k c = Some (Inl a) \<Longrightarrow> isl (fst a) \<Longrightarrow> \<exists>b. line_step k (ended c) = Some (Inl b) \<and> isl (fst b)"
  by (erule line_step_cases; drule chunk_steps_ended; simp add: line_step_def)+

lemma inner_fails_ended:
  assumes "httparse_streams hp" and "isl (fst (next_event_inner hp c))" and "receive_ok c" and "progress c = None" and "\<not> eof c"
  shows "isl (fst (next_event_inner hp (ended c)))"
proof -
  let ?P = "\<lambda>c a. a = next_event_inner hp c \<longrightarrow> isl (fst a) \<longrightarrow> receive_ok c \<longrightarrow> progress c = None \<longrightarrow> \<not> eof c
    \<longrightarrow> isl (fst (next_event_inner hp (ended c)))"
  have reads: "?P c a" if "peer_state_return c = None"
      and "\<lbrakk>peer_state_return (ended c) = None; isl (fst a); receive_ok c; progress c = None; \<not> eof c\<rbrakk>
        \<Longrightarrow> isl (fst (next_event_inner hp (ended c)))" for c a
    using that return_none_ended [OF assms(1) that(1)] by auto
  have "?P c (next_event_inner hp c)"
  proof (rule reading_induct [where P = ?P], goal_cases return head fixed close_delimited line_stops line_passed data trailers)
    case (return c r)
    then have "\<not> eof c \<Longrightarrow> isl (fst r) \<Longrightarrow> peer_state c = Error"
      by (auto simp: peer_state_return_def split: State.State.splits if_splits)
    then show ?case by (simp add: next_event_inner.simps [of hp "ended c"] peer_state_return_def)
  next
    case (head c)
    then show ?case
      using section_fails_ended [where accept = accept_request] section_fails_ended [where accept = accept_response]
        accept_request_eof [where b = True] accept_response_eof [where b = True]
      by (intro reads) (simp_all add: inner_reads read_head_section split: if_splits)
  next
    case (line_stops c k r)
    then show ?case
      using line_step_ended(2) [OF line_stops(3)] by (intro reads) (auto simp: inner_reads read_chunked_line)
  next
    case (line_passed c k d)
    then show ?case
      using line_step_ended(1) [OF line_passed(3)] line_step_ok [OF line_passed(3)] line_step_eof [OF line_passed(3)]
        line_step_kept(2) [OF line_passed(3)]
      by (intro reads) (simp_all add: inner_reads read_chunked_line)
  next
    case (trailers c)
    then show ?case
      using section_fails_ended [where accept = finish_peer] peer_events_eof(2) [where b = True]
      by (intro reads) (simp_all add: inner_reads read_chunked_other read_trailers_section)
  qed (use body_fails_ended in \<open>intro reads; simp add: inner_reads read_chunked_other\<close>)+
  with assms show ?thesis by blast
qed

end
