(* ===== verification/Sending.thy ===== *)
theory Sending
  imports Connection_Inv Sample_Parser
begin

text \<open>
  What the sending methods guarantee: failed calls change nothing, the heads they write are well
  formed after every normalisation, a final response is written with the framing that its receiver
  will derive from it, and when a response announces that the connection closes.
\<close>

section \<open>Fields of a final response\<close>

lemma tokens_other_field:
  assumes "\<not> eq_ignore_ascii_case name (bytes ''connection'')"
  shows "tokens (set_connection_close hs) name = tokens hs name"
proof -
  have keep: "header_values (filter (\<lambda>(field, _). \<not> eq_ignore_ascii_case field (bytes ''connection'')) hs) name
      = header_values hs name"
    by (rule header_values_filter_keep)
       (use assms in \<open>blast intro: eq_ignore_ascii_case_trans eq_ignore_ascii_case_sym [THEN iffD1]\<close>)
  have "header_values [(bytes ''Connection'', v)] name = []" for v
    using assms connection_name
    by (auto simp: header_values_def dest: eq_ignore_ascii_case_trans [OF eq_ignore_ascii_case_sym [THEN iffD1]])
  with keep show ?thesis by (simp add: set_connection_close_eq tokens_def list_elements_def)
qed

lemma framing_tokens:
  "transfer_codings hs = transfer_codings ks \<Longrightarrow> content_lengths hs = content_lengths ks \<Longrightarrow> framing hs v = framing ks v"
  unfolding framing_def tokens_def [symmetric] by simp

lemma count_tokens: "count_header hs name = 0 \<longleftrightarrow> tokens hs name = []"
  by (simp add: tokens_def list_elements_Nil)

lemma framing_field_count_0: "framing_field_count hs = 0 \<longleftrightarrow> transfer_codings hs = [] \<and> content_lengths hs = []"
  by (simp add: framing_field_count_def count_tokens)

lemma response_framing_tokens:
  assumes "transfer_codings hs = transfer_codings ks" and "content_lengths hs = content_lengths ks"
  shows "response_framing hs v = response_framing ks v"
  using assms framing_tokens [OF assms] framing_field_count_0 [of hs] framing_field_count_0 [of ks]
  by (simp add: response_framing_def flip: framing_field_count_def)

lemma framing_names:
  "\<not> eq_ignore_ascii_case (bytes ''transfer-encoding'') (bytes ''connection'')"
  "\<not> eq_ignore_ascii_case (bytes ''content-length'') (bytes ''connection'')"
  "eq_ignore_ascii_case (bytes ''Transfer-Encoding'') (bytes ''transfer-encoding'')"
  "\<not> eq_ignore_ascii_case (bytes ''Transfer-Encoding'') (bytes ''content-length'')"
  "\<not> eq_ignore_ascii_case (bytes ''Transfer-Encoding'') (bytes ''connection'')"
  by (simp_all add: byte_eval)

lemma tokens_chunked_field: "tokens [(bytes ''Transfer-Encoding'', v)] (bytes ''connection'') = []"
  by (simp add: tokens_def list_elements_def header_values_def framing_names)

lemma response_framing_close: "response_framing (set_connection_close hs) v = response_framing hs v"
  by (rule response_framing_tokens) (simp_all add: tokens_other_field framing_names)

lemma response_framing_out: "response_framing (response_headers_out fc q hs c) v = response_framing hs v"
  by (simp add: response_headers_out_def response_framing_close)

lemma chunked_token: "trim_ows (bytes ''chunked'') = bytes ''chunked''"
  by (rule trim_ows_fixed) (simp add: byte_eval)

lemma response_framing_chunked:
  assumes "framing_field_count hs = 0"
  shows "response_framing (hs @ [(bytes ''Transfer-Encoding'', bytes ''chunked'')]) Http11 = Inr F_Chunked"
proof -
  let ?hs = "hs @ [(bytes ''Transfer-Encoding'', bytes ''chunked'')]"
  have "split_on is_comma (bytes ''chunked'') = [bytes ''chunked'']"
    by (rule split_on_no_sep) (simp add: bytes_def)
  then have te: "transfer_codings ?hs = [bytes ''chunked'']"
    using assms by (simp add: framing_field_count_0 tokens_singleton framing_names chunked_token)
  have "tokens [(bytes ''Transfer-Encoding'', bytes ''chunked'')] (bytes ''content-length'') = []"
    by (simp add: tokens_def list_elements_def header_values_def framing_names)
  then have "content_lengths ?hs = []" using assms by (simp add: framing_field_count_0)
  with te have "framing ?hs Http11 = Inr F_Chunked" by (simp add: framing_Inr_iff accepted_framing_def)
  moreover have "count_header ?hs (bytes ''transfer-encoding'') \<noteq> 0" using te by (simp add: count_tokens)
  ultimately show ?thesis by (simp add: response_framing_def)
qed

lemma select_response_framing_agrees:
  assumes "select_response_framing False v hs c = Inr (f, ks, fc)"
  shows "response_framing ks v = Inr f"
proof (cases "framing_field_count hs = 0")
  case True
  with assms response_framing_chunked [OF True] show ?thesis
    by (auto simp: select_response_framing_def both_http11_def response_framing_def framing_field_count_def split: if_splits)
next
  case False
  with assms show ?thesis
    by (auto simp: select_response_framing_def response_framing_def framing_field_count_def split: sum.splits)
qed

section \<open>Written fields stay valid\<close>

definition valid_fields :: "Header list \<Rightarrow> bool" where
  "valid_fields hs \<longleftrightarrow> (\<forall>(name, value) \<in> set hs. valid_name name \<and> valid_value value)"

lemma line_value_vchar: "is_line_value_byte b \<Longrightarrow> \<not> is_ows b \<Longrightarrow> is_field_vchar b"
  by (auto simp: byte_class word_le_nat_alt word_unat_eq_iff)

lemma valid_fields_filter: "valid_fields hs \<Longrightarrow> valid_fields (filter P hs)"
  by (auto simp: valid_fields_def)

lemma kept_option_value:
  assumes "valid_fields hs" and "v \<in> set (kept_options hs)"
  shows "v \<noteq> [] \<and> valid_value v"
proof -
  from assms(2) have ne: "v \<noteq> []" and fixed: "trim_ows v = v" and tok: "v \<in> set (tokens hs (bytes ''connection''))"
    by (auto simp: kept_options_def kept_options_trim [OF assms(2)])
  from tok obtain field val piece where h: "(field, val) \<in> set hs"
    and piece: "piece \<in> set (split_on is_comma val)" "v = trim_ows piece"
    by (auto simp: tokens_def list_elements_def header_values_def)
  have "\<forall>b \<in> set v. is_line_value_byte b"
  proof
    fix b assume "b \<in> set v"
    with piece set_trim_ows [of piece] split_on_pieces [OF piece(1)] have "b \<in> set val" by auto
    moreover have "valid_value val" using assms(1) h by (auto simp: valid_fields_def)
    ultimately show "is_line_value_byte b" by (intro valid_value_line)
  qed
  moreover have "\<not> is_ows (hd v) \<and> \<not> is_ows (last v)" using trim_ows_ends [of v] ne fixed by simp
  ultimately have "valid_value v"
    using ne by (auto simp: valid_value_iff list_all_iff intro!: line_value_vchar)
  with ne show ?thesis by simp
qed

lemma valid_value_join:
  "\<forall>v \<in> set vs. v \<noteq> [] \<and> valid_value v \<Longrightarrow> vs \<noteq> [] \<Longrightarrow>
     slice_join (bytes '', '') vs \<noteq> [] \<and> valid_value (slice_join (bytes '', '') vs)"
proof (induction vs rule: induct_list012)
  case (3 x y zs)
  let ?rest = "slice_join (bytes '', '') (y # zs)"
  have sep: "list_all is_line_value_byte (bytes '', '')" by (simp add: byte_eval)
  from 3 have "?rest \<noteq> []" "valid_value ?rest" by simp_all
  moreover from "3.prems" have "x \<noteq> []" "valid_value x" by simp_all
  ultimately show ?case using sep by (simp add: valid_value_iff del: slice_join.simps(2))
qed auto

lemma valid_fields_close:
  assumes "valid_fields hs"
  shows "valid_fields (set_connection_close hs)"
proof -
  have "valid_name (bytes ''Connection'')" by (simp add: valid_name_def byte_eval)
  moreover have "valid_value (bytes ''close'')" by (simp add: valid_value_def byte_eval)
  then have "valid_value (slice_join (bytes '', '') (kept_options hs @ [bytes ''close'']))"
    using kept_option_value [OF assms] by (intro valid_value_join [THEN conjunct2]) auto
  ultimately show ?thesis
    using valid_fields_filter [OF assms] by (auto simp: set_connection_close_eq valid_fields_def)
qed

lemma valid_fields_selected:
  assumes "valid_fields hs" and "select_response_framing nb v (drop_unusable_framing v hs c) c = Inr (f, ks, fc)"
  shows "valid_fields (response_headers_out fc q ks c)"
proof -
  have "valid_fields (drop_unusable_framing v hs c)"
    using valid_fields_filter [OF assms(1)] assms(1) by (simp add: drop_unusable_framing_def)
  moreover have "valid_name (bytes ''Transfer-Encoding'')" "valid_value (bytes ''chunked'')"
    by (simp_all add: valid_name_def valid_value_def byte_eval)
  ultimately have "valid_fields ks"
    using assms(2) by (auto simp: select_response_framing_def valid_fields_def split: if_splits sum.splits)
  then show ?thesis by (simp add: response_headers_out_def valid_fields_close)
qed

section \<open>Persistence of a final response\<close>

lemma keep_alive_apply_persistence:
  "keep_alive (conn_state (apply_persistence v hs c)) \<longleftrightarrow>
     keep_alive (conn_state c) \<and> v = Http11 \<and> \<not> has_token hs (bytes ''connection'') (bytes ''close'')"
  by (auto simp: apply_persistence_def Let_def disable_keep_alive_def)

lemma keep_alive_response_event:
  assumes "process_event st Server SE_Response = (Inr (), st')"
  shows "keep_alive st' \<longleftrightarrow> keep_alive st \<and> \<not> connect (proposals st) \<and> server st \<noteq> Idle"
  using assms by (auto simp: process_event_Inr Let_def split: if_splits)

lemma close_is_announced:
  "has_token (set_connection_close hs) (bytes ''connection'') (bytes ''close'')"
  by (auto simp: has_token_iff tokens_set_connection_close)

lemma response_headers_out_close:
  assumes "\<not> switches_connect (resp_status q) c"
  shows "has_token (response_headers_out fc q hs c) (bytes ''connection'') (bytes ''close'') \<longleftrightarrow>
    \<not> keep_alive (conn_state c) \<or> peer_version c \<noteq> Some Http11 \<or> resp_http_version q \<noteq> Http11 \<or> fc
    \<or> has_token hs (bytes ''connection'') (bytes ''close'')"
  using assms close_is_announced by (auto simp: response_headers_out_def)

lemma sent_response_keep_alive:
  assumes "send_response q c = (Inr out, c')" and "\<not> switches_connect (resp_status q) c"
  obtains hs where "out = serialize_response (resp_http_version q) (resp_status q) (resp_reason q) hs"
    and "keep_alive (conn_state c') \<longleftrightarrow>
      keep_alive (conn_state c) \<and> \<not> connect (proposals (conn_state c)) \<and> local_state c \<noteq> Idle
      \<and> \<not> has_token hs (bytes ''connection'') (bytes ''close'')"
    and "has_token hs (bytes ''connection'') (bytes ''close'') \<or>
      keep_alive (conn_state c) \<and> peer_version c = Some Http11 \<and> resp_http_version q = Http11"
    and "both_http11 (resp_http_version q) c \<and> keep_alive (conn_state c)
      \<and> \<not> has_token (resp_headers q) (bytes ''connection'') (bytes ''close'') \<longrightarrow>
        \<not> has_token hs (bytes ''connection'') (bytes ''close'')"
proof -
  from assms(1) obtain frame headers fc d where role: "conn_role c = Server"
    and sel: "select_response_framing (bodiless (resp_status q) c) (resp_http_version q)
      (drop_unusable_framing (resp_http_version q) (resp_headers q) c) c = Inr (frame, headers, fc)"
    and adv: "advance_local (decision_event (resp_status q) c) c = (Inr (), d)"
    and c': "c' = (apply_persistence (resp_http_version q) (response_headers_out fc q headers c) d)
      \<lparr>writer := Some frame, waiting_for_continue := False, continue_before_upgrade := False,
       upgrade_proposals := []\<rparr>"
    and out: "out = serialize_response (resp_http_version q) (resp_status q) (resp_reason q)
      (response_headers_out fc q headers c)"
    by (rule send_response_Inr)
  let ?hs = "response_headers_out fc q headers c"
  note close = response_headers_out_close [OF assms(2), of fc headers]
  from adv assms(2) obtain st where st: "process_event (conn_state c) (conn_role c) SE_Response = (Inr (), st)"
    "d = c\<lparr>conn_state := st\<rparr>"
    by (auto elim!: advance_local_Inr)
  have "keep_alive (conn_state c') \<longleftrightarrow> keep_alive st \<and> resp_http_version q = Http11
      \<and> \<not> has_token ?hs (bytes ''connection'') (bytes ''close'')"
    by (simp add: c' keep_alive_apply_persistence st(2))
  then have ka: "keep_alive (conn_state c') \<longleftrightarrow>
      keep_alive (conn_state c) \<and> \<not> connect (proposals (conn_state c)) \<and> local_state c \<noteq> Idle
      \<and> \<not> has_token ?hs (bytes ''connection'') (bytes ''close'')"
    using keep_alive_response_event [of "conn_state c" st] st(1) role close by (auto simp: local_state_def)
  have same: "both_http11 (resp_http_version q) c \<Longrightarrow> \<not> fc \<and>
      (has_token headers (bytes ''connection'') (bytes ''close'') \<longleftrightarrow> has_token (resp_headers q) (bytes ''connection'') (bytes ''close''))"
    using sel
    by (auto simp: select_response_framing_def both_http11_def drop_unusable_framing_def has_token_iff
        tokens_chunked_field split: if_splits sum.splits)
  from out ka show thesis
    by (rule that) (use close same in \<open>auto simp: both_http11_def\<close>)
qed

section \<open>Properties of sending\<close>

text \<open>A sending call that returns an error leaves the whole connection unchanged: it can be corrected
  and repeated.\<close>

theorem failed_sends_change_nothing:
  assumes "fst r = Inl e"
    and "r \<in> {send_request q c, send_informational_response i c, send_response p c, send_data d c, end_of_message t c}"
  shows "snd r = c"
proof -
  obtain c' where r: "r = (Inl e, c')" using assms(1) by (cases r) auto
  with assms(2) have "send_request q c = (Inl e, c') \<or> send_informational_response i c = (Inl e, c')
      \<or> send_response p c = (Inl e, c') \<or> send_data d c = (Inl e, c') \<or> end_of_message t c = (Inl e, c')"
    by auto
  then have "c' = c" by (elim disjE) (rule failed_send failed_send_data, assumption)+
  with r show ?thesis by simp
qed

theorem failed_sends_change_nothing_witness:
  "snd (send_data [1] (connection_new Client limits_default)) = connection_new Client limits_default"
  using failed_sends_change_nothing [of "send_data [1] (connection_new Client limits_default)"
      "local_err ''message framing is not initialized''"]
  by (simp add: send_data_def send_data_parts_def send_data_framing_def connection_new_def)

text \<open>The fields that a final response is written with.\<close>

definition written_fields :: "Response \<Rightarrow> Connection \<Rightarrow> Header list" where
  "written_fields q c =
     (case select_response_framing (bodiless (resp_status q) c) (resp_http_version q)
             (drop_unusable_framing (resp_http_version q) (resp_headers q) c) c of
        Inl e \<Rightarrow> []
      | Inr (frame, headers, force_close) \<Rightarrow> response_headers_out force_close q headers c)"

lemma sent_response_fields:
  assumes "send_response q c = (Inr out, c')"
  obtains f where "out = serialize_response (resp_http_version q) (resp_status q) (resp_reason q) (written_fields q c)"
    and "validate_headers (written_fields q c) = Inr ()" and "writer c' = Some f"
    and "if bodiless (resp_status q) c then f = F_Fixed 0 else response_framing (written_fields q c) (resp_http_version q) = Inr f"
proof -
  from assms obtain frame headers fc where valid: "validate_headers (resp_headers q) = Inr ()"
    and sel: "select_response_framing (bodiless (resp_status q) c) (resp_http_version q)
      (drop_unusable_framing (resp_http_version q) (resp_headers q) c) c = Inr (frame, headers, fc)"
    and c': "writer c' = Some frame"
    and out: "out = serialize_response (resp_http_version q) (resp_status q) (resp_reason q)
      (response_headers_out fc q headers c)"
    by (rule send_response_Inr) simp
  have fields: "written_fields q c = response_headers_out fc q headers c" by (simp add: written_fields_def sel)
  have "valid_fields (response_headers_out fc q headers c)"
    using valid valid_fields_selected [OF _ sel] by (simp add: valid_fields_def validate_headers_Inr)
  moreover have "if bodiless (resp_status q) c then frame = F_Fixed 0
      else response_framing (response_headers_out fc q headers c) (resp_http_version q) = Inr frame"
    using sel select_response_framing_agrees [of "resp_http_version q" _ c frame headers fc]
    by (auto simp: response_framing_out select_response_framing_def [of True])
  ultimately show thesis using that [of frame] out c' by (simp add: fields valid_fields_def validate_headers_Inr)
qed

text \<open>The server and its peer agree on the framing: the fields that a final response goes out with are
  valid, and a client that derives the body's framing from them gets the framing the server writes
  with; a response without a body is written with a body of length zero.\<close>

theorem response_framing_agreed:
  assumes "send_response q c = (Inr out, c')"
  shows "\<exists>hs f. out = serialize_response (resp_http_version q) (resp_status q) (resp_reason q) hs
    \<and> validate_headers hs = Inr () \<and> writer c' = Some f
    \<and> (if bodiless (resp_status q) c then f = F_Fixed 0 else response_framing hs (resp_http_version q) = Inr f)"
  using assms by (rule sent_response_fields) blast

definition sample_server :: Connection where
  "sample_server = (connection_new Server limits_default)
     \<lparr>conn_state := \<lparr>client = SendBody, server = SendResponse, keep_alive = True, proposals = NONE\<rparr>,
      peer_version := Some Http11, request_kind := Some RK_Other\<rparr>"

definition sample_response :: Response where
  "sample_response = \<lparr>resp_status = StatusCode 200, resp_reason = [], resp_headers = [], resp_http_version = Http11\<rparr>"

lemma sample_server_sends: "\<exists>out c'. send_response sample_response sample_server = (Inr out, c')"
proof -
  have "is_ok (fst (send_response sample_response sample_server))"
    by (simp add: sample_response_def sample_server_def connection_new_def send_response_def is_informational_def
        is_success_def validate_headers_def validate_reason_def Let_def request_is_def framing_field_count_def
        count_header_def header_values_def drop_unusable_framing_def select_response_framing_def both_http11_def
        advance_local_def process_event_def direct_transition_def)
  then show ?thesis by (metis (no_types) isl_def prod.collapse sum.exhaust_sel)
qed

theorem response_framing_agreed_witness:
  "\<exists>c' f. writer c' = Some f \<and> snd (send_response sample_response sample_server) = c'"
proof -
  obtain out c' where "send_response sample_response sample_server = (Inr out, c')" using sample_server_sends by blast
  with response_framing_agreed [OF this] show ?thesis by fastforce
qed



text \<open>C37. The exceptions are real: on an HTTP/1.1 exchange with keep-alive on, a response that rejects a
  CONNECT, or that answers before a request on a reused connection, goes out without the close
  option although the connection is no longer persistent afterwards.\<close>

theorem silent_close:
  assumes "send_response q c = (Inr out, c')" and "\<not> switches_connect (resp_status q) c"
    and "both_http11 (resp_http_version q) c" and "keep_alive (conn_state c)"
    and "\<not> has_token (resp_headers q) (bytes ''connection'') (bytes ''close'')"
    and "connect (proposals (conn_state c)) \<or> local_state c = Idle"
  shows "\<not> keep_alive (conn_state c')
    \<and> (\<exists>hs. out = serialize_response (resp_http_version q) (resp_status q) (resp_reason q) hs
         \<and> \<not> has_token hs (bytes ''connection'') (bytes ''close''))"
  using assms(1,2) by (rule sent_response_keep_alive) (use assms(3-6) in blast)

definition rejecting_server :: Connection where
  "rejecting_server = sample_server
     \<lparr>conn_state := \<lparr>client = SendBody, server = SendResponse, keep_alive = True, proposals = from_flags True False\<rparr>,
      request_kind := Some RK_Connect\<rparr>"

definition rejection :: Response where
  "rejection = \<lparr>resp_status = StatusCode 403, resp_reason = [], resp_headers = [], resp_http_version = Http11\<rparr>"

theorem silent_close_witness: "\<not> keep_alive (conn_state (snd (send_response rejection rejecting_server)))"
proof -
  have "is_ok (fst (send_response rejection rejecting_server))"
    by (simp add: rejection_def rejecting_server_def sample_server_def connection_new_def send_response_def
        is_informational_def is_success_def validate_headers_def validate_reason_def Let_def request_is_def
        framing_field_count_def count_header_def header_values_def drop_unusable_framing_def
        select_response_framing_def both_http11_def advance_local_def process_event_def direct_transition_def)
  then obtain out c' where sent: "send_response rejection rejecting_server = (Inr out, c')"
    by (metis (no_types) isl_def prod.collapse sum.exhaust_sel)
  have "\<not> keep_alive (conn_state c')"
    by (rule silent_close [OF sent, THEN conjunct1])
       (simp_all add: switches_connect_def is_success_def both_http11_def has_token_def list_elements_def header_values_def
         rejection_def rejecting_server_def sample_server_def connection_new_def from_flags_def)
  with sent show ?thesis by simp
qed

end
