(* ===== verification/Exchange.thy ===== *)
theory Exchange
  imports Receiving Sending Bodies
begin

text \<open>
  Exchanges between two connections: a request head written by a client connection, read by a server
  connection through a head parser that reports the parts of what was written.  Both sides end up
  with the same framing, the same expectation of a 100 response and the same switch proposals.
\<close>

section \<open>The parts of a written request\<close>

definition request_parts :: "Request \<Rightarrow> hp_request" where
  "request_parts q =
     \<lparr>hp_req_version = Some (case req_http_version q of Http10 \<Rightarrow> 0 | Http11 \<Rightarrow> 1),
      hp_req_method = Some (as_bytes (req_method q)), hp_req_path = Some (req_target q),
      hp_req_headers = req_headers q\<rparr>"

text \<open>What the connection relies on: the parser reports the parts of a well-formed head, and its length.\<close>

definition parses_request :: "'e httparse \<Rightarrow> Request \<Rightarrow> u8 list \<Rightarrow> usize \<Rightarrow> bool" where
  "parses_request hp q rest slots \<longleftrightarrow>
     hp_parse_request hp (serialize_request q @ rest) slots = Inr (Some (length (serialize_request q), request_parts q))"

lemma parse_written_request:
  assumes "parses_request hp q rest mh" and "valid_method (req_method q)" and "length (serialize_request q) \<le> mb"
  shows "parse_request_head hp (serialize_request q @ rest) mb mh = Inr (Some (length (serialize_request q), q))"
proof -
  have "version (Some (case req_http_version q of Http10 \<Rightarrow> 0 | Http11 \<Rightarrow> 1)) = Inr (req_http_version q)"
    by (cases "req_http_version q") (simp_all add: version_def)
  moreover have "method_from_bytes (as_bytes (req_method q)) = Inr (req_method q)"
    using assms(2) by (simp add: method_from_bytes_Inr)
  moreover have "copy_headers hs False = hs" for hs by (simp add: copy_headers_def)
  ultimately show ?thesis
    using assms(1,3)
    by (simp add: parse_request_head_def parses_request_def request_parts_def ok_or_def)
qed

lemma sent_upgrades:
  assumes "send_request q c = (Inr out, c')"
  shows "upgrade_proposals c' = proposed_upgrades (req_http_version q) (req_headers q)"
proof -
  from assms obtain ups where ups: "upgrade_protocols (req_headers q) = Some ups"
    "has_token (req_headers q) (bytes ''connection'') (bytes ''upgrade'') \<longleftrightarrow> ups \<noteq> []"
    by (auto simp: send_request_def Let_def split: if_splits sum.splits)
  from assms have "upgrade_proposals c' =
      (if req_http_version q = Http11 then the (upgrade_protocols (req_headers q)) else [])"
    by (rule send_request_Inr) simp
  with ups show ?thesis by (auto simp: proposed_upgrades_def)
qed

lemma idle_request_accepted:
  assumes "client st = Idle" and "server st = Idle"
  shows "\<exists>st'. process_event st Client (SE_Request ps) = (Inr (), st')"
  using assms by (simp add: process_event_Inr direct_contract.simps)

definition idle_server :: "Connection \<Rightarrow> u8 list \<Rightarrow> bool" where
  "idle_server s d \<longleftrightarrow>
     conn_role s = Server \<and> client (conn_state s) = Idle \<and> server (conn_state s) = Idle
     \<and> conn_reader s = R_Head \<and> progress s = None \<and> unread s = d"

lemma accept_written_request:
  assumes "idle_server s d" and "validate_request q = Inr ()"
    and "framing (req_headers q) (req_http_version q) = Inr f"
  obtains s' where "accept_request q (s\<lparr>input := buffer_consume (input s) n, progress := None\<rparr>)
      = (Inr (NE_Event (Ev_Request q)), s')"
    and "unread s' = drop n d" and "conn_reader s' = reader f"
    and "request_kind s' = Some (from_method (as_bytes (req_method q)))"
    and "waiting_for_continue s' = expects_continue (req_http_version q) (req_headers q) f"
    and "upgrade_proposals s' = proposed_upgrades (req_http_version q) (req_headers q)"
    and "peer_state s' = SendBody"
proof -
  let ?s = "s\<lparr>input := buffer_consume (input s) n, progress := None\<rparr>"
  let ?ev = "SE_Request (from_flags (as_bytes (req_method q) = bytes ''CONNECT'')
      (proposed_upgrades (req_http_version q) (req_headers q) \<noteq> []))"
  obtain st where st: "process_event (conn_state s) Client ?ev = (Inr (), st)"
    using assms(1) idle_request_accepted by (auto simp: idle_server_def)
  then have adv: "advance_peer ?ev ?s = (Inr (), ?s\<lparr>conn_state := st\<rparr>)"
    using assms(1) by (simp add: advance_peer_def idle_server_def)
  have ok: "valid_request_target (req_target q)" "valid_host (req_http_version q) (req_headers q)"
    using assms(2) by (simp_all add: validate_request_Inr)
  obtain s' where acc: "accept_request q ?s = (Inr (NE_Event (Ev_Request q)), s')"
    and fields: "upgrade_proposals s' = proposed_upgrades (req_http_version q) (req_headers q)"
    using adv ok assms(3) by (simp add: accept_request_def Let_def)
  from acc have "receive_ok s'" by (rule accept_request_ok) simp
  moreover from acc have "conn_reader s' = reader f" "request_kind s' = Some (from_method (as_bytes (req_method q)))"
    "waiting_for_continue s' = expects_continue (req_http_version q) (req_headers q) f" "unread s' = unread ?s"
    by (rule accept_request_Inr; use assms(3) in simp)+
  moreover have "unread ?s = drop n d" using assms(1) by (simp add: idle_server_def)
  moreover have "peer_state s' = SendBody"
  proof -
    from acc adv ok assms(3) have "side_kept (state st Client) (peer_state s')"
      using side_kept_persistence(1) [of "?s\<lparr>conn_state := st\<rparr>" "req_http_version q" "req_headers q"] assms(1)
      by (simp add: accept_request_def Let_def peer_state_def idle_server_def)
         (auto simp: apply_persistence_def Let_def)
    moreover from own_event [OF st] have "state st Client = SendBody"
      by (auto simp: direct_contract.simps side_kept_SendBody)
    ultimately show ?thesis by (simp add: side_kept_SendBody)
  qed
  ultimately show thesis using that [OF acc] fields by simp
qed

section \<open>Switching protocols\<close>

lemma valid_upgrade_response_selects:
  "valid_upgrade_response v hs c \<Longrightarrow>
     \<exists>sel. upgrade_protocols hs = Some sel \<and> sel \<noteq> []
       \<and> (\<forall>p \<in> set sel. \<exists>offered \<in> set (upgrade_proposals c). protocol_matches offered p)"
  by (auto simp: valid_upgrade_response_def list_all_iff list_ex_iff split: option.splits)

lemma upgrade_event:
  assumes "process_event st r (SE_ProtocolSwitch Upgrade) = (Inr (), st')"
  shows "upgrade (proposals st) \<and> server st' = SwitchedProtocol"
proof -
  from assms have "r = Server" by (auto simp: process_event_Inr direct_contract.simps)
  with assms have "upgrade (proposals st)" and "st' = stabilize_pass (st\<lparr>server := SwitchedProtocol\<rparr>)"
    by (auto simp: process_event_Inr direct_contract.simps split: if_splits)
  then show ?thesis by (simp add: server_stabilize_pass)
qed

section \<open>Properties of exchanges\<close>

lemma request_received:
  assumes "valid_method (req_method q)" and "send_request q c = (Inr out, c')"
    and "idle_server s (out @ rest)" and "length out \<le> max_head_bytes (limits s)"
    and "parses_request hp q rest (max_header_count (limits s))"
  shows "\<exists>s' f. next_event hp s = (Inr (NE_Event (Ev_Request q)), s') \<and> unread s' = rest
    \<and> writer c' = Some f \<and> conn_reader s' = reader f \<and> peer_state s' = SendBody
    \<and> waiting_for_continue s' = waiting_for_continue c' \<and> request_kind s' = request_kind c'
    \<and> upgrade_proposals s' = upgrade_proposals c'"
proof -
  from assms(2) obtain f where q: "validate_request q = Inr ()"
    "framing (req_headers q) (req_http_version q) = Inr f" "out = serialize_request q"
    and c': "writer c' = Some f" "request_kind c' = Some (from_method (as_bytes (req_method q)))"
      "waiting_for_continue c' = expects_continue (req_http_version q) (req_headers q) f"
    by (rule send_request_Inr) simp
  from assms(3) q(1,2) obtain s' where acc: "accept_request q (s\<lparr>input := buffer_consume (input s) (length out), progress := None\<rparr>)
      = (Inr (NE_Event (Ev_Request q)), s')"
    and s': "unread s' = drop (length out) (out @ rest)" "conn_reader s' = reader f"
      "request_kind s' = Some (from_method (as_bytes (req_method q)))"
      "waiting_for_continue s' = expects_continue (req_http_version q) (req_headers q) f"
      "upgrade_proposals s' = proposed_upgrades (req_http_version q) (req_headers q)" "peer_state s' = SendBody"
    by (rule accept_written_request)
  have "next_event_inner hp s = read_head hp s"
    using assms(1,3) q(3)
    by (auto simp: next_event_inner.simps idle_server_def peer_state_return_def peer_state_def serialize_request_def
        Let_def valid_method_def)
  also have "\<dots> = (Inr (NE_Event (Ev_Request q)), s')"
    using assms(3,4) acc parse_written_request [OF assms(5,1), of "max_head_bytes (limits s)"] q(3)
    by (simp add: read_head_def section_ready_def idle_server_def)
  finally show ?thesis
    using s' c' sent_upgrades [OF assms(2)] by (auto simp: next_event_Inr)
qed

text \<open>C10. A request head that a client connection sends is reported by an idle server connection as the same
  request, with the bytes behind the head left unread, and both connections agree on the body's
  framing, on whether a 100 response is awaited, on the kind of request and on the protocols offered.\<close>

theorem request_reaches_the_server:
  assumes "valid_method (req_method q)" and "send_request q c = (Inr out, c')"
    and "idle_server s (out @ rest)" and "length out \<le> max_head_bytes (limits s)"
    and "parses_request hp q rest (max_header_count (limits s))"
  shows "\<exists>s' f. next_event hp s = (Inr (NE_Event (Ev_Request q)), s') \<and> unread s' = rest
    \<and> writer c' = Some f \<and> conn_reader s' = reader f \<and> peer_state s' = SendBody
    \<and> waiting_for_continue s' = waiting_for_continue c' \<and> request_kind s' = request_kind c'
    \<and> upgrade_proposals s' = upgrade_proposals c'"
  using assms by (rule request_received)

definition sample_client :: Connection where
  "sample_client = connection_new Client sample_limits"

lemma sample_sent: "fst (send_request sample_request sample_client) = Inr (serialize_request sample_request)"
  by code_simp

theorem request_reaches_the_server_witness:
  "\<exists>s'. next_event sample_httparse (snd (receive_data (serialize_request sample_request) (connection_new Server sample_limits)))
     = (Inr (NE_Event (Ev_Request sample_request)), s') \<and> unread s' = []"
proof -
  let ?s = "snd (receive_data (serialize_request sample_request) (connection_new Server sample_limits))"
  obtain c' where sent: "send_request sample_request sample_client = (Inr (serialize_request sample_request), c')"
    using sample_sent by (metis prod.collapse)
  have idle: "idle_server ?s (serialize_request sample_request @ [])"
    by (simp add: idle_server_def receive_data_def connection_new_def as_slice_extend state_new_def
        serialize_request_def Let_def)
  have len: "length (serialize_request sample_request) \<le> max_head_bytes (limits ?s)" by code_simp
  have "max_header_count (limits ?s) = 8" by code_simp
  moreover have "parses_request sample_httparse sample_request [] 8" by code_simp
  ultimately have parse: "parses_request sample_httparse sample_request [] (max_header_count (limits ?s))" by simp
  from request_reaches_the_server [OF sample_request_valid(1) sent idle len parse] show ?thesis by blast
qed

text \<open>C25. A 101 response, sent or received, switches only to protocols that match an offer of the request, only
  after a pending 100-continue is answered, and only if the request proposed an upgrade; the server
  side of the lifecycle is then switched.\<close>

theorem upgrade_selects_an_offer:
  assumes "as_u16 (resp_status q) = 101"
    and "(\<exists>out. send_informational_response q c = (Inr out, c')) \<or> (\<exists>ev. accept_response q c = (Inr ev, c'))"
  shows "(\<exists>sel. upgrade_protocols (resp_headers q) = Some sel \<and> sel \<noteq> []
      \<and> (\<forall>p \<in> set sel. \<exists>offered \<in> set (upgrade_proposals c). protocol_matches offered p))
    \<and> \<not> continue_before_upgrade c \<and> upgrade (proposals (conn_state c)) \<and> server (conn_state c') = SwitchedProtocol"
  using assms(2)
proof
  assume "\<exists>out. send_informational_response q c = (Inr out, c')"
  then obtain out where "send_informational_response q c = (Inr out, c')" ..
  then obtain d where ok: "\<not> continue_before_upgrade c"
    "valid_upgrade_response (resp_http_version q) (resp_headers q) c"
    and adv: "advance_local (SE_ProtocolSwitch Upgrade) c = (Inr (), d)" and c': "conn_state c' = conn_state d"
    by (rule send_informational_response_Inr) (use assms(1) in \<open>simp add: info_event_def\<close>)
  from adv obtain st where "process_event (conn_state c) (conn_role c) (SE_ProtocolSwitch Upgrade) = (Inr (), st)"
    "d = c\<lparr>conn_state := st\<rparr>"
    by (rule advance_local_Inr)
  with upgrade_event valid_upgrade_response_selects [OF ok(2)] ok(1) c' show ?thesis by auto
next
  assume "\<exists>ev. accept_response q c = (Inr ev, c')"
  then obtain ev where acc: "accept_response q c = (Inr ev, c')" ..
  have info: "is_informational (resp_status q)" using assms(1) by (simp add: is_informational_def)
  from acc assms(1) obtain d where ok: "\<not> continue_before_upgrade c"
    "valid_upgrade_response (resp_http_version q) (resp_headers q) c"
    and adv: "advance_peer (SE_ProtocolSwitch Upgrade) c = (Inr (), d)" and c': "c' = after_info q d"
    unfolding accept_response_info [OF info] by (auto simp: and_then_Inr info_event_def split: if_splits)
  from adv obtain st where "process_event (conn_state c) (peer (conn_role c)) (SE_ProtocolSwitch Upgrade) = (Inr (), st)"
    "d = c\<lparr>conn_state := st\<rparr>"
    by (rule advance_peer_Inr)
  with upgrade_event valid_upgrade_response_selects [OF ok(2)] ok(1) c' show ?thesis by (auto simp: after_info_def)
qed

definition upgrading_client :: Connection where
  "upgrading_client = sample_client
     \<lparr>conn_state := \<lparr>client = MightSwitchProtocol, server = SendResponse, keep_alive = True, proposals = from_flags False True\<rparr>,
      upgrade_proposals := [bytes ''websocket'']\<rparr>"

definition switching_response :: Response where
  "switching_response = \<lparr>resp_status = StatusCode 101, resp_reason = [],
     resp_headers = [(bytes ''Upgrade'', bytes ''WebSocket''), (bytes ''Connection'', bytes ''upgrade'')],
     resp_http_version = Http11\<rparr>"

theorem upgrade_selects_an_offer_witness:
  "server (conn_state (snd (accept_response switching_response upgrading_client))) = SwitchedProtocol"
proof -
  have "is_ok (fst (accept_response switching_response upgrading_client))" by code_simp
  then obtain ev c' where acc: "accept_response switching_response upgrading_client = (Inr ev, c')"
    by (metis (no_types) isl_def prod.collapse sum.exhaust_sel)
  have "as_u16 (resp_status switching_response) = 101" by (simp add: switching_response_def)
  from upgrade_selects_an_offer [OF this] acc show ?thesis by auto
qed

end
