(* ===== verification/Sample_Messages.thy ===== *)
theory Sample_Messages
  imports Sample_Parser Serialize
begin

text \<open>
  The concrete parser on heads that the crate writes: it reports their parts.  These facts show that
  the hypotheses about a parser that the exchange theorems use can hold, for any head.
\<close>

lemma sample_lines_unlines:
  assumes "\<forall>l \<in> set ls. line_ok l \<and> l \<noteq> []"
  shows "sample_lines (unlines (ls @ [[]])) = ls"
proof -
  have ok: "\<forall>l \<in> set (ls @ [[]]). line_ok l" using assms by auto
  have strip: "(if slice_last (l @ [CR]) = Some CR then butlast (l @ [CR]) else l @ [CR]) = l" for l by simp
  have "sample_lines (unlines (ls @ [[]])) = filter (\<lambda>l. l \<noteq> []) (ls @ [[], []])"
    unfolding sample_lines_def split_unlines [OF ok] by (simp add: o_def)
  also have "\<dots> = ls" using assms by (simp add: filter_id_conv)
  finally show ?thesis .
qed

lemma split_at_byte_first: "b \<notin> set xs \<Longrightarrow> split_at_byte (xs @ b # ys) b = Some (xs, ys)"
proof -
  assume "b \<notin> set xs"
  then have "position (\<lambda>x. x = b) (xs @ b # ys) = Some (length xs)" by (induction xs) auto
  then show ?thesis by (simp add: split_at_byte_def)
qed

lemma sample_field_line: "valid_name n \<Longrightarrow> valid_value v \<Longrightarrow> sample_field (field_line (n, v)) = Some (n, v)"
proof -
  assume n: "valid_name n" and v: "valid_value v"
  have "0x3a \<notin> set n"
  proof
    assume "0x3a \<in> set n"
    with n have "is_token_byte 0x3a" by (auto simp: valid_name_def list_all_iff)
    then show False by (simp add: is_token_byte_def)
  qed
  moreover have "field_line (n, v) = n @ 0x3a # SP # v" by (simp add: field_line_def bytes_def)
  ultimately show ?thesis
    using v by (simp add: sample_field_def split_at_byte_first trim_ows_Cons_ows valid_value_trim is_ows_def)
qed

lemma sample_fields_lines:
  assumes "\<forall>(n, v) \<in> set hs. valid_name n \<and> valid_value v" and "length hs \<le> slots"
  shows "sample_fields (map field_line hs) slots = Inr hs"
proof -
  have "map sample_field (map field_line hs) = map Some hs" using assms(1) by (auto simp: sample_field_line)
  moreover have "collect_options (map Some hs) = Some hs" by (induction hs) auto
  ultimately show ?thesis unfolding sample_fields_def using assms(2) by (simp del: map_map)
qed

lemma no_space_token: "list_all is_token_byte m \<Longrightarrow> \<forall>b \<in> set m. b \<noteq> SP"
  by (auto simp: list_all_iff is_token_byte_def)

lemma no_space_target: "valid_request_target t \<Longrightarrow> \<forall>b \<in> set t. b \<noteq> SP"
  by (auto simp: valid_request_target_def list_all_iff byte_class)

lemma sample_parses_request:
  assumes "valid_method (req_method q)" and "validate_request q = Inr ()" and "length (req_headers q) \<le> slots"
  shows "sample_parse_request (serialize_request q @ rest) slots =
    Inr (Some (length (serialize_request q),
      \<lparr>hp_req_version = Some (case req_http_version q of Http10 \<Rightarrow> 0 | Http11 \<Rightarrow> 1),
       hp_req_method = Some (as_bytes (req_method q)), hp_req_path = Some (req_target q),
       hp_req_headers = req_headers q\<rparr>))"
proof -
  note ok = request_lines_ok [OF assms(1,2)]
  have ends: "fst (poll progress_default (serialize_request q @ rest) True) = Some (length (serialize_request q))"
    using poll_unlines [OF ok, of rest True] by (simp add: serialize_request_unlines)
  have lines: "sample_lines (serialize_request q) = request_line q # map field_line (req_headers q)"
    using sample_lines_unlines [OF ok] by (simp add: serialize_request_unlines)
  let ?v = "bytes ''HTTP/'' @ version_wire (req_http_version q)"
  have "request_line q = as_bytes (req_method q) @ SP # req_target q @ SP # ?v"
    by (simp add: request_line_def bytes_def)
  moreover have "split_on (\<lambda>b. b = SP) (as_bytes (req_method q) @ SP # req_target q @ SP # ?v) =
      as_bytes (req_method q) # split_on (\<lambda>b. b = SP) (req_target q @ SP # ?v)"
    using assms(1) no_space_token by (intro split_on_append_sep) (auto simp: valid_method_def)
  moreover have "split_on (\<lambda>b. b = SP) (req_target q @ SP # ?v) = req_target q # split_on (\<lambda>b. b = SP) ?v"
    using assms(2) no_space_target by (intro split_on_append_sep) (auto simp: validate_request_Inr)
  moreover have "split_on (\<lambda>b. b = SP) ?v = [?v]"
    by (intro split_on_no_sep) (cases "req_http_version q"; simp add: bytes_def)
  ultimately have split: "split_on (\<lambda>b. b = SP) (request_line q) = [as_bytes (req_method q), req_target q, ?v]" by simp
  have vsn: "sample_version ?v = Some (case req_http_version q of Http10 \<Rightarrow> 0 | Http11 \<Rightarrow> 1)"
    by (cases "req_http_version q") (simp_all add: sample_version_def bytes_def)
  have fields: "sample_fields (map field_line (req_headers q)) slots = Inr (req_headers q)"
    using assms(2,3) by (intro sample_fields_lines) (simp_all add: validate_request_Inr)
  show ?thesis by (simp add: sample_parse_request_def ends lines split vsn fields)
qed

lemma sample_parses_response:
  assumes "valid_status s" and "validate_headers hs = Inr ()" and "validate_reason reason = Inr ()" and "length hs \<le> slots"
  shows "sample_parse_response (serialize_response v s reason hs @ rest) slots =
    Inr (Some (length (serialize_response v s reason hs),
      \<lparr>hp_resp_version = Some (case v of Http10 \<Rightarrow> 0 | Http11 \<Rightarrow> 1), hp_resp_code = Some (as_u16 s),
       hp_resp_headers = hs\<rparr>))"
proof -
  note ok = response_lines_ok [OF assms(1-3), of v]
  have ends: "fst (poll progress_default (serialize_response v s reason hs @ rest) True) = Some (length (serialize_response v s reason hs))"
    using poll_unlines [OF ok, of rest True] by (simp add: serialize_response_unlines)
  have lines: "sample_lines (serialize_response v s reason hs) = status_line v s reason # map field_line hs"
    using sample_lines_unlines [OF ok] by (simp add: serialize_response_unlines)
  have digits: "take 3 (drop 9 (status_line v s reason)) = status_digits s" "take 8 (status_line v s reason) = bytes ''HTTP/'' @ version_wire v"
    by (simp_all add: status_line_def status_digits_def bytes_def)
  have vsn: "sample_version (bytes ''HTTP/'' @ version_wire v) = Some (case v of Http10 \<Rightarrow> 0 | Http11 \<Rightarrow> 1)"
    by (cases v) (simp_all add: sample_version_def bytes_def)
  have fields: "sample_fields (map field_line hs) slots = Inr hs"
    using assms(2,4) by (intro sample_fields_lines) (simp_all add: validate_headers_Inr)
  show ?thesis
    by (simp add: sample_parse_response_def ends lines digits status_digits_read_back(1) [OF assms(1)] vsn fields)
qed

end
