(* ===== verification/Messages.thy ===== *)
theory Messages
  imports Exchange Input_View Sample_Messages
begin

text \<open>
  Whole messages between two connections: the conditions under which a head is sent at all, and
  what both sides hold after it, so that the head and the body that follows travel together.
\<close>

section \<open>Requests that are sent\<close>

definition sendable :: "Request \<Rightarrow> Framing \<Rightarrow> bool" where
  "sendable q f \<longleftrightarrow>
     validate_request q = Inr () \<and> framing (req_headers q) (req_http_version q) = Inr f
     \<and> \<not> (f = F_Fixed 0 \<and> has_token (req_headers q) (bytes ''expect'') (bytes ''100-continue''))
     \<and> (case upgrade_protocols (req_headers q) of
          None \<Rightarrow> False
        | Some ups \<Rightarrow> has_token (req_headers q) (bytes ''connection'') (bytes ''upgrade'') \<longleftrightarrow> ups \<noteq> [])"

definition idle_client :: "Connection \<Rightarrow> bool" where
  "idle_client c \<longleftrightarrow>
     conn_role c = Client \<and> client (conn_state c) = Idle \<and> server (conn_state c) = Idle
     \<and> legal_configuration (conn_state c)"

lemma sent_request_body:
  assumes "send_request q c = (Inr out, c')" and "framing (req_headers q) (req_http_version q) = Inr f"
    and "legal_configuration (conn_state c)"
  shows "sending_body c' f"
proof -
  from assms(1) obtain props d where adv: "advance_local (SE_Request props) c = (Inr (), d)"
    and c': "writer c' = Some f" "local_state c' = local_state (apply_persistence (req_http_version q) (req_headers q) d)"
    by (rule send_request_Inr) (use assms(2) in simp)
  from adv obtain t where "direct_contract (conn_role c) (local_state c) (SE_Request props) t" "side_kept t (local_state d)"
    by (rule advance_local_Inr) auto
  then have "local_state d = SendBody" by (auto simp: direct_contract.simps side_kept_SendBody)
  with side_kept_persistence(2) [of d "req_http_version q" "req_headers q"] c'(2) have "local_state c' = SendBody"
    by (simp add: side_kept_SendBody)
  moreover have "legal_configuration (conn_state c')"
    by (rule legal_refined [OF lifecycle.send_request_R [OF assms(1)] assms(3)])
  ultimately show ?thesis using c'(1) by (simp add: sending_body_def)
qed

lemma sendable_sent:
  assumes "sendable q f" and "idle_client c"
  obtains c' where "send_request q c = (Inr (serialize_request q), c')" and "sending_body c' f"
proof -
  obtain ups where ups: "upgrade_protocols (req_headers q) = Some ups"
    "has_token (req_headers q) (bytes ''connection'') (bytes ''upgrade'') \<longleftrightarrow> ups \<noteq> []"
    using assms(1) by (auto simp: sendable_def split: option.splits)
  define props where "props = from_flags (as_bytes (req_method q) = bytes ''CONNECT'') ((if req_http_version q = Http11 then ups else []) \<noteq> [])"
  obtain st where "process_event (conn_state c) Client (SE_Request props) = (Inr (), st)"
    using idle_request_accepted assms(2) by (fastforce simp: idle_client_def)
  then have "advance_local (SE_Request props) c = (Inr (), c\<lparr>conn_state := st\<rparr>)"
    using assms(2) by (simp add: advance_local_def idle_client_def)
  with assms ups have "\<exists>c'. send_request q c = (Inr (serialize_request q), c')"
    by (simp add: send_request_def Let_def sendable_def idle_client_def ok_or_def props_def)
  then obtain c' where sent: "send_request q c = (Inr (serialize_request q), c')" ..
  moreover have "sending_body c' f"
    using sent_request_body [OF sent] assms by (simp add: sendable_def idle_client_def)
  ultimately show thesis by (rule that)
qed

lemma new_client_idle: "idle_client (connection_new Client l)"
  by (simp add: idle_client_def connection_new_def state_new_def)
     (simp add: legal_state_new [unfolded state_new_def])

section \<open>Responses as they are read\<close>

definition response_parts :: "Response \<Rightarrow> hp_response" where
  "response_parts q =
     \<lparr>hp_resp_version = Some (case resp_http_version q of Http10 \<Rightarrow> 0 | Http11 \<Rightarrow> 1),
      hp_resp_code = Some (as_u16 (resp_status q)), hp_resp_headers = resp_headers q\<rparr>"

abbreviation written :: "Response \<Rightarrow> u8 list" where
  "written q \<equiv> serialize_response (resp_http_version q) (resp_status q) (resp_reason q) (resp_headers q)"

definition parses_response :: "'e httparse \<Rightarrow> Response \<Rightarrow> u8 list \<Rightarrow> usize \<Rightarrow> bool" where
  "parses_response hp q rest slots \<longleftrightarrow>
     hp_parse_response hp (written q @ rest) slots = Inr (Some (length (written q), response_parts q))"

lemma position_append:
  "\<forall>x \<in> set xs. \<not> p x \<Longrightarrow>
     position p (xs @ ys) = (case position p ys of None \<Rightarrow> None | Some i \<Rightarrow> Some (length xs + i))"
  by (induction xs) (auto split: option.split)

lemma first_line_written:
  assumes "line_ok l" and "l \<noteq> []"
  shows "first_nonempty_line (l @ CR # LF # d) = l"
proof -
  have "\<forall>x \<in> set l. x \<noteq> LF" using line_ok_no_break [OF assms(1)] by auto
  then have "position (\<lambda>b. b = LF) (l @ CR # LF # d) = Some (length l + 1)" by (simp add: position_append)
  with assms(2) show ?thesis
    by (simp add: first_nonempty_line_def nonempty_line_loop.simps nth_append Let_def)
qed

lemma copy_headers_valid: "validate_headers hs = Inr () \<Longrightarrow> copy_headers hs True = hs"
proof -
  assume "validate_headers hs = Inr ()"
  then have "\<forall>(name, value) \<in> set hs. list_all is_line_value_byte value"
    by (auto simp: validate_headers_Inr list_all_iff dest: valid_value_line)
  then show ?thesis
    by (auto simp: copy_headers_def normalize_obs_fold_eq unfold_value_line intro!: map_idI)
qed

lemma parse_written_response:
  assumes "parses_response hp q rest mh" and "valid_status (resp_status q)" and "validate_headers (resp_headers q) = Inr ()"
    and "validate_reason (resp_reason q) = Inr ()" and "length (written q) \<le> mb"
  shows "parse_response_head hp (written q @ rest) mb mh = Inr (Some (length (written q), q))"
proof -
  have "version (Some (case resp_http_version q of Http10 \<Rightarrow> 0 | Http11 \<Rightarrow> 1)) = Inr (resp_http_version q)"
    by (cases "resp_http_version q") (simp_all add: version_def)
  moreover have "status_from_u16 (as_u16 (resp_status q)) = Inr (resp_status q)"
    using assms(2) by (simp add: status_from_u16_Inr)
  moreover have "first_nonempty_line (written q) = status_line (resp_http_version q) (resp_status q) (resp_reason q)"
    using response_lines_ok [OF assms(2-4), of "resp_http_version q"] by (simp add: serialize_response_unlines first_line_written)
  moreover have "length (status_line (resp_http_version q) (resp_status q) (resp_reason q)) = 13 + length (resp_reason q)"
    "drop 13 (status_line (resp_http_version q) (resp_status q) (resp_reason q)) = resp_reason q"
    by (simp_all add: status_line_def status_digits_def bytes_def)
  ultimately show ?thesis
    using assms(1,5) copy_headers_valid [OF assms(3)]
    by (simp add: parse_response_head_def parses_response_def response_parts_def ok_or_def)
qed

text \<open>A client that waits for the final response to its request.\<close>

definition awaiting_response :: "Connection \<Rightarrow> u8 list \<Rightarrow> bool" where
  "awaiting_response c d \<longleftrightarrow>
     conn_role c = Client \<and> peer_state c = SendResponse \<and> conn_reader c = R_Head \<and> progress c = None \<and> unread c = d"

lemma same_kind:
  "request_kind c = request_kind s \<Longrightarrow> bodiless st c = bodiless st s \<and> switches_connect st c = switches_connect st s"
  by (simp add: bodiless_def switches_connect_def request_is_def)

lemma accept_written_response:
  assumes "awaiting_response c d" and "\<not> is_informational (resp_status q)" and "\<not> switches_connect (resp_status q) c"
    and "if bodiless (resp_status q) c then f = F_Fixed 0 else response_framing (resp_headers q) (resp_http_version q) = Inr f"
  obtains c' where "accept_response q (c\<lparr>input := buffer_consume (input c) n, progress := None\<rparr>) = (Inr (NE_Event (Ev_Response q)), c')"
    and "unread c' = drop n d" and "conn_reader c' = reader f" and "peer_state c' = SendBody"
proof -
  let ?c = "c\<lparr>input := buffer_consume (input c) n, progress := None\<rparr>"
  have same: "bodiless (resp_status q) ?c = bodiless (resp_status q) c" "switches_connect (resp_status q) ?c = switches_connect (resp_status q) c"
    using same_kind [of ?c c] by simp_all
  have "\<exists>st. process_event (conn_state c) Server SE_Response = (Inr (), st)"
    using assms(1) by (auto simp: awaiting_response_def peer_state_def process_event_Inr direct_contract.simps Let_def)
  then have "\<exists>e. advance_peer SE_Response ?c = (Inr (), e)"
    using assms(1) by (auto simp: advance_peer_def awaiting_response_def)
  then obtain e where adv: "advance_peer SE_Response ?c = (Inr (), e)" ..
  define c' where "c' = (if f = F_CloseDelimited
            then (after_response q e)\<lparr>conn_state := disable_keep_alive (conn_state (after_response q e))\<rparr>
            else after_response q e)\<lparr>conn_reader := reader f\<rparr>"
  have acc: "accept_response q ?c = (Inr (NE_Event (Ev_Response q)), c')"
    using assms(3,4) adv unfolding accept_response_final [OF assms(2)] same by (auto simp: c'_def)
  from adv obtain t where "direct_contract (peer (conn_role ?c)) (peer_state ?c) SE_Response t" "side_kept t (peer_state e)"
    by (rule advance_peer_Inr)
  then have "peer_state e = SendBody"
    using assms(1) by (auto simp: awaiting_response_def direct_contract.simps side_kept_SendBody)
  with after_response_kept [of e q] have "peer_state (after_response q e) = SendBody" by (simp add: side_kept_SendBody)
  moreover from this side_kept_peer_disable [of "after_response q e"]
  have "peer_state ((after_response q e)\<lparr>conn_state := disable_keep_alive (conn_state (after_response q e))\<rparr>) = SendBody"
    by (simp add: peer_state_def side_kept_SendBody)
  ultimately have "peer_state c' = SendBody" by (auto simp: c'_def)
  moreover have "unread c' = drop n d"
    using arg_cong [OF accept_response_input [where q = q and c = "c\<lparr>progress := None\<rparr>" and b = "buffer_consume (input c) n"],
        of "\<lambda>a. unread (snd a)"] acc assms(1)
    by (simp add: awaiting_response_def)
  moreover have "conn_reader c' = reader f" by (simp add: c'_def)
  ultimately show thesis using that [OF acc] by simp
qed

lemma response_received:
  assumes "valid_status (resp_status q)" and "send_response q s = (Inr out, s')"
    and "awaiting_response c (out @ rest)" and "request_kind c = request_kind s" and "\<not> switches_connect (resp_status q) s"
    and "length out \<le> max_head_bytes (limits c)"
    and "parses_response hp (q\<lparr>resp_headers := written_fields q s\<rparr>) rest (max_header_count (limits c))"
  shows "\<exists>c' f. next_event hp c = (Inr (NE_Event (Ev_Response (q\<lparr>resp_headers := written_fields q s\<rparr>))), c') \<and> unread c' = rest
    \<and> writer s' = Some f \<and> conn_reader c' = reader f \<and> peer_state c' = SendBody"
proof -
  let ?q = "q\<lparr>resp_headers := written_fields q s\<rparr>"
  from assms(2) obtain f where out: "out = written ?q" and hs: "validate_headers (resp_headers ?q) = Inr ()" and f: "writer s' = Some f"
      "if bodiless (resp_status ?q) s then f = F_Fixed 0 else response_framing (resp_headers ?q) (resp_http_version ?q) = Inr f"
    by (rule sent_response_fields) simp
  from assms(2) have q: "\<not> is_informational (resp_status ?q)" "validate_reason (resp_reason ?q) = Inr ()"
    by (rule send_response_Inr; simp)+
  have parse: "parse_response_head hp (out @ rest) (max_head_bytes (limits c)) (max_header_count (limits c)) = Inr (Some (length out, ?q))"
    using parse_written_response [OF assms(7) _ hs q(2), of "max_head_bytes (limits c)"] assms(1,6) out by simp
  have kind: "\<not> switches_connect (resp_status ?q) c"
    "if bodiless (resp_status ?q) c then f = F_Fixed 0 else response_framing (resp_headers ?q) (resp_http_version ?q) = Inr f"
    using same_kind [OF assms(4)] assms(5) f(2) by simp_all
  from assms(3) q(1) kind obtain c' where
    acc: "accept_response ?q (c\<lparr>input := buffer_consume (input c) (length out), progress := None\<rparr>) = (Inr (NE_Event (Ev_Response ?q)), c')"
    and c': "unread c' = drop (length out) (out @ rest)" "conn_reader c' = reader f" "peer_state c' = SendBody"
    by (rule accept_written_response)
  have "next_event_inner hp c = read_head hp c"
    using assms(3) by (auto simp: next_event_inner.simps awaiting_response_def peer_state_return_def)
  also have "\<dots> = (Inr (NE_Event (Ev_Response ?q)), c')"
    using assms(3) acc parse by (simp add: read_head_def section_ready_def awaiting_response_def)
  finally show ?thesis using c' f(1) by (auto simp: next_event_Inr)
qed


definition answering_server :: Connection where
  "answering_server = (connection_new Server sample_limits)
     \<lparr>conn_state := \<lparr>client = Done, server = SendResponse, keep_alive = True, proposals = NONE\<rparr>,
      peer_version := Some Http11, request_kind := Some RK_Other\<rparr>"

definition asking_client :: Connection where
  "asking_client = (connection_new Client sample_limits)
     \<lparr>conn_state := \<lparr>client = Done, server = SendResponse, keep_alive = True, proposals = NONE\<rparr>,
      request_kind := Some RK_Other\<rparr>"

definition ok_response :: Response where
  "ok_response = \<lparr>resp_status = StatusCode 200, resp_reason = bytes ''OK'',
     resp_headers = [(bytes ''Transfer-Encoding'', bytes ''chunked'')], resp_http_version = Http11\<rparr>"

lemma ok_response_sent:
  "fst (send_response ok_response answering_server) = Inr (written ok_response)" "written_fields ok_response answering_server = resp_headers ok_response"
  "valid_status (resp_status ok_response)" "validate_headers (resp_headers ok_response) = Inr ()"
  "validate_reason (resp_reason ok_response) = Inr ()" "length (written ok_response) \<le> 64"
  by code_simp+

lemma sample_response_parsed:
  assumes "valid_status (resp_status q)" and "validate_headers (resp_headers q) = Inr ()" and "validate_reason (resp_reason q) = Inr ()"
    and "length (resp_headers q) \<le> slots"
  shows "parses_response sample_httparse q rest slots"
  using sample_parses_response [OF assms] by (simp add: parses_response_def response_parts_def sample_httparse_def)

lemma sample_request_parsed:
  assumes "valid_method (req_method q)" and "validate_request q = Inr ()" and "length (req_headers q) \<le> slots"
  shows "parses_request sample_httparse q rest slots"
  using sample_parses_request [OF assms] by (simp add: parses_request_def request_parts_def sample_httparse_def)


section \<open>Bodies behind their heads\<close>

lemma sent_response_body:
  assumes "send_response q s = (Inr out, s')" and "\<not> switches_connect (resp_status q) s" and "legal_configuration (conn_state s)"
    and "writer s' = Some f"
  shows "sending_body s' f"
proof -
  from assms(1) obtain headers fc d where adv: "advance_local (decision_event (resp_status q) s) s = (Inr (), d)"
    and s': "local_state s' = local_state (apply_persistence (resp_http_version q) (response_headers_out fc q headers s) d)"
    by (rule send_response_Inr) simp
  from adv obtain t where "direct_contract (conn_role s) (local_state s) (decision_event (resp_status q) s) t" "side_kept t (local_state d)"
    by (rule advance_local_Inr) auto
  with assms(2) direct_contract_decision [OF this(1)] have "local_state d = SendBody" by (simp add: side_kept_SendBody)
  with side_kept_persistence(2) [of d "resp_http_version q" "response_headers_out fc q headers s"] s' have "local_state s' = SendBody"
    by (simp add: side_kept_SendBody)
  moreover have "legal_configuration (conn_state s')"
    by (rule legal_refined [OF lifecycle.send_response_R [OF assms(1)] assms(3)])
  ultimately show ?thesis using assms(4) by (simp add: sending_body_def)
qed

lemma reading_body:
  assumes "connection_inv c" and "peer_state c = SendBody" and "conn_reader c = reader f"
  shows "receiving_body c (reader f) (unread c)"
proof -
  have "receive_ok c" "legal_configuration (conn_state c)" using assms(1,2) by (simp_all add: connection_inv_def receive_inv_def)
  moreover have "reader f \<noteq> R_Chunked Ck_Trailers" by (cases f) simp_all
  ultimately show ?thesis using assms(2,3) progress_ok_body [of "progress c" "reader f" "unread c"]
    by (simp add: receiving_body_def receive_ok_def)
qed

lemma transmit_one:
  assumes "transmit [d] s = Inr w"
  obtains o1 s1 o2 s2 where "send_data d s = (Inr o1, s1)" and "end_of_message [] s1 = (Inr o2, s2)" and "w = o1 @ o2"
  using assms by (cases "end_of_message [] (snd (send_data d s))") (auto split: prod.splits sum.splits)

definition message_events :: "u8 list \<Rightarrow> bool \<Rightarrow> Event list" where
  "message_events body c =
     (if body = [] then [] else [Ev_Data \<lparr>data_bytes = body, chunk_start = c, chunk_end = c\<rparr>])
     @ [Ev_EndOfMessage \<lparr>eom_trailers = []\<rparr>]"

lemma message_pulled:
  assumes "parses_empty_section hp" and "sending_body s f" and "f = F_Chunked \<or> f = F_Fixed (length body)"
    and "length body < usize_limit" and "length (format_hex (length body)) \<le> max_head_bytes (limits c)" and "2 \<le> max_head_bytes (limits c)"
    and "transmit [body] s = Inr w" and "receiving_body c (reader f) w"
  shows "\<exists>c'. pull hp (length (message_events body (f = F_Chunked))) c =
    (map (\<lambda>e. Inr (NE_Event e)) (message_events body (f = F_Chunked)), c') \<and> conn_reader c' = R_Head \<and> unread c' = []"
  using assms(3)
proof
  assume f: "f = F_Chunked"
  define ds where "ds = (if body = [] then [] else [body])"
  have "w = concat (map chunk ds) @ bytes ''0'' @ CRLF @ CRLF @ []"
    using transmit_chunked [of s "[body]"] assms(2,7) f by (auto simp: ds_def chunk_def)
  with assms(8) f have "at_chunk c (concat (map chunk ds) @ bytes ''0'' @ CRLF @ CRLF @ [])" by (simp add: at_chunk_def)
  moreover have "\<forall>d \<in> set ds. d \<noteq> [] \<and> length d < usize_limit \<and> length (format_hex (length d)) \<le> max_head_bytes (limits c)"
    using assms(4,5) by (simp add: ds_def)
  ultimately obtain c' where "pull hp (length ds + 1) c = (map (\<lambda>d. data_event d True True) ds @ [end_event []], c')"
      "conn_reader c' = R_Head" "unread c' = []"
    using chunks_received [OF assms(1), of ds c "[]"] assms(6) by blast
  then show ?thesis by (cases "body = []") (simp_all add: ds_def message_events_def f)
next
  assume f: "f = F_Fixed (length body)"
  have w: "w = body" using transmit_fixed [of s "length body" "[body]"] assms(2,7) f by simp
  show ?thesis
  proof (cases "body = []")
    case True
    with assms(8) f w fixed_end [of c "[]" hp] show ?thesis by (auto simp: message_events_def)
  next
    case False
    from assms(8) f w have "receiving_body c (R_Fixed (length body)) body" by simp
    moreover from False have "length body \<noteq> 0" by simp
    ultimately obtain c1 where c1: "next_event hp c = (data_event (take (length body) body) False False, c1)"
      "receiving_body c1 (R_Fixed (length body - length body)) (drop (length body) body)"
      using False by (rule fixed_data)
    from c1(2) have "receiving_body c1 (R_Fixed 0) []" by simp
    from fixed_end [OF this, of hp] obtain c2 where "next_event hp c1 = (end_event [], c2)" "conn_reader c2 = R_Head" "unread c2 = []" by blast
    with c1(1) False show ?thesis by (simp add: message_events_def f)
  qed
qed

end
