(* ===== verification/Panic.thy ===== *)
theory Panic
  imports Prelude "HOL-Library.Monad_Syntax"
begin

text \<open>
  Code that may panic, as the fuzz targets and the unit tests of the source are written: a panic is the
  value \<open>None\<close>.
\<close>

definition unwrap :: "'e + 'a \<Rightarrow> 'a option" where
  "unwrap r = (case r of Inl _ \<Rightarrow> None | Inr x \<Rightarrow> Some x)"

text \<open>\<^verbatim>\<open>unwrap\<close> on the result of a method, with the object the method leaves behind.\<close>

definition unwrap_call :: "('e + 'a) \<times> 's \<Rightarrow> ('a \<times> 's) option" where
  "unwrap_call m = (case m of (Inl _, _) \<Rightarrow> None | (Inr x, s) \<Rightarrow> Some (x, s))"

definition assert :: "bool \<Rightarrow> unit option" where
  "assert b = (if b then Some () else None)"

text \<open>A \<^verbatim>\<open>for\<close> loop over the items of an array whose body may panic.\<close>

primrec for_each :: "('a \<Rightarrow> unit option) \<Rightarrow> 'a list \<Rightarrow> unit option" where
  "for_each body [] = Some ()"
| "for_each body (x # xs) = body x \<bind> (\<lambda>_. for_each body xs)"

lemma assert_Some [simp]: "assert b = Some u \<longleftrightarrow> b"
  by (simp add: assert_def)

lemma for_each_Some: "for_each body xs = Some () \<longleftrightarrow> (\<forall>x \<in> set xs. body x = Some ())"
  by (induction xs) (auto simp: bind_eq_Some_conv)

end
