(* ===== verification/Fuzz_Common.thy ===== *)
theory Fuzz_Common
  imports End_Of_Input Messages Panic
begin

text \<open>
  The harness shared by the fuzz targets (\<^verbatim>\<open>fuzz/fuzz_targets/common/mod.rs\<close>) and the target
  \<^verbatim>\<open>h11r_receive\<close>.  A panic is the value \<open>None\<close>, whether it comes from \<^verbatim>\<open>unwrap\<close>, from a failed assertion
  or from the exhausted event budget of \<^verbatim>\<open>poll\<close>, so that a target that never panics is a function that
  is never \<open>None\<close>.
\<close>

section \<open>Standard library\<close>

definition saturating_mul :: "usize \<Rightarrow> usize \<Rightarrow> usize" where
  "saturating_mul a b = min (a * b) (usize_limit - 1)"

definition saturating_add :: "usize \<Rightarrow> usize \<Rightarrow> usize" where
  "saturating_add a b = min (a + b) (usize_limit - 1)"

text \<open>\<^verbatim>\<open>slice.chunks(size)\<close> for a positive size.\<close>

function slice_chunks :: "'a list \<Rightarrow> usize \<Rightarrow> 'a list list" where
  "slice_chunks xs n = (if xs = [] \<or> n = 0 then [] else take n xs # slice_chunks (drop n xs) n)"
  by pat_completeness auto
termination by (relation "measure (\<lambda>(xs, n). length xs)") auto

declare slice_chunks.simps [simp del]

section \<open>Seeds and connections\<close>

definition MAX_EVENTS :: usize where
  "MAX_EVENTS = 32"

definition seed_wire :: "Role \<Rightarrow> u8 \<Rightarrow> u8 list" where
  "seed_wire role control =
     (if role = Client then
        (if and control 0x03 = 1 then
           bytes ''HTTP/1.1 200 OK'' @ CRLF @ bytes ''Content-Length: 4'' @ CRLF @ CRLF
         else if and control 0x03 = 2 then
           bytes ''HTTP/1.1 200 Connection Established'' @ CRLF @ CRLF
         else if and control 0x03 = 3 then
           bytes ''HTTP/1.1 101 Switching Protocols'' @ CRLF @ bytes ''Connection: upgrade'' @ CRLF
             @ bytes ''Upgrade: next-protocol'' @ CRLF @ CRLF
         else
           bytes ''HTTP/1.1 200 OK'' @ CRLF @ bytes ''Content-Length: 4'' @ CRLF @ CRLF @ bytes ''body'')
      else
        (if and control 0x03 = 1 then
           bytes ''POST / HTTP/1.1'' @ CRLF @ bytes ''Host: example.test'' @ CRLF
             @ bytes ''Content-Length: 4'' @ CRLF @ CRLF @ bytes ''body''
         else if and control 0x03 = 2 then
           bytes ''POST / HTTP/1.1'' @ CRLF @ bytes ''Host: example.test'' @ CRLF
             @ bytes ''Transfer-Encoding: chunked'' @ CRLF @ CRLF
             @ bytes ''4'' @ CRLF @ bytes ''body'' @ CRLF @ bytes ''0'' @ CRLF @ CRLF
         else if and control 0x03 = 3 then
           bytes ''POST / HTTP/1.1'' @ CRLF @ bytes ''Host: example.test'' @ CRLF
             @ bytes ''Transfer-Encoding: chunked'' @ CRLF @ bytes ''Content-Length: 4'' @ CRLF @ CRLF
             @ bytes ''body''
         else
           bytes ''GET / HTTP/1.1'' @ CRLF @ bytes ''Host: example.test'' @ CRLF @ CRLF))"

definition fuzz_header :: "u8 list \<Rightarrow> u8 list \<Rightarrow> Header" where
  "fuzz_header name value = (name, value)"

definition client_request :: "u8 \<Rightarrow> Request option" where
  "client_request control =
     (let (method, headers) =
            (if and control 0x03 = 1 then
               (bytes ''HEAD'', [fuzz_header (bytes ''Host'') (bytes ''example.test'')])
             else if and control 0x03 = 2 then
               (bytes ''CONNECT'', [fuzz_header (bytes ''Host'') (bytes ''example.test:443'')])
             else if and control 0x03 = 3 then
               (bytes ''GET'',
                [fuzz_header (bytes ''Host'') (bytes ''example.test''),
                 fuzz_header (bytes ''Connection'') (bytes ''upgrade''),
                 fuzz_header (bytes ''Upgrade'') (bytes ''next-protocol'')])
             else (bytes ''GET'', [fuzz_header (bytes ''Host'') (bytes ''example.test'')]))
      in do {
        m \<leftarrow> unwrap (method_from_bytes method);
        Some \<lparr>req_method = m,
              req_target = (if method = bytes ''CONNECT'' then bytes ''example.test:443'' else bytes ''/''),
              req_headers = headers, req_http_version = Http11\<rparr>
      })"

definition fuzz_connection :: "Role \<Rightarrow> u8 \<Rightarrow> Connection option" where
  "fuzz_connection role control = do {
     limits \<leftarrow> (if and control 0x80 = 0 then Some limits_default else unwrap (limits_new 512 8));
     let connection = connection_new role limits;
     if role = Client then do {
       request \<leftarrow> client_request control;
       (_, connection) \<leftarrow> unwrap_call (send_request request connection);
       if and control 0x03 = 3 then do {
         (_, connection) \<leftarrow> unwrap_call (end_of_message [] connection);
         Some connection
       } else Some connection
     } else Some connection
   }"

section \<open>Polling\<close>

datatype Terminal = T_Complete | T_Error "u16 option"

record Outcome =
  outcome_terminal :: Terminal
  outcome_events :: "Event list"
  outcome_body :: "u8 list"
  outcome_states :: "State \<times> State"
  outcome_trailing :: "u8 list"

text \<open>\<^verbatim>\<open>connection\<close>, \<^verbatim>\<open>events\<close> and \<^verbatim>\<open>body\<close> are mutable arguments; the result has what they become.\<close>

fun fuzz_poll :: "'e httparse \<Rightarrow> Connection \<Rightarrow> Event list \<Rightarrow> u8 list \<Rightarrow> usize
    \<Rightarrow> (Terminal \<times> Connection \<times> Event list \<times> u8 list) option" where
  "fuzz_poll hp connection events body 0 = None"
| "fuzz_poll hp connection events body (Suc budget) =
     (case next_event hp connection of
        (Inr (NE_Event (Ev_Data data)), connection) \<Rightarrow>
          fuzz_poll hp connection events (body @ data_bytes data) budget
      | (Inr (NE_Event event), connection) \<Rightarrow>
          (let closed = (event = Ev_ConnectionClosed);
               events = events @ [event]
           in if closed then Some (T_Complete, connection, events, body)
              else fuzz_poll hp connection events body budget)
      | (Inr NE_NeedData, connection) \<Rightarrow> Some (T_Complete, connection, events, body)
      | (Inr NE_Paused, connection) \<Rightarrow> Some (T_Complete, connection, events, body)
      | (Inl error, connection) \<Rightarrow>
          Some (T_Error (suggested_status_code error), connection, events, body))"

definition fuzz_finish :: "Connection \<Rightarrow> Event list \<Rightarrow> u8 list \<Rightarrow> Terminal \<Rightarrow> Outcome" where
  "fuzz_finish connection events body terminal =
     (let trailing = fst (trailing_data connection) in
      \<lparr>outcome_terminal = terminal, outcome_events = events, outcome_body = body,
       outcome_states = (local_state connection, peer_state connection), outcome_trailing = trailing\<rparr>)"

definition assert_message :: "Event list \<Rightarrow> u8 list \<Rightarrow> unit option" where
  "assert_message events expected_body = do {
     assert (case slice_first events of
               Some (Ev_Request _) \<Rightarrow> True | Some (Ev_Response _) \<Rightarrow> True | _ \<Rightarrow> False);
     assert (case slice_last events of Some (Ev_EndOfMessage _) \<Rightarrow> True | _ \<Rightarrow> False);
     let body = concat (List.map_filter
           (\<lambda>event. case event of Ev_Data data \<Rightarrow> Some (data_bytes data) | _ \<Rightarrow> None) events);
     assert (body = expected_body)
   }"

section \<open>The receive target\<close>

text \<open>The first lines of the targets \<^verbatim>\<open>h11r_receive\<close> and \<^verbatim>\<open>h11r_fragmentation\<close>: the role and the bytes.\<close>

definition fuzz_role :: "u8 \<Rightarrow> Role" where
  "fuzz_role control = (if and control 0x40 = 0 then Server else Client)"

definition fuzz_wire :: "u8 \<Rightarrow> u8 list \<Rightarrow> u8 list" where
  "fuzz_wire control wire = (if wire = [] then seed_wire (fuzz_role control) control else wire)"

definition fuzz_chunk_size :: "u8 \<Rightarrow> usize" where
  "fuzz_chunk_size control = unat (and control 0x1f) + 1"

definition fuzz_budget :: "u8 list \<Rightarrow> usize" where
  "fuzz_budget wire = saturating_add (saturating_mul (length wire) 2) MAX_EVENTS"

text \<open>The loop over the chunks; it stops early at an error.\<close>

fun receive_chunks :: "'e httparse \<Rightarrow> usize \<Rightarrow> u8 list list \<Rightarrow> Connection \<Rightarrow> Event list \<Rightarrow> u8 list \<Rightarrow> Terminal
    \<Rightarrow> (Terminal \<times> Connection \<times> Event list \<times> u8 list) option" where
  "receive_chunks hp budget [] connection events body terminal = Some (terminal, connection, events, body)"
| "receive_chunks hp budget (piece # pieces) connection events body terminal = do {
     (_, connection) \<leftarrow> unwrap_call (receive_data piece connection);
     (terminal, connection, events, body) \<leftarrow> fuzz_poll hp connection events body budget;
     (case terminal of
        T_Error _ \<Rightarrow> Some (terminal, connection, events, body)
      | T_Complete \<Rightarrow> receive_chunks hp budget pieces connection events body terminal)
   }"

definition h11r_receive :: "'e httparse \<Rightarrow> u8 list \<Rightarrow> unit option" where
  "h11r_receive hp fuzz_input =
     (case fuzz_input of
        [] \<Rightarrow> Some ()
      | control # wire \<Rightarrow> do {
          let role = fuzz_role control;
          let wire = fuzz_wire control wire;
          connection \<leftarrow> fuzz_connection role control;
          let chunk_size = fuzz_chunk_size control;
          let budget = fuzz_budget wire;
          (terminal, connection, events, body) \<leftarrow>
            receive_chunks hp budget (slice_chunks wire chunk_size) connection [] [] T_Complete;
          (case terminal of
             T_Error _ \<Rightarrow> Some ()
           | T_Complete \<Rightarrow> do {
               (_, connection) \<leftarrow> unwrap_call (receive_data [] connection);
               fuzz_poll hp connection events body budget;
               Some ()
             })
        })"

end
