(* ===== verification/Fuzz_Receive.thy ===== *)
theory Fuzz_Receive
  imports Fuzz_Common
begin

text \<open>
  Progress of receiving.  Every event a connection reports, other than the end of the connection,
  uses up input or ends a message, so that polling ends within a budget linear in the bytes that
  arrived.  The receive target therefore never panics, whatever bytes it is given.
\<close>

section \<open>Events use up input\<close>

definition potential :: "Connection \<Rightarrow> nat" where
  "potential c = 2 * length (unread c) + (if peer_state c = SendBody then 1 else 0)"

definition uses_up :: "Connection \<Rightarrow> NextEvent remote_result \<Rightarrow> bool" where
  "uses_up c a \<longleftrightarrow>
     (\<forall>e. fst a = Inr (NE_Event e) \<longrightarrow> e \<noteq> Ev_ConnectionClosed \<longrightarrow> potential (snd a) < potential c)"

lemma shorter_potential: "length (unread d) < length (unread c) \<Longrightarrow> potential d < potential c"
  by (simp add: potential_def)

lemma no_event_uses_up [simp]:
  "uses_up c (Inl x, d)" "uses_up c (Inr NE_NeedData, d)" "uses_up c (Inr NE_Paused, d)"
  "uses_up c (wait_for_section skip d)" "uses_up c (need_data_or_eof m d)"
  by (simp_all add: uses_up_def wait_for_section_def need_data_or_eof_def Let_def)

lemma return_uses_up: "peer_state_return c = Some a \<Longrightarrow> uses_up c a"
  by (auto simp: uses_up_def peer_state_return_def peer_closed_def fst_and_then_Inr split: State.State.splits if_splits)

lemma consumed_uses_up: "length (unread (snd a)) < length (unread c) \<Longrightarrow> uses_up c a"
  by (simp add: uses_up_def shorter_potential)

lemma commuting_keeps_input:
  assumes "\<And>b. f (c\<lparr>input := b\<rparr>) = apsnd (\<lambda>d. d\<lparr>input := b\<rparr>) (f c)"
  shows "input (snd (f c)) = input c"
  using arg_cong [OF assms [of "input c"], of "\<lambda>a. input (snd a)"] by simp

lemmas accepts_keep_input = input_moves [THEN commuting_keeps_input]

lemma section_uses_up:
  assumes "\<And>n q. parse (unread c) = Inr (Some (n, q)) \<Longrightarrow> 0 < n \<and> n \<le> length (unread c)"
    and "\<And>q d. input (snd (accept q d)) = input d"
  shows "uses_up c (read_section parse accept skip c)"
  using assms(1)
  by (auto simp: read_section_def assms(2) split: prod.split sum.split option.split intro!: consumed_uses_up)

lemma finish_uses_up:
  assumes "peer_state c = SendBody" and "length (unread d) \<le> length (unread c)" and "conn_state d = conn_state c"
    and "conn_role d = conn_role c"
  shows "uses_up c (finish_peer t d)"
proof (cases "finish_peer t d")
  case (Pair r d')
  have "potential d' < potential c" if event: "r = Inr (NE_Event e)" for e
  proof -
    from Pair event obtain d1 where adv: "advance_peer SE_EndOfMessage d = (Inr (), d1)" and d': "d' = d1\<lparr>conn_reader := R_Head\<rparr>"
      by (auto simp: finish_peer_def and_then_Inr)
    from adv obtain s where "direct_contract (peer (conn_role d)) (peer_state d) SE_EndOfMessage s" "side_kept s (peer_state d1)"
      by (rule advance_peer_Inr)
    then have "peer_state d' \<noteq> SendBody" using d' by (auto simp: side_kept_def direct_contract.simps)
    moreover have "unread d' = unread d"
      using commuting_keeps_input [of "finish_peer t" d] peer_events_input(2) Pair by (metis snd_conv)
    ultimately show ?thesis using assms(1,2) by (simp add: potential_def)
  qed
  with Pair show ?thesis by (auto simp: uses_up_def)
qed

lemma body_uses_up:
  assumes "peer_state c = SendBody"
  shows "uses_up c (read_fixed n c)" "uses_up c (read_close_delimited c)" "uses_up c (chunk_data n f c)"
proof -
  show "uses_up c (read_fixed n c)" "uses_up c (read_close_delimited c)" "uses_up c (chunk_data n f c)"
    unfolding read_fixed_def read_close_delimited_def chunk_data_def Let_def buffer_take_def
    using finish_uses_up [OF assms]
    by (auto simp: accepts_keep_input intro!: consumed_uses_up)
qed

lemma line_stop_uses_up: "line_step k c = Some (Inl a) \<Longrightarrow> uses_up c a"
  by (erule line_step_cases)
     (auto simp: chunk_size_step_def chunk_data_end_step_def chunk_line_too_long_def Let_def split: option.splits if_splits)

lemma inner_uses_up:
  assumes "httparse_ok hp" and "receive_ok c"
  shows "uses_up c (next_event_inner hp c)"
proof -
  let ?P = "\<lambda>c a. receive_ok c \<longrightarrow> uses_up c a"
  have body: "peer_state c = SendBody" if "peer_state_return c = None" "receive_ok c" "conn_reader c \<noteq> R_Head" for c
    using that by (auto simp: receive_ok_def reader_aligned_def peer_state_return_def)
  have "?P c (next_event_inner hp c)"
  proof (rule reading_induct [where P = ?P], goal_cases return head fixed close_delimited line_stops line_passed data trailers)
    case (head c)
    have "uses_up c (read_head hp c)"
      unfolding read_head_section
      using section_uses_up [where accept = accept_request, OF _ accepts_keep_input(1)]
        section_uses_up [where accept = accept_response, OF _ accepts_keep_input(2)]
        parse_request_head_Some [OF assms(1)] parse_response_head_Some [OF assms(1)]
      by simp
    then show ?case by simp
  next
    case (line_passed c k d)
    then show ?case
      using shorter_potential [OF line_step_shorter [OF line_passed(3)]] line_step_ok [OF line_passed(3)]
      by (fastforce simp: uses_up_def)
  next
    case (trailers c)
    from section_uses_up [where accept = finish_peer, OF _ accepts_keep_input(4)] parse_trailers_Some [OF assms(1)]
    show ?case by (simp add: read_trailers_section)
  qed (simp_all add: return_uses_up line_stop_uses_up body_uses_up body)
  with assms(2) show ?thesis by blast
qed

section \<open>The harness\<close>

lemma unwrap_call_simps [simp]: "unwrap_call (Inr x, s) = Some (x, s)" "unwrap_call (Inl e, s) = None"
  by (simp_all add: unwrap_call_def)

lemma unwrap_simps [simp]: "unwrap (Inr x) = Some x" "unwrap (Inl e) = None"
  by (simp_all add: unwrap_def)

lemma client_request_sendable: "\<exists>q. client_request control = Some q \<and> sendable q (F_Fixed 0)"
proof -
  have "sendable \<lparr>req_method = Method m, req_target = t, req_headers = hs, req_http_version = Http11\<rparr> (F_Fixed 0)"
    if "(m, t, hs) \<in> {
      (bytes ''HEAD'', bytes ''/'', [(bytes ''Host'', bytes ''example.test'')]),
      (bytes ''CONNECT'', bytes ''example.test:443'', [(bytes ''Host'', bytes ''example.test:443'')]),
      (bytes ''GET'', bytes ''/'', [(bytes ''Host'', bytes ''example.test''),
        (bytes ''Connection'', bytes ''upgrade''), (bytes ''Upgrade'', bytes ''next-protocol'')]),
      (bytes ''GET'', bytes ''/'', [(bytes ''Host'', bytes ''example.test'')])}" for m t hs
    using that by (elim insertE emptyE) (simp only: prod.inject, elim conjE, hypsubst_thin, code_simp)+
  moreover have "method_from_bytes (bytes ''HEAD'') = Inr (Method (bytes ''HEAD''))" by code_simp
  moreover have "method_from_bytes (bytes ''CONNECT'') = Inr (Method (bytes ''CONNECT''))" by code_simp
  moreover have "method_from_bytes (bytes ''GET'') = Inr (Method (bytes ''GET''))" by code_simp
  ultimately show ?thesis
    by (auto simp: client_request_def fuzz_header_def bytes_def)
qed

text \<open>Sending does not close the peer's side.\<close>

definition peer_unclosed :: "Connection \<Rightarrow> Connection \<Rightarrow> bool" where
  "peer_unclosed c c' \<longleftrightarrow> conn_role c' = conn_role c \<and> (peer_state c' = Closed \<longleftrightarrow> peer_state c = Closed)"

lemma other_event_Closed:
  assumes "process_event st r e = (Inr (), st')"
  shows "state st' (peer r) = Closed \<longleftrightarrow> state st (peer r) = Closed"
proof -
  from assms obtain t d where d: "joint_effect r e (state st r) st = Some d" and "st' = stabilize_pass (set_state r t d)"
    by (auto simp: process_event_Inr)
  with joint_effect_other_state [OF d] show ?thesis by (auto simp: stabilize_pass_Closed)
qed

lemma disable_Closed: "state (disable_keep_alive st) r = Closed \<longleftrightarrow> state st r = Closed"
  by (cases r) (simp_all add: disable_keep_alive_def stabilize_eq_pass
      stabilize_pass_Closed [of _ Client, simplified] stabilize_pass_Closed [of _ Server, simplified])

interpretation unclosing: local_evolution peer_unclosed
proof unfold_locales
  show "process_event (conn_state c) (conn_role c) e = (Inr (), st) \<Longrightarrow> peer_unclosed c (c\<lparr>conn_state := st\<rparr>)" for c e st
    by (simp add: peer_unclosed_def peer_state_def other_event_Closed)
qed (auto simp: peer_unclosed_def peer_state_def disable_Closed)

text \<open>The connections the harness starts from: nothing has arrived yet and the peer is there.\<close>

definition listening :: "Connection \<Rightarrow> bool" where
  "listening c \<longleftrightarrow> connection_inv c \<and> receive_ok c \<and> \<not> eof c \<and> peer_state c \<noteq> Closed"

lemma receive_ok_kept: "peer_side_kept c c' \<Longrightarrow> receive_ok c \<Longrightarrow> receive_ok c'"
  by (auto simp: peer_side_kept_def receive_ok_def reader_aligned_def side_kept_def split: if_splits)

lemma sent_listening:
  assumes "is_send op" and "listening c"
  shows "listening (api_call hp op c)" "input (api_call hp op c) = input c" "progress (api_call hp op c) = progress c"
    "conn_role (api_call hp op c) = conn_role c"
proof -
  have same: "api_call hp op c = api_call sample_httparse op c" using assms(1) by (cases op) simp_all
  note inv = connection_inv_call [OF sample_httparse_ok, of c op]
  show "listening (api_call hp op c)" "input (api_call hp op c) = input c" "progress (api_call hp op c) = progress c"
    "conn_role (api_call hp op c) = conn_role c"
    using assms(2) inv sending.send_call_R [OF assms(1), of c sample_httparse] unclosing.send_call_R [OF assms(1), of c sample_httparse]
    unfolding same by (auto simp: listening_def peer_side_kept_def peer_unclosed_def intro: receive_ok_kept)
qed

lemma new_listening: "listening (connection_new role l)"
  by (simp add: listening_def connection_inv_new) (simp add: connection_new_def peer_state_def receive_ok_def reader_aligned_def)

lemma fuzz_connection_listening:
  obtains c where "fuzz_connection role control = Some c" and "listening c" and "input c = buffer_default"
    and "conn_role c = role" and "progress c = None"
proof -
  have "\<exists>l. (if and control 0x80 = 0 then Some limits_default else unwrap (limits_new 512 8)) = Some l"
    by (simp add: limits_new_def)
  then obtain l where l: "(if and control 0x80 = 0 then Some limits_default else unwrap (limits_new 512 8)) = Some l" ..
  let ?new = "connection_new role l"
  have new: "input ?new = buffer_default" "conn_role ?new = role" "progress ?new = None" by (simp_all add: connection_new_def)
  show thesis
  proof (cases role)
    case Server
    with l have "fuzz_connection role control = Some ?new" by (simp add: fuzz_connection_def Let_def)
    with new_listening that new show thesis by blast
  next
    case Client
    obtain q where q: "client_request control = Some q" "sendable q (F_Fixed 0)"
      using client_request_sendable by blast
    obtain c where sent: "send_request q ?new = (Inr (serialize_request q), c)" and body: "sending_body c (F_Fixed 0)"
      using sendable_sent [OF q(2)] new_client_idle Client by metis
    obtain d where ended: "end_of_message [] c = (Inr [], d)"
      using end_of_message_framed [OF body, of "[]"]
      by (cases "end_of_message [] c") (auto simp: message_terminator_def)
    note c = sent_listening [of "A_SendRequest q", OF _ new_listening, of sample_httparse role l, simplified sent api_call.simps is_send.simps snd_conv]
    note d = sent_listening [of "A_EndOfMessage []", OF _ c(1), of sample_httparse, simplified ended api_call.simps is_send.simps snd_conv]
    let ?c = "if and control 3 = 3 then d else c"
    have "fuzz_connection role control = Some ?c"
      using l q(1) sent ended Client by (simp add: fuzz_connection_def Let_def)
    then show thesis using c d new by (intro that [of ?c]) simp_all
  qed
qed

section \<open>Polling returns\<close>

lemma next_event_uses_up:
  assumes "httparse_ok hp" and "receive_inv c"
  shows "uses_up c (next_event hp c)"
proof (cases "next_event hp c")
  case (Pair r c')
  show ?thesis
  proof (cases r)
    case (Inr e)
    with Pair have inner: "next_event_inner hp c = (Inr e, c')" by (simp add: next_event_Inr)
    then have "peer_state c \<noteq> Error" using Error_fails [of c hp] by auto
    with assms inner_uses_up [OF assms(1), of c] show ?thesis by (simp add: receive_inv_def Pair Inr inner)
  qed (simp add: Pair)
qed

lemma next_event_kept:
  assumes "httparse_ok hp" and "connection_inv c" and "next_event hp c = (r, c')"
  shows "connection_inv c' \<and> discards c c'"
  using connection_inv_call [OF assms(1,2), of A_NextEvent] discarding.next_event_R [OF assms(1,3)] assms(3) by simp

lemma poll_returns:
  assumes "httparse_ok hp"
  shows "connection_inv c \<Longrightarrow> potential c < budget \<Longrightarrow>
    \<exists>t c' es' b'. fuzz_poll hp c es b budget = Some (t, c', es', b') \<and> connection_inv c' \<and> discards c c'"
proof (induction budget arbitrary: c es b)
  case (Suc budget)
  obtain r d where step: "next_event hp c = (r, d)" by fastforce
  have inv: "receive_inv c" using Suc.prems(1) by (simp add: connection_inv_def)
  note kept = next_event_kept [OF assms Suc.prems(1) step]
  note used = next_event_uses_up [OF assms inv, unfolded step uses_up_def]
  have again: "\<exists>t c' es' b'. fuzz_poll hp d es b budget = Some (t, c', es', b') \<and> connection_inv c' \<and> discards c c'"
    if "r = Inr (NE_Event e)" and "e \<noteq> Ev_ConnectionClosed" for es b e
    using Suc.IH [of d es b] kept used that Suc.prems(2) by (fastforce intro: discards_trans)
  show ?case
  proof (cases r)
    case (Inr n)
    show ?thesis
    proof (cases n)
      case (NE_Event e)
      with Inr step kept again [of e] show ?thesis by (cases e) (simp_all add: Let_def)
    qed (use Inr step kept in simp_all)
  qed (use step kept in simp)
qed simp

definition within :: "usize \<Rightarrow> Connection \<Rightarrow> u8 list list \<Rightarrow> bool" where
  "within budget c pieces \<longleftrightarrow> 2 * (length (unread c) + length (concat pieces)) + 1 < budget"

lemma within_potential: "within budget c pieces \<Longrightarrow> potential c < budget"
  by (auto simp: within_def potential_def)

lemma head_goes_on: "peer_state c = Idle \<Longrightarrow> \<not> eof c \<Longrightarrow> conn_reader c = R_Head \<Longrightarrow> next_event_inner hp c = read_head hp c"
  by (simp add: next_event_inner.simps peer_state_return_def)

lemma receive_data_waiting:
  assumes "connection_inv c" and "\<not> eof c" and "d \<noteq> []"
  obtains c' where "receive_data d c = (Inr (), c')" and "connection_inv c'" and "\<not> eof c'" and "unread c' = unread c @ d"
proof -
  have "connection_inv (snd (receive_data d c))"
    using connection_inv_call [OF sample_httparse_ok assms(1), of "A_ReceiveData d"] by simp
  moreover have "buffer_wf (input c)" using assms(1) by (simp add: connection_inv_def)
  ultimately show thesis using that assms(2,3) by (simp add: receive_data_def as_slice_extend)
qed

lemma receive_chunks_return:
  assumes "httparse_ok hp"
  shows "connection_inv c \<Longrightarrow> \<not> eof c \<Longrightarrow> \<forall>p \<in> set pieces. p \<noteq> [] \<Longrightarrow> within budget c pieces \<Longrightarrow>
    \<exists>t c' es' b'. receive_chunks hp budget pieces c es b t0 = Some (t, c', es', b')
      \<and> connection_inv c' \<and> \<not> eof c' \<and> within budget c' []"
proof (induction pieces arbitrary: c es b t0)
  case (Cons p pieces)
  obtain d where d: "receive_data p c = (Inr (), d)" "connection_inv d" "\<not> eof d" "unread d = unread c @ p"
    using receive_data_waiting Cons.prems(1-3) by (metis list.set_intros(1))
  with Cons.prems(4) have w: "within budget d pieces" by (simp add: within_def)
  obtain t c' es' b' where poll: "fuzz_poll hp d es b budget = Some (t, c', es', b')" "connection_inv c'" "discards d c'"
    using poll_returns [OF assms d(2) within_potential [OF w]] by blast
  from poll(3) d(3) w have c': "\<not> eof c'" "within budget c' pieces" "within budget c' []"
    by (auto simp: discards_def within_def)
  from Cons.IH [OF poll(2) c'(1) _ c'(2)] Cons.prems(3) d(1) poll(1,2) c'(1,3) show ?case
    by (cases t) simp_all
qed (auto simp: within_def)

lemma slice_chunks_pieces: "0 < n \<Longrightarrow> (\<forall>p \<in> set (slice_chunks xs n). p \<noteq> []) \<and> concat (slice_chunks xs n) = xs"
proof (induction xs n rule: slice_chunks.induct)
  case (1 xs n)
  then show ?case by (subst (1 2) slice_chunks.simps) auto
qed

section \<open>The receive target\<close>

text \<open>C5. Arbitrary peer bytes, cut into arrivals of any of the sizes the target uses, neither make the
  connection panic nor loop: every poll ends within twice the number of bytes and a constant, and no
  call the harness unwraps fails.  A slice of a 64-bit target has fewer than half as many bytes as
  there are addresses, which is the hypothesis on the length.\<close>

theorem receive_never_panics:
  assumes "httparse_ok hp" and "2 * length fuzz_input < usize_limit"
  shows "h11r_receive hp fuzz_input = Some ()"
proof (cases fuzz_input)
  case (Cons control rest)
  define wire where "wire = fuzz_wire control rest"
  let ?pieces = "slice_chunks wire (fuzz_chunk_size control)" and ?budget = "fuzz_budget wire"
  obtain c where c: "fuzz_connection (fuzz_role control) control = Some c" "listening c" "input c = buffer_default"
    by (rule fuzz_connection_listening)
  have pieces: "\<forall>p \<in> set ?pieces. p \<noteq> []" "concat ?pieces = wire"
    using slice_chunks_pieces [of "fuzz_chunk_size control" wire] by (simp_all add: fuzz_chunk_size_def)
  have "length wire \<le> length rest \<or> length wire \<le> 200"
    by (auto simp: wire_def fuzz_wire_def seed_wire_def bytes_def)
  then have "2 * length wire + 1 < ?budget"
    using assms(2) Cons by (auto simp: fuzz_budget_def saturating_add_def saturating_mul_def MAX_EVENTS_def usize_limit_def)
  then have w: "within ?budget c ?pieces" using c(3) pieces(2) by (simp add: within_def)
  obtain t d es b where run: "receive_chunks hp ?budget ?pieces c [] [] T_Complete = Some (t, d, es, b)"
    "connection_inv d" "\<not> eof d" "within ?budget d []"
    using receive_chunks_return [OF assms(1) _ _ pieces(1) w] c(2) by (fastforce simp: listening_def)
  let ?d = "d\<lparr>eof := True\<rparr>"
  have "connection_inv ?d"
    using connection_inv_call [OF assms(1) run(2), of "A_ReceiveData []"] by (simp add: receive_data_def run(3))
  moreover have "potential ?d < ?budget" using within_potential [OF run(4)] by (simp add: potential_def)
  ultimately obtain r where "fuzz_poll hp ?d es b ?budget = Some r"
    using poll_returns [OF assms(1)] by blast
  with Cons c(1) run show ?thesis
    by (cases t) (simp_all add: h11r_receive_def Let_def wire_def receive_data_def)
qed (simp add: h11r_receive_def)

theorem receive_never_panics_witness: "h11r_receive sample_httparse [0xc3] = Some ()"
  using receive_never_panics [OF sample_httparse_ok, of "[0xc3]"] by (simp add: usize_limit_def)

end
