(* ===== verification/Fuzz_Send.thy ===== *)
theory Fuzz_Send
  imports Fuzz_Receive
begin

text \<open>
  The send target (\<^verbatim>\<open>fuzz/fuzz_targets/h11r_send.rs\<close>): a message that one role writes is read by the
  other role with the same body.  The target passes on every input for a head parser that reports
  the parts of the heads the target writes.
\<close>

section \<open>The target\<close>

text \<open>\<^verbatim>\<open>usize::to_string\<close>.\<close>

fun format_decimal :: "usize \<Rightarrow> u8 list" where
  "format_decimal n =
     (if n < 10 then [hex_digit n] else format_decimal (n div 10) @ [hex_digit (n mod 10)])"

declare format_decimal.simps [simp del]

definition fuzz_value :: "u8 list \<Rightarrow> u8 list" where
  "fuzz_value fuzz_input = map (\<lambda>byte. 0x21 + byte mod 94) (take 64 fuzz_input)"

definition fuzz_framing :: "bool \<Rightarrow> usize \<Rightarrow> Header" where
  "fuzz_framing chunked body_len =
     (if chunked then (bytes ''Transfer-Encoding'', bytes ''chunked'')
      else (bytes ''Content-Length'', format_decimal body_len))"

text \<open>The loop of \<^verbatim>\<open>decode\<close>.\<close>

fun decode_events :: "'e httparse \<Rightarrow> nat \<Rightarrow> Connection \<Rightarrow> Event list \<Rightarrow> Event list option" where
  "decode_events hp 0 connection events = Some events"
| "decode_events hp (Suc n) connection events = do {
     (next, connection) \<leftarrow> unwrap_call (next_event hp connection);
     (case next of
        NE_Event event \<Rightarrow>
          (let complete = (case event of Ev_EndOfMessage _ \<Rightarrow> True | _ \<Rightarrow> False);
               events = events @ [event]
           in if complete then Some events else decode_events hp n connection events)
      | NE_NeedData \<Rightarrow> Some events
      | NE_Paused \<Rightarrow> Some events)
   }"

definition decode :: "'e httparse \<Rightarrow> Connection \<Rightarrow> u8 list \<Rightarrow> u8 list \<Rightarrow> unit option" where
  "decode hp connection wire body = do {
     (_, connection) \<leftarrow> unwrap_call (receive_data wire connection);
     events \<leftarrow> decode_events hp MAX_EVENTS connection [];
     assert_message events body
   }"

definition round_trip_request :: "u8 \<Rightarrow> u8 list \<Rightarrow> usize \<Rightarrow> Request option" where
  "round_trip_request control value body_len = do {
     let chunked = (and control 1 \<noteq> 0);
     let headers = [fuzz_header (bytes ''Host'') (bytes ''example.test''), fuzz_framing chunked body_len];
     let headers = (if value \<noteq> [] then headers @ [fuzz_header (bytes ''X-Fuzz'') value] else headers);
     method \<leftarrow> unwrap (method_from_bytes (if and control 2 = 0 then bytes ''GET'' else bytes ''POST''));
     Some \<lparr>req_method = method,
           req_target = (if and control 4 = 0 then bytes ''/'' else bytes ''/items?q=1''),
           req_headers = headers, req_http_version = Http11\<rparr>
   }"

definition request_round_trip :: "'e httparse \<Rightarrow> u8 \<Rightarrow> u8 list \<Rightarrow> u8 list \<Rightarrow> unit option" where
  "request_round_trip hp control value body = do {
     request \<leftarrow> round_trip_request control value (length body);
     let sender = connection_new Client limits_default;
     (wire, sender) \<leftarrow> unwrap_call (send_request request sender);
     (out, sender) \<leftarrow> unwrap_call (send_data body sender);
     let wire = wire @ out;
     (out, sender) \<leftarrow> unwrap_call (end_of_message [] sender);
     let wire = wire @ out;
     decode hp (connection_new Server limits_default) wire body
   }"

definition plain_request :: "Request option" where
  "plain_request = do {
     method \<leftarrow> unwrap (method_from_bytes (bytes ''GET''));
     Some \<lparr>req_method = method, req_target = bytes ''/'',
           req_headers = [fuzz_header (bytes ''Host'') (bytes ''example.test'')], req_http_version = Http11\<rparr>
   }"

definition round_trip_response :: "u8 \<Rightarrow> u8 list \<Rightarrow> usize \<Rightarrow> Response option" where
  "round_trip_response control value body_len = do {
     let chunked = (and control 1 \<noteq> 0);
     let headers = [fuzz_framing chunked body_len];
     let headers = (if value \<noteq> [] then headers @ [fuzz_header (bytes ''X-Fuzz'') value] else headers);
     status \<leftarrow> unwrap (status_from_u16 200);
     Some \<lparr>resp_status = status, resp_reason = bytes ''OK'', resp_headers = headers, resp_http_version = Http11\<rparr>
   }"

definition response_round_trip :: "'e httparse \<Rightarrow> u8 \<Rightarrow> u8 list \<Rightarrow> u8 list \<Rightarrow> unit option" where
  "response_round_trip hp control value body = do {
     request \<leftarrow> plain_request;
     let receiver = connection_new Client limits_default;
     (request_wire, receiver) \<leftarrow> unwrap_call (send_request request receiver);
     (_, receiver) \<leftarrow> unwrap_call (end_of_message [] receiver);
     response \<leftarrow> round_trip_response control value (length body);
     let sender = connection_new Server limits_default;
     (_, sender) \<leftarrow> unwrap_call (receive_data request_wire sender);
     (event, sender) \<leftarrow> unwrap_call (next_event hp sender);
     assert (case event of NE_Event (Ev_Request _) \<Rightarrow> True | _ \<Rightarrow> False);
     (event, sender) \<leftarrow> unwrap_call (next_event hp sender);
     assert (case event of NE_Event (Ev_EndOfMessage _) \<Rightarrow> True | _ \<Rightarrow> False);
     (wire, sender) \<leftarrow> unwrap_call (send_response response sender);
     (out, sender) \<leftarrow> unwrap_call (send_data body sender);
     let wire = wire @ out;
     (out, sender) \<leftarrow> unwrap_call (end_of_message [] sender);
     let wire = wire @ out;
     decode hp receiver wire body
   }"

definition h11r_send :: "'e httparse \<Rightarrow> u8 list \<Rightarrow> unit option" where
  "h11r_send hp fuzz_input =
     (case fuzz_input of
        [] \<Rightarrow> Some ()
      | control # rest \<Rightarrow>
          (case rest of
             [] \<Rightarrow> Some ()
           | value_len # payload \<Rightarrow>
               (let split = min (length payload) (unat value_len mod 65);
                    value = fuzz_value (take split payload);
                    body = drop split payload
                in if and control 0x80 = 0 then request_round_trip hp control value body
                   else response_round_trip hp control value body)))"

section \<open>The heads of the target\<close>

lemma fuzz_value_graphic: "b \<in> set (fuzz_value x) \<Longrightarrow> 0x21 \<le> b \<and> b \<le> 0x7e"
proof -
  assume "b \<in> set (fuzz_value x)"
  then obtain y :: u8 where "b = 0x21 + y mod 94" by (auto simp: fuzz_value_def)
  moreover have "unat (y mod 94) < 94" by (simp add: unat_mod)
  ultimately show ?thesis by (simp add: word_le_nat_alt unat_word_ariths)
qed

lemma graphic_classes: "0x21 \<le> b \<and> b \<le> 0x7e \<Longrightarrow> is_field_vchar b \<and> is_line_value_byte b"
  by (auto simp: byte_class word_le_nat_alt)

lemma fuzz_value_valid: "valid_value (fuzz_value x)"
proof -
  have "\<forall>b \<in> set (fuzz_value x). is_field_vchar b \<and> is_line_value_byte b"
    using fuzz_value_graphic graphic_classes by blast
  then show ?thesis by (cases "fuzz_value x = []") (simp_all add: valid_value_iff list_all_iff)
qed

lemma decimal_digit:
  assumes "d < 10"
  shows "to_digit 10 (hex_digit d) = Some d" and "is_ascii_digit (hex_digit d)"
  using assms by (simp_all add: to_digit_def ascii_unat unat_hex_digit)

lemma format_decimal_digits: "list_all is_ascii_digit (format_decimal n)"
  and format_decimal_not_Nil: "format_decimal n \<noteq> []"
  by (induction n rule: format_decimal.induct)
     (subst format_decimal.simps; auto simp: decimal_digit)+

lemma format_decimal_value: "all_digits 10 (format_decimal n) \<and> number_value 10 0 (format_decimal n) = n"
proof (induction n rule: format_decimal.induct)
  case (1 n)
  show ?case
  proof (cases "n < 10")
    case True
    then show ?thesis by (subst (1 2) format_decimal.simps) (simp add: decimal_digit all_digits_def)
  next
    case False
    with 1 show ?thesis by (subst (1 2) format_decimal.simps) (simp add: decimal_digit all_digits_def)
  qed
qed

lemma parse_number_format_decimal: "n < usize_limit \<Longrightarrow> parse_number (format_decimal n) 10 = Some n"
  using format_decimal_value [of n] format_decimal_not_Nil by (simp add: parse_number_Some)

lemma digit_classes: "is_ascii_digit b \<Longrightarrow> is_field_vchar b \<and> is_line_value_byte b \<and> b \<noteq> 0x2c"
  by (auto simp: byte_class word_le_nat_alt)

lemma decimal_valid: "valid_value (format_decimal n)" and decimal_no_comma: "\<forall>b \<in> set (format_decimal n). b \<noteq> 0x2c"
  using format_decimal_digits [of n] format_decimal_not_Nil [of n] digit_classes
  by (auto simp: valid_value_iff list_all_iff)

lemma decimal_elements: "split_on (\<lambda>b. b = 0x2c) (format_decimal n) = [format_decimal n]"
  using decimal_no_comma by (rule split_on_no_sep)

definition fuzz_frame :: "bool \<Rightarrow> usize \<Rightarrow> Framing" where
  "fuzz_frame chunked n = (if chunked then F_Chunked else F_Fixed n)"

lemma field_names:
  "map (\<lambda>n. eq_ignore_ascii_case (bytes ''Host'') (bytes n)) [''host'', ''transfer-encoding'', ''content-length'', ''expect'', ''connection'', ''upgrade'']
     = [True, False, False, False, False, False]"
  "map (\<lambda>n. eq_ignore_ascii_case (bytes ''Transfer-Encoding'') (bytes n)) [''host'', ''transfer-encoding'', ''content-length'', ''expect'', ''connection'', ''upgrade'']
     = [False, True, False, False, False, False]"
  "map (\<lambda>n. eq_ignore_ascii_case (bytes ''Content-Length'') (bytes n)) [''host'', ''transfer-encoding'', ''content-length'', ''expect'', ''connection'', ''upgrade'']
     = [False, False, True, False, False, False]"
  "map (\<lambda>n. eq_ignore_ascii_case (bytes ''X-Fuzz'') (bytes n)) [''host'', ''transfer-encoding'', ''content-length'', ''expect'', ''connection'', ''upgrade'']
     = [False, False, False, False, False, False]"
  by code_simp+

lemmas fuzz_names = field_names [simplified list.map list.inject]

definition fuzz_tail :: "u8 list \<Rightarrow> Header list" where
  "fuzz_tail value = (if value = [] then [] else [(bytes ''X-Fuzz'', value)])"

definition fuzz_headers :: "bool \<Rightarrow> bool \<Rightarrow> usize \<Rightarrow> u8 list \<Rightarrow> Header list" where
  "fuzz_headers host chunked n value =
     (if host then [(bytes ''Host'', bytes ''example.test'')] else []) @ fuzz_framing chunked n # fuzz_tail value"

lemma fuzz_header_values:
  "header_values (fuzz_headers host chunked n value) (bytes ''host'') = (if host then [bytes ''example.test''] else [])"
  "header_values (fuzz_headers host chunked n value) (bytes ''transfer-encoding'') = (if chunked then [bytes ''chunked''] else [])"
  "header_values (fuzz_headers host chunked n value) (bytes ''content-length'') = (if chunked then [] else [format_decimal n])"
  "header_values (fuzz_headers host chunked n value) (bytes ''expect'') = []"
  "header_values (fuzz_headers host chunked n value) (bytes ''connection'') = []"
  "header_values (fuzz_headers host chunked n value) (bytes ''upgrade'') = []"
  by (simp_all add: header_values_def fuzz_headers_def fuzz_framing_def fuzz_tail_def fuzz_names)

lemma fuzz_headers_absent:
  "\<not> has_token (fuzz_headers host chunked n value) (bytes ''expect'') t"
  "\<not> has_token (fuzz_headers host chunked n value) (bytes ''connection'') t"
  "upgrade_protocols (fuzz_headers host chunked n value) = Some []"
  by (simp_all add: has_token_def list_elements_def fuzz_header_values upgrade_protocols_def count_header_def)

lemma chunked_elements: "split_on (\<lambda>b. b = 0x2c) (bytes ''chunked'') = [bytes ''chunked'']"
  by code_simp

lemma fuzz_headers_framing:
  assumes "n < usize_limit"
  shows "framing (fuzz_headers host chunked n value) Http11 = Inr (fuzz_frame chunked n)"
    and "framing_field_count (fuzz_headers host chunked n value) \<noteq> 0"
proof -
  have "trim_ows (format_decimal n) = format_decimal n" by (rule valid_value_trim [OF decimal_valid])
  then show "framing (fuzz_headers host chunked n value) Http11 = Inr (fuzz_frame chunked n)"
    using parse_number_format_decimal [OF assms] chunked_token
    by (simp add: framing_def list_elements_def fuzz_header_values decimal_elements chunked_elements fuzz_frame_def Let_def)
  show "framing_field_count (fuzz_headers host chunked n value) \<noteq> 0"
    by (simp add: framing_field_count_def count_header_def fuzz_header_values)
qed

lemma literal_fields:
  "valid_name (bytes ''Host'') \<and> valid_value (bytes ''example.test'')" "valid_name (bytes ''X-Fuzz'')"
  "valid_name (bytes ''Transfer-Encoding'') \<and> valid_value (bytes ''chunked'')" "valid_name (bytes ''Content-Length'')"
  "valid_authority (bytes ''example.test'')" "valid_request_target (bytes ''/'')" "valid_request_target (bytes ''/items?q=1'')"
  by code_simp+

lemma fuzz_headers_valid: "valid_value value \<Longrightarrow> validate_headers (fuzz_headers host chunked n value) = Inr ()"
  using literal_fields decimal_valid [of n]
  by (auto simp: validate_headers_Inr fuzz_headers_def fuzz_framing_def fuzz_tail_def)

lemma fuzz_method: "method_from_bytes (bytes ''GET'') = Inr (Method (bytes ''GET''))" "method_from_bytes (bytes ''POST'') = Inr (Method (bytes ''POST''))"
  by code_simp+

lemma round_trip_request_sendable:
  assumes "valid_value value" and "n < usize_limit"
  obtains q where "round_trip_request control value n = Some q" and "sendable q (fuzz_frame (and control 1 \<noteq> 0) n)"
    and "valid_method (req_method q)" and "req_headers q = fuzz_headers True (and control 1 \<noteq> 0) n value"
    and "length (as_bytes (req_method q)) \<le> 4" and "length (req_target q) \<le> 10"
proof -
  let ?q = "\<lparr>req_method = Method (if and control 2 = 0 then bytes ''GET'' else bytes ''POST''),
           req_target = (if and control 4 = 0 then bytes ''/'' else bytes ''/items?q=1''),
           req_headers = fuzz_headers True (and control 1 \<noteq> 0) n value, req_http_version = Http11\<rparr>"
  have "round_trip_request control value n = Some ?q"
    by (simp add: round_trip_request_def fuzz_method Let_def fuzz_headers_def fuzz_tail_def fuzz_header_def)
  moreover have "valid_method (req_method ?q)" using method_from_bytes_Inr fuzz_method by auto
  moreover have "validate_request ?q = Inr ()"
    using fuzz_headers_valid [OF assms(1), of True "and control 1 \<noteq> 0" n] literal_fields(5-7)
    by (simp add: validate_request_def valid_host_def fuzz_header_values)
  then have "sendable ?q (fuzz_frame (and control 1 \<noteq> 0) n)"
    using fuzz_headers_framing(1) [OF assms(2)] by (simp add: sendable_def fuzz_headers_absent)
  ultimately show thesis using that [of ?q] by (simp add: bytes_def)
qed

section \<open>Sizes\<close>

lemma format_decimal_length: "n < 10 ^ k \<Longrightarrow> 0 < k \<Longrightarrow> length (format_decimal n) \<le> k"
proof (induction n arbitrary: k rule: format_decimal.induct)
  case (1 n)
  show ?case
  proof (cases "n < 10")
    case True
    with "1.prems"(2) show ?thesis by (subst format_decimal.simps) simp
  next
    case False
    with "1.prems"(1) obtain j where j: "k = Suc j" "0 < j" by (cases k; cases "k - 1") auto
    with "1.prems"(1) have "n div 10 < 10 ^ j" by (simp add: less_mult_imp_div_less mult.commute)
    with "1.IH" [OF False] j False show ?thesis by (subst format_decimal.simps) simp
  qed
qed

lemma format_hex_length: "n < 16 ^ k \<Longrightarrow> 0 < k \<Longrightarrow> length (format_hex n) \<le> k"
proof (induction n arbitrary: k rule: format_hex.induct)
  case (1 n)
  show ?case
  proof (cases "n < 16")
    case True
    with "1.prems"(2) show ?thesis by (subst format_hex.simps) simp
  next
    case False
    with "1.prems"(1) obtain j where j: "k = Suc j" "0 < j" by (cases k; cases "k - 1") auto
    with "1.prems"(1) have "n div 16 < 16 ^ j" by (simp add: less_mult_imp_div_less mult.commute)
    with "1.IH" [OF False] j False show ?thesis by (subst format_hex.simps) simp
  qed
qed

lemma usize_digits:
  assumes "n < usize_limit"
  shows "length (format_decimal n) \<le> 20" and "length (format_hex n) \<le> 16"
  using assms format_decimal_length [of n 20] format_hex_length [of n 16] by (simp_all add: usize_limit_def)

lemma fuzz_headers_size:
  assumes "n < usize_limit" and "length value \<le> 64"
  shows "sum_list (map (\<lambda>h. length (field_line h) + 2) (fuzz_headers host chunked n value)) \<le> 200" and "length (fuzz_headers host chunked n value) \<le> 3"
  using assms(2) usize_digits(1) [OF assms(1)]
  by (auto simp: fuzz_headers_def fuzz_framing_def fuzz_tail_def field_line_def bytes_def)

section \<open>Decoding\<close>

lemma decode_pull:
  assumes "pull hp (length (message_events body ch)) c = (map (\<lambda>e. Inr (NE_Event e)) (message_events body ch), c')" and "2 \<le> n"
  shows "decode_events hp n c es = Some (es @ message_events body ch)"
  using assms
  by (cases n; cases "n - 1")
     (auto simp: message_events_def numeral_2_eq_2 split: if_splits prod.splits)

lemma message_asserted:
  assumes "(\<exists>q. e = Ev_Request q) \<or> (\<exists>q. e = Ev_Response q)"
  shows "assert_message (e # message_events body ch) body = Some ()"
  using assms by (auto simp: assert_message_def assert_def message_events_def map_filter_simps)

lemma decoded:
  assumes "receive_data wire c = (Inr (), d)" and "next_event hp d = (Inr (NE_Event e), c1)"
    and "(\<exists>q. e = Ev_Request q) \<or> (\<exists>q. e = Ev_Response q)"
    and "pull hp (length (message_events body ch)) c1 = (map (\<lambda>e. Inr (NE_Event e)) (message_events body ch), c2)"
  shows "decode hp c wire body = Some ()"
proof -
  have "decode_events hp MAX_EVENTS d [] = Some (e # message_events body ch)"
    using assms(2,3) decode_pull [OF assms(4), of 31 "[e]"] by (auto simp: MAX_EVENTS_def numeral_eq_Suc)
  with assms(1) message_asserted [OF assms(3)] show ?thesis by (simp add: decode_def)
qed

lemma body_transmitted:
  assumes "sending_body s (fuzz_frame chunked (length body))"
  obtains w where "transmit [body] s = Inr w"
  using assms transmit_chunked [of s "[body]"] transmit_fixed [of s "length body" "[body]"]
  by (auto simp: fuzz_frame_def split: if_splits)

lemma fuzz_frame_cases: "fuzz_frame chunked n = F_Chunked \<or> fuzz_frame chunked n = F_Fixed n"
  by (simp add: fuzz_frame_def)

lemma default_limits: "max_head_bytes limits_default = 65536" "max_header_count limits_default = 100"
  by (simp_all add: limits_default_def DEFAULT_MAX_HEAD_BYTES_def DEFAULT_MAX_HEADER_COUNT_def)

lemma received_once:
  assumes "connection_inv c" and "\<not> eof c" and "unread c = []" and "x \<noteq> []"
  obtains d where "receive_data x c = (Inr (), d)" and "connection_inv d" and "unread d = x" and "d = c\<lparr>input := buffer_extend (input c) x\<rparr>"
proof -
  obtain d where d: "receive_data x c = (Inr (), d)" "connection_inv d" "unread d = unread c @ x"
    using receive_data_waiting [OF assms(1,2,4)] by metis
  with assms(2,4) have "d = c\<lparr>input := buffer_extend (input c) x\<rparr>" by (simp add: receive_data_def)
  with d assms(3) that show thesis by simp
qed

lemma request_size:
  assumes "n < usize_limit" and "length value \<le> 64" and "req_headers q = fuzz_headers True chunked n value"
    and "length (as_bytes (req_method q)) \<le> 4" and "length (req_target q) \<le> 10"
  shows "length (serialize_request q) \<le> 65536"
proof -
  have "length (request_line q) \<le> 40" using assms(4,5) by (simp add: request_line_def bytes_def)
  with fuzz_headers_size(1) [OF assms(1,2), of True chunked] assms(3) show ?thesis
    by (simp add: serialize_request_unlines length_unlines o_def)
qed

lemma request_round_trip_passes:
  assumes "httparse_ok hp" and "parses_empty_section hp" and "valid_value value" and "length value \<le> 64" and "length body < usize_limit"
    and "\<And>q rest. round_trip_request control value (length body) = Some q \<Longrightarrow> parses_request hp q rest 100"
  shows "request_round_trip hp control value body = Some ()"
proof -
  let ?f = "fuzz_frame (and control 1 \<noteq> 0) (length body)"
  obtain q where q: "round_trip_request control value (length body) = Some q" "sendable q ?f" "valid_method (req_method q)"
    "req_headers q = fuzz_headers True (and control 1 \<noteq> 0) (length body) value"
    "length (as_bytes (req_method q)) \<le> 4" "length (req_target q) \<le> 10"
    using assms(3,5) by (rule round_trip_request_sendable)
  obtain s where s: "send_request q (connection_new Client limits_default) = (Inr (serialize_request q), s)" "sending_body s ?f"
    using q(2) new_client_idle by (rule sendable_sent)
  obtain w where w: "transmit [body] s = Inr w" using s(2) by (rule body_transmitted)
  obtain o1 s1 o2 s2 where sent: "send_data body s = (Inr o1, s1)" "end_of_message [] s1 = (Inr o2, s2)" "w = o1 @ o2"
    using w by (rule transmit_one)
  let ?wire = "serialize_request q @ w" and ?new = "connection_new Server limits_default"
  have "?wire \<noteq> []" by (simp add: serialize_request_unlines)
  then obtain d where d: "receive_data ?wire ?new = (Inr (), d)" "connection_inv d" "unread d = ?wire"
      "d = ?new\<lparr>input := buffer_extend (input ?new) ?wire\<rparr>"
    using received_once [of ?new ?wire] connection_inv_new by (auto simp: connection_new_def)
  have idle: "idle_server d ?wire" and lim: "limits d = limits_default"
    using d(3) unfolding d(4) by (simp_all add: idle_server_def connection_new_def state_new_def)
  have "length (serialize_request q) \<le> max_head_bytes (limits d)"
    using request_size [OF assms(5,4) q(4-6)] by (simp add: lim default_limits)
  moreover have "parses_request hp q w (max_header_count (limits d))"
    using assms(6) [OF q(1)] by (simp add: lim default_limits)
  ultimately obtain d1 f where d1: "next_event hp d = (Inr (NE_Event (Ev_Request q)), d1)" "unread d1 = w"
    "writer s = Some f" "conn_reader d1 = reader f" "peer_state d1 = SendBody"
    using request_received [OF q(3) s(1) idle] by blast
  have f: "f = ?f" using d1(3) s(2) by (simp add: sending_body_def)
  have "connection_inv d1" using next_event_kept [OF assms(1) d(2) d1(1)] ..
  from reading_body [OF this d1(5,4)] have reads: "receiving_body d1 (reader ?f) w" by (simp add: f d1(2))
  have "limits d1 = limits_default"
    using frame.next_event_R [OF assms(1) d1(1)] lim by (simp add: same_frame_def)
  then obtain c2 where "pull hp (length (message_events body (?f = F_Chunked))) d1 =
      (map (\<lambda>e. Inr (NE_Event e)) (message_events body (?f = F_Chunked)), c2)"
    using message_pulled [OF assms(2) s(2) fuzz_frame_cases assms(5) _ _ w reads] usize_digits(2) [OF assms(5)] default_limits by auto
  then have "decode hp ?new ?wire body = Some ()" using d(1) d1(1) by (intro decoded) auto
  with q(1) s(1) sent show ?thesis by (simp add: request_round_trip_def Let_def)
qed

section \<open>The exchange around the response\<close>

definition get_request :: Request where
  "get_request = \<lparr>req_method = Method (bytes ''GET''), req_target = bytes ''/'',
     req_headers = [(bytes ''Host'', bytes ''example.test'')], req_http_version = Http11\<rparr>"

lemma get_request_facts:
  "sendable get_request (F_Fixed 0)" "valid_method (req_method get_request)" "validate_request get_request = Inr ()"
  "framing (req_headers get_request) Http11 = Inr (F_Fixed 0)" "upgrade_protocols (req_headers get_request) = Some []"
  "proposed_upgrades Http11 (req_headers get_request) = []"
  "as_bytes (req_method get_request) \<noteq> bytes ''CONNECT''" "from_method (as_bytes (req_method get_request)) = RK_Other"
  "\<not> has_token (req_headers get_request) (bytes ''connection'') (bytes ''close'')"
  "\<not> has_token (req_headers get_request) (bytes ''expect'') (bytes ''100-continue'')"
  "valid_request_target (req_target get_request)" "valid_host Http11 (req_headers get_request)" "req_http_version get_request = Http11"
  by code_simp+

lemma get_request_size: "length (serialize_request get_request) \<le> 65536" "serialize_request get_request \<noteq> []"
  by (simp_all add: get_request_def serialize_request_unlines length_unlines request_line_def field_line_def bytes_def)

lemma plain_request_get: "plain_request = Some get_request"
  by (simp add: plain_request_def fuzz_method fuzz_header_def get_request_def)

abbreviation exchanging :: "State \<Rightarrow> State \<Rightarrow> ConnectionState" where
  "exchanging cl sv \<equiv> \<lparr>client = cl, server = sv, keep_alive = True, proposals = from_flags False False\<rparr>"

lemma exchange_steps:
  "process_event state_new Client (SE_Request (from_flags False False)) = (Inr (), exchanging SendBody SendResponse)"
  "process_event (exchanging SendBody SendResponse) Client SE_EndOfMessage = (Inr (), exchanging Done SendResponse)"
  "process_event (exchanging Done SendResponse) Server SE_Response = (Inr (), exchanging Done SendBody)"
  by code_simp+

text \<open>The client after its request, and the server after it has read it.\<close>

definition asked :: "Connection \<Rightarrow> Connection" where
  "asked c = c\<lparr>conn_state := exchanging Done SendResponse, request_kind := Some RK_Other, writer := None,
     waiting_for_continue := False, continue_before_upgrade := False, upgrade_proposals := []\<rparr>"

lemma client_asks:
  assumes "c = connection_new Client l"
  obtains c1 where "send_request get_request c = (Inr (serialize_request get_request), c1)" and "end_of_message [] c1 = (Inr [], asked c)"
proof -
  obtain c1 where sent: "send_request get_request c = (Inr (serialize_request get_request), c1)"
    using sendable_sent [OF get_request_facts(1) new_client_idle] assms by metis
  then have c1: "c1 = c\<lparr>conn_state := exchanging SendBody SendResponse, request_kind := Some RK_Other, writer := Some (F_Fixed 0),
      waiting_for_continue := False, continue_before_upgrade := False, upgrade_proposals := []\<rparr>"
    using assms get_request_facts exchange_steps(1)
    by (auto simp: send_request_def Let_def ok_or_def advance_local_def connection_new_def apply_persistence_def
        expects_continue_def split: if_splits)
  then have "end_of_message [] c1 = (Inr [], asked c)"
    using assms exchange_steps(2)
    by (simp add: end_of_message_def message_terminator_def advance_local_def connection_new_def asked_def)
  with sent show thesis by (rule that)
qed

definition answering :: "Connection \<Rightarrow> Connection" where
  "answering d = d\<lparr>conn_state := exchanging Done SendResponse, request_kind := Some RK_Other,
     waiting_for_continue := False, continue_before_upgrade := False, upgrade_proposals := [],
     peer_version := Some Http11, conn_reader := R_Head, progress := None,
     input := buffer_consume (input d) (length (serialize_request get_request))\<rparr>"

lemma server_reads:
  assumes "d = (connection_new Server limits_default)\<lparr>input := b\<rparr>" and "unread d = serialize_request get_request"
    and "parses_request hp get_request [] 100"
  obtains d1 where "next_event hp d = (Inr (NE_Event (Ev_Request get_request)), d1)"
    and "next_event hp d1 = (Inr (NE_Event (Ev_EndOfMessage \<lparr>eom_trailers = []\<rparr>)), answering d)"
proof -
  let ?n = "length (serialize_request get_request)"
  let ?d1 = "(answering d)\<lparr>conn_state := exchanging SendBody SendResponse, conn_reader := R_Fixed 0\<rparr>"
  have "parse_request_head hp (serialize_request get_request @ []) (max_head_bytes limits_default) (max_header_count limits_default)
      = Inr (Some (?n, get_request))"
    using parse_written_request [OF assms(3) get_request_facts(2)] get_request_size(1) by (simp add: default_limits)
  moreover have "accept_request get_request (d\<lparr>progress := None, input := buffer_consume (input d) ?n\<rparr>) = (Inr (NE_Event (Ev_Request get_request)), ?d1)"
    using get_request_facts exchange_steps(1)
    by (simp add: assms(1) accept_request_def Let_def advance_peer_def connection_new_def apply_persistence_def expects_continue_def answering_def)
  ultimately have "next_event_inner hp d = (Inr (NE_Event (Ev_Request get_request)), ?d1)"
    using assms(1,2) by (simp add: head_goes_on read_head_search search_def connection_new_def peer_state_def state_new_def)
  then have "next_event hp d = (Inr (NE_Event (Ev_Request get_request)), ?d1)" by (simp add: next_event_Inr)
  moreover have "next_event_inner hp ?d1 = (Inr (NE_Event (Ev_EndOfMessage \<lparr>eom_trailers = []\<rparr>)), answering d)"
    using exchange_steps(2)
    by (simp add: assms(1) next_event_inner.simps peer_state_return_def peer_state_def answering_def connection_new_def read_fixed_def
        finish_peer_def advance_peer_def)
  then have "next_event hp ?d1 = (Inr (NE_Event (Ev_EndOfMessage \<lparr>eom_trailers = []\<rparr>)), answering d)" by (simp add: next_event_Inr)
  ultimately show thesis by (rule that)
qed

lemma round_trip_response_fields:
  "round_trip_response control value n =
     Some \<lparr>resp_status = StatusCode 200, resp_reason = bytes ''OK'',
           resp_headers = fuzz_headers False (and control 1 \<noteq> 0) n value, resp_http_version = Http11\<rparr>"
  by (simp add: round_trip_response_def status_from_u16_def Let_def fuzz_headers_def fuzz_tail_def fuzz_header_def)

lemma server_answers:
  assumes "s = answering ((connection_new Server limits_default)\<lparr>input := b\<rparr>)" and "valid_value value" and "n < usize_limit"
    and "round_trip_response control value n = Some q"
  obtains s' where "send_response q s = (Inr (written q), s')" and "sending_body s' (fuzz_frame (and control 1 \<noteq> 0) n)"
    and "written_fields q s = resp_headers q"
proof -
  let ?f = "fuzz_frame (and control 1 \<noteq> 0) n"
  have q: "resp_status q = StatusCode 200" "resp_reason q = bytes ''OK''" "resp_http_version q = Http11"
    "resp_headers q = fuzz_headers False (and control 1 \<noteq> 0) n value"
    using assms(4) by (auto simp: round_trip_response_fields)
  have reason: "validate_reason (bytes ''OK'') = Inr ()" by code_simp
  have s: "conn_role s = Server" "conn_state s = exchanging Done SendResponse" "peer_version s = Some Http11" "request_kind s = Some RK_Other"
    by (simp_all add: assms(1) answering_def connection_new_def)
  have kinds: "\<not> bodiless (resp_status q) s" "\<not> switches_connect (resp_status q) s" "\<not> is_informational (resp_status q)"
    using s(4) by (simp_all add: q(1) bodiless_def switches_connect_def request_is_def is_informational_def)
  have kept: "drop_unusable_framing Http11 (resp_headers q) s = resp_headers q" by (simp add: drop_unusable_framing_def s(3))
  have sel: "select_response_framing False Http11 (resp_headers q) s = Inr (?f, resp_headers q, False)"
    using fuzz_headers_framing [OF assms(3)] by (simp add: select_response_framing_def q(4))
  have same: "response_headers_out False q (resp_headers q) s = resp_headers q"
    using s by (simp add: response_headers_out_def q(3,4) fuzz_headers_absent)
  have fields: "written_fields q s = resp_headers q" by (simp add: written_fields_def kinds(1) q(3) kept sel same)
  have adv: "advance_local SE_Response s = (Inr (), s\<lparr>conn_state := exchanging Done SendBody\<rparr>)"
    using exchange_steps(3) s by (simp add: advance_local_def)
  have "\<exists>s'. send_response q s = (Inr (written q), s') \<and> writer s' = Some ?f"
    using s(1) kinds kept sel same adv fuzz_headers_valid [OF assms(2)] reason s
    unfolding send_response_def Let_def switches_connect_def [symmetric] bodiless_def [symmetric] response_headers_out_def [symmetric] q
    by (simp add: q fuzz_headers_absent)
  then obtain s' where "send_response q s = (Inr (written q), s')" "writer s' = Some ?f" by blast
  moreover have "legal_configuration (conn_state s)" by (simp add: s(2)) code_simp
  ultimately show thesis using that fields sent_response_body [OF _ kinds(2)] by blast
qed

lemma response_size:
  assumes "n < usize_limit" and "length value \<le> 64" and "round_trip_response control value n = Some q"
  shows "length (written q) \<le> 65536"
proof -
  have q: "q = \<lparr>resp_status = StatusCode 200, resp_reason = bytes ''OK'',
      resp_headers = fuzz_headers False (and control 1 \<noteq> 0) n value, resp_http_version = Http11\<rparr>"
    using assms(3) by (simp add: round_trip_response_fields)
  have "length (status_line Http11 (StatusCode 200) (bytes ''OK'')) \<le> 40" by (simp add: status_line_def status_digits_def bytes_def)
  with fuzz_headers_size(1) [OF assms(1,2), of False "and control 1 \<noteq> 0"] show ?thesis
    by (simp add: q serialize_response_unlines length_unlines o_def)
qed

lemma response_decoded:
  assumes "httparse_ok hp" and "parses_empty_section hp" and "length value \<le> 64" and "length body < usize_limit"
    and q: "round_trip_response control value (length body) = Some q" and parsed: "\<And>rest. parses_response hp q rest 100"
    and asked: "connection_inv (asked (connection_new Client limits_default))"
    and s: "send_response q (answering d) = (Inr (written q), s)" "sending_body s (fuzz_frame (and control 1 \<noteq> 0) (length body))"
      "written_fields q (answering d) = resp_headers q" and w: "transmit [body] s = Inr w"
  shows "decode hp (asked (connection_new Client limits_default)) (written q @ w) body = Some ()"
proof -
  let ?f = "fuzz_frame (and control 1 \<noteq> 0) (length body)" and ?wire = "written q @ w"
    and ?asked = "asked (connection_new Client limits_default)"
  have "\<not> eof ?asked" "unread ?asked = []" "?wire \<noteq> []"
    by (simp_all add: asked_def connection_new_def serialize_response_unlines)
  with asked obtain e where e: "receive_data ?wire ?asked = (Inr (), e)" "connection_inv e" "unread e = ?wire"
      "e = ?asked\<lparr>input := buffer_extend (input ?asked) ?wire\<rparr>"
    using received_once [of ?asked ?wire] by blast
  have lim: "limits e = limits_default" and kind: "request_kind e = request_kind (answering d)" and waits: "awaiting_response e ?wire"
    using e(3) unfolding e(4) by (simp_all add: asked_def answering_def connection_new_def awaiting_response_def peer_state_def)
  have same: "q\<lparr>resp_headers := written_fields q (answering d)\<rparr> = q" by (simp add: s(3))
  have "valid_status (resp_status q)" "\<not> switches_connect (resp_status q) (answering d)"
    using q by (auto simp: round_trip_response_fields valid_status_def switches_connect_def request_is_def answering_def)
  moreover have "length (written q) \<le> max_head_bytes (limits e)" using response_size [OF assms(4,3) q] by (simp add: lim default_limits)
  moreover have "parses_response hp q w (max_header_count (limits e))" using parsed by (simp add: lim default_limits)
  ultimately obtain e1 f where e1: "next_event hp e = (Inr (NE_Event (Ev_Response q)), e1)" "unread e1 = w"
    "writer s = Some f" "conn_reader e1 = reader f" "peer_state e1 = SendBody"
    using response_received [OF _ s(1) waits kind, of hp] unfolding same by blast
  have f: "f = ?f" using e1(3) s(2) by (simp add: sending_body_def)
  have "connection_inv e1" using next_event_kept [OF assms(1) e(2) e1(1)] ..
  from reading_body [OF this e1(5,4)] have reads: "receiving_body e1 (reader ?f) w" by (simp add: f e1(2))
  have "limits e1 = limits_default"
    using frame.next_event_R [OF assms(1) e1(1)] lim by (simp add: same_frame_def)
  then obtain c2 where "pull hp (length (message_events body (?f = F_Chunked))) e1 =
      (map (\<lambda>e. Inr (NE_Event e)) (message_events body (?f = F_Chunked)), c2)"
    using message_pulled [OF assms(2) s(2) fuzz_frame_cases assms(4) _ _ w reads] usize_digits(2) [OF assms(4)] default_limits by auto
  then show ?thesis using e(1) e1(1) by (intro decoded) auto
qed

lemma response_round_trip_passes:
  assumes "httparse_ok hp" and "parses_empty_section hp" and "valid_value value" and "length value \<le> 64" and "length body < usize_limit"
    and "parses_request hp get_request [] 100"
    and "\<And>q rest. round_trip_response control value (length body) = Some q \<Longrightarrow> parses_response hp q rest 100"
  shows "response_round_trip hp control value body = Some ()"
proof -
  let ?f = "fuzz_frame (and control 1 \<noteq> 0) (length body)" and ?client = "connection_new Client limits_default"
    and ?server = "connection_new Server limits_default"
  obtain c1 where asks: "send_request get_request ?client = (Inr (serialize_request get_request), c1)" "end_of_message [] c1 = (Inr [], asked ?client)"
    using refl by (rule client_asks)
  obtain q where q: "round_trip_response control value (length body) = Some q" by (simp add: round_trip_response_fields)
  obtain d where d: "receive_data (serialize_request get_request) ?server = (Inr (), d)" "connection_inv d" "unread d = serialize_request get_request"
      "d = ?server\<lparr>input := buffer_extend (input ?server) (serialize_request get_request)\<rparr>"
    using received_once [of ?server "serialize_request get_request"] connection_inv_new get_request_size(2) by (auto simp: connection_new_def)
  obtain d1 where reads: "next_event hp d = (Inr (NE_Event (Ev_Request get_request)), d1)"
    "next_event hp d1 = (Inr (NE_Event (Ev_EndOfMessage \<lparr>eom_trailers = []\<rparr>)), answering d)"
    using d(4,3) assms(6) by (rule server_reads)
  obtain s where s: "send_response q (answering d) = (Inr (written q), s)" "sending_body s ?f" "written_fields q (answering d) = resp_headers q"
    using arg_cong [OF d(4), of answering] assms(3,5) q by (rule server_answers)
  obtain w where w: "transmit [body] s = Inr w" using s(2) by (rule body_transmitted)
  obtain o1 s1 o2 s2 where sent: "send_data body s = (Inr o1, s1)" "end_of_message [] s1 = (Inr o2, s2)" "w = o1 @ o2"
    using w by (rule transmit_one)
  have "connection_inv c1" using connection_inv_call [OF assms(1) connection_inv_new, of "A_SendRequest get_request" Client limits_default] asks(1) by simp
  then have "connection_inv (asked ?client)" using connection_inv_call [OF assms(1), of c1 "A_EndOfMessage []"] asks(2) by simp
  with assms(1,2,4,5) q assms(7) [OF q] have "decode hp (asked ?client) (written q @ w) body = Some ()"
    using s w by (rule response_decoded)
  with asks q d(1) reads s(1) sent show ?thesis
    unfolding response_round_trip_def plain_request_get by (simp add: Let_def assert_def)
qed

section \<open>Properties\<close>

text \<open>What the target relies on: the parser reports the parts of the heads it writes.\<close>

definition parses_fuzz_heads :: "'e httparse \<Rightarrow> u8 \<Rightarrow> u8 list \<Rightarrow> usize \<Rightarrow> bool" where
  "parses_fuzz_heads hp control value n \<longleftrightarrow>
     parses_empty_section hp \<and> parses_request hp get_request [] 100
     \<and> (\<forall>q rest. round_trip_request control value n = Some q \<longrightarrow> parses_request hp q rest 100)
     \<and> (\<forall>q rest. round_trip_response control value n = Some q \<longrightarrow> parses_response hp q rest 100)"

text \<open>C7. Messages that one role writes are accepted by the other role with the same body: the send target
  never panics, whatever the input, for a head parser that reports the parts of the heads the target writes and
  the end of an empty trailer section.\<close>

theorem sent_messages_are_received:
  assumes "httparse_ok hp" and "length payload < usize_limit"
    and "\<forall>n. n \<le> length payload \<longrightarrow> parses_fuzz_heads hp control (fuzz_value (take n payload)) (length payload - n)"
  shows "h11r_send hp (control # value_len # payload) = Some ()"
proof -
  define split where "split = min (length payload) (unat value_len mod 65)"
  let ?field = "fuzz_value (take split payload)" and ?body = "drop split payload"
  have "split \<le> length payload" by (simp add: split_def)
  with assms(3) have hp: "parses_fuzz_heads hp control ?field (length ?body)" by simp
  have size: "length ?field \<le> 64" "length ?body < usize_limit" using assms(2) by (simp_all add: fuzz_value_def)
  have "request_round_trip hp control ?field ?body = Some ()" "response_round_trip hp control ?field ?body = Some ()"
    using hp unfolding parses_fuzz_heads_def
    by (auto intro!: request_round_trip_passes response_round_trip_passes assms(1) size fuzz_value_valid)
  then show ?thesis by (simp add: h11r_send_def Let_def flip: split_def)
qed

lemma sample_parses_fuzz_heads:
  assumes "valid_value value" and "n < usize_limit" and "length value \<le> 64"
  shows "parses_fuzz_heads sample_httparse control value n"
proof -
  have "parses_request sample_httparse q rest 100" if "round_trip_request control value n = Some q" for q rest
  proof -
    obtain p where "round_trip_request control value n = Some p" "sendable p (fuzz_frame (and control 1 \<noteq> 0) n)" "valid_method (req_method p)"
      "req_headers p = fuzz_headers True (and control 1 \<noteq> 0) n value"
      using assms(1,2) by (rule round_trip_request_sendable)
    with that fuzz_headers_size(2) [OF assms(2,3), of True "and control 1 \<noteq> 0"] show ?thesis
      by (intro sample_request_parsed) (auto simp: sendable_def)
  qed
  moreover have "parses_response sample_httparse q rest 100" if "round_trip_response control value n = Some q" for q rest
  proof -
    have "validate_reason (bytes ''OK'') = Inr ()" by code_simp
    with that fuzz_headers_size(2) [OF assms(2,3), of False "and control 1 \<noteq> 0"] fuzz_headers_valid [OF assms(1)] show ?thesis
      by (intro sample_response_parsed) (auto simp: round_trip_response_fields valid_status_def)
  qed
  moreover have "parses_request sample_httparse get_request [] 100"
    using get_request_facts(2,3) by (rule sample_request_parsed) (simp add: get_request_def)
  ultimately show ?thesis by (simp add: parses_fuzz_heads_def sample_parses_empty_section)
qed

theorem sent_messages_are_received_witness: "h11r_send sample_httparse (0x81 # 1 # bytes ''?body'') = Some ()"
proof -
  have "parses_fuzz_heads sample_httparse 0x81 (fuzz_value (take n (bytes ''?body''))) (length (bytes ''?body'') - n)" for n
    by (rule sample_parses_fuzz_heads [OF fuzz_value_valid]) (simp_all add: fuzz_value_def bytes_def usize_limit_def)
  then show ?thesis
    by (intro sent_messages_are_received sample_httparse_ok) (simp_all add: bytes_def usize_limit_def)
qed

end
