(* ===== verification/Reports.thy ===== *)
theory Reports
  imports Receiving Reading
begin

text \<open>
  What \<^verbatim>\<open>next_event\<close> reports, proved once for every property of interest.  The locale fixes a property of
  the result of a call and the connection the call started from, and asks for it at the few places
  where a result is made: errors, pauses and the close event, a data event, the end of a message, and
  the acceptance of a parsed head.  Inside, the property is shown for every result of \<^verbatim>\<open>next_event\<close>.
  \<open>event_ok\<close> is interpreted as the kind of value a connection reports, \<open>body_effect\<close> as what the body
  events do to the lifecycle.
\<close>

definition same_situation :: "Connection \<Rightarrow> Connection \<Rightarrow> bool" where
  "same_situation c d \<longleftrightarrow>
     conn_state d = conn_state c \<and> conn_role d = conn_role c \<and> limits d = limits c
     \<and> request_kind d = request_kind c \<and> peer_version d = peer_version c \<and> writer d = writer c
     \<and> upgrade_proposals d = upgrade_proposals c \<and> waiting_for_continue d = waiting_for_continue c
     \<and> continue_before_upgrade d = continue_before_upgrade c"

lemma same_situation_upd [simp]:
  "same_situation c (d\<lparr>input := b\<rparr>) = same_situation c d" "same_situation c (d\<lparr>progress := p\<rparr>) = same_situation c d"
  "same_situation c (d\<lparr>conn_reader := r\<rparr>) = same_situation c d" "same_situation c c"
  by (simp_all add: same_situation_def)

lemma section_ready_situation: "section_ready skip c = (b, d) \<Longrightarrow> same_situation c d"
  unfolding same_situation_def by (auto simp: section_ready_def split: if_splits option.splits prod.splits)

section \<open>The interface\<close>

locale report =
  fixes P :: "Connection \<Rightarrow> NextEvent remote_result \<Rightarrow> bool"
  assumes quiet: "P c (Inl e, d)" "P c (Inr NE_NeedData, d)" "P c (Inr NE_Paused, d)"
      "P c (Inr (NE_Event Ev_ConnectionClosed), d)"
    and situated: "same_situation c d \<Longrightarrow> P d r \<Longrightarrow> P c r"
    and data: "bs \<noteq> [] \<Longrightarrow> P c (peer_data bs starts ends c)"
    and finish: "length t \<le> max_header_count (limits c) \<Longrightarrow> P c (finish_peer t c)"
    and request: "conn_role c = Server \<Longrightarrow> valid_method (req_method q) \<Longrightarrow>
      length (req_headers q) \<le> max_header_count (limits c) \<Longrightarrow> P c (accept_request q c)"
    and response: "conn_role c = Client \<Longrightarrow> valid_status (resp_status p) \<Longrightarrow>
      length (resp_headers p) \<le> max_header_count (limits c) \<Longrightarrow> P c (accept_response p c)"
begin

lemma closing: "P c (peer_closed d)"
  by (auto simp: peer_closed_def and_then_def quiet split: prod.split sum.split)

lemma waiting: "P c (need_data_or_eof m d)" "P c (wait_for_section skip d)"
  by (simp_all add: need_data_or_eof_def wait_for_section_def Let_def quiet)

lemma head_read:
  assumes "httparse_ok hp"
  shows "P c (read_head hp c)"
proof -
  obtain ready d where sr: "section_ready True c = (ready, d)" by fastforce
  from section_ready_situation [OF sr] have same: "same_situation c d" .
  then have req: "P c (accept_request q (d\<lparr>input := b, progress := None\<rparr>))"
    if "conn_role c = Server" "valid_method (req_method q)" "length (req_headers q) \<le> max_header_count (limits d)" for q b
    using that by (intro situated [OF _ request]) (simp_all add: same_situation_def)
  have resp: "P c (accept_response q (d\<lparr>input := b, progress := None\<rparr>))"
    if "conn_role c = Client" "valid_status (resp_status q)" "length (resp_headers q) \<le> max_header_count (limits d)" for q b
    using that same by (intro situated [OF _ response]) (simp_all add: same_situation_def)
  show ?thesis
    using parse_request_head_Some [OF assms] parse_response_head_Some [OF assms] same
    by (cases "conn_role c")
       (auto simp: read_head_def sr Let_def quiet waiting intro!: req resp split: sum.split option.split)
qed

lemma trailers_read:
  assumes "httparse_ok hp"
  shows "P c (read_trailers hp c)"
proof -
  obtain ready d where sr: "section_ready False c = (ready, d)" by fastforce
  from section_ready_situation [OF sr] show ?thesis
    using parse_trailers_Some [OF assms]
    by (auto simp: read_trailers_def sr quiet waiting intro!: situated [OF _ finish] split: sum.split option.split)
qed

lemma body_read: "P c (chunk_data n f c)" "P c (read_fixed n c)" "P c (read_close_delimited c)"
  by (auto simp: chunk_data_def read_fixed_def read_close_delimited_def Let_def buffer_take_def quiet waiting finish min_def
      intro!: situated [OF _ data] split: prod.split)

lemma chunk_step_ends:
  "chunk_size_step n c = Inl r \<Longrightarrow> P d r" "chunk_data_end_step c = Inl r \<Longrightarrow> P d r"
  "chunk_size_step n c = Inr c' \<Longrightarrow> same_situation c c'" "chunk_data_end_step c = Inr c' \<Longrightarrow> same_situation c c'"
  by (auto simp: chunk_size_step_def chunk_data_end_step_def chunk_line_too_long_def Let_def quiet waiting
      split: option.splits if_splits)

lemma state_return: "peer_state_return c = Some r \<Longrightarrow> P d r"
  by (auto simp: peer_state_return_def quiet closing split: State.State.splits if_splits)

lemma line_step_ends:
  "line_step k c = Some (Inl r) \<Longrightarrow> P d r" "line_step k c = Some (Inr c') \<Longrightarrow> same_situation c c'"
  by (erule line_step_cases; simp add: chunk_step_ends)+

lemma inner: "httparse_ok hp \<Longrightarrow> P c (next_event_inner hp c)"
  using state_return body_read head_read trailers_read line_step_ends(1) situated [OF line_step_ends(2)]
  by (intro reading_induct [where P = P]) simp_all

lemma reported:
  assumes "httparse_ok hp" and "next_event hp c = (Inr e, c')"
  shows "P c (Inr e, c')"
  using inner [OF assms(1), of c] assms(2) by (simp add: next_event_Inr)

end

section \<open>The kind of value that is reported\<close>

fun event_ok :: "Role \<Rightarrow> Limits \<Rightarrow> Event \<Rightarrow> bool" where
  "event_ok role lims (Ev_Request q) \<longleftrightarrow>
     role = Server \<and> valid_method (req_method q) \<and> length (req_headers q) \<le> max_header_count lims"
| "event_ok role lims (Ev_InformationalResponse q) \<longleftrightarrow>
     role = Client \<and> valid_status (resp_status q) \<and> is_informational (resp_status q)
     \<and> length (resp_headers q) \<le> max_header_count lims"
| "event_ok role lims (Ev_Response q) \<longleftrightarrow>
     role = Client \<and> valid_status (resp_status q) \<and> \<not> is_informational (resp_status q)
     \<and> length (resp_headers q) \<le> max_header_count lims"
| "event_ok role lims (Ev_Data d) \<longleftrightarrow> data_bytes d \<noteq> []"
| "event_ok role lims (Ev_EndOfMessage m) \<longleftrightarrow> length (eom_trailers m) \<le> max_header_count lims"
| "event_ok role lims Ev_ConnectionClosed = True"

definition result_ok :: "Connection \<Rightarrow> NextEvent remote_result \<Rightarrow> bool" where
  "result_ok c r \<longleftrightarrow> (\<forall>e. fst r = Inr (NE_Event e) \<longrightarrow> event_ok (conn_role c) (limits c) e)"

lemma accept_request_result:
  "fst (accept_request q c) = Inr (NE_Event e) \<Longrightarrow> e = Ev_Request q"
  using accept_request_Inr [of q c] by (metis NextEvent.inject prod.collapse)

lemma accept_response_result:
  "fst (accept_response q c) = Inr (NE_Event e) \<Longrightarrow>
     e = (if is_informational (resp_status q) then Ev_InformationalResponse q else Ev_Response q)"
proof (cases "is_informational (resp_status q)")
  case True
  then show "fst (accept_response q c) = Inr (NE_Event e) \<Longrightarrow> ?thesis"
    by (auto simp: accept_response_info fst_and_then_Inr split: if_splits)
next
  case False
  then show "fst (accept_response q c) = Inr (NE_Event e) \<Longrightarrow> ?thesis"
    using accept_response_finalE [of q c] by (metis NextEvent.inject prod.collapse)
qed

interpretation kind: report result_ok
  by unfold_locales
     (auto simp: result_ok_def same_situation_def peer_data_def finish_peer_def fst_and_then_Inr
       dest!: accept_request_result accept_response_result)

lemma reported_event_ok:
  assumes "httparse_ok hp" and "next_event hp c = (Inr (NE_Event e), c')"
  shows "event_ok (conn_role c) (limits c) e"
  using kind.reported [OF assms] by (simp add: result_ok_def)

section \<open>What body events do to the lifecycle\<close>

text \<open>A data event is an accepted lifecycle event, and the end of a message moves the joint state by exactly
  the lifecycle event of that name; neither touches what is known of the request, of the peer's version
  and of the local message.  Data ends the wait for a 100 response; the end of the message does not.\<close>

definition accepted_as :: "StateEvent \<Rightarrow> Connection \<Rightarrow> Connection \<Rightarrow> bool" where
  "accepted_as e c c' \<longleftrightarrow>
     process_event (conn_state c) (peer (conn_role c)) e = (Inr (), conn_state c')
     \<and> request_kind c' = request_kind c \<and> peer_version c' = peer_version c"

definition notes_kept :: "Connection \<Rightarrow> Connection \<Rightarrow> bool" where
  "notes_kept c c' \<longleftrightarrow>
     writer c' = writer c \<and> upgrade_proposals c' = upgrade_proposals c
     \<and> continue_before_upgrade c' = continue_before_upgrade c"

definition body_effect :: "Connection \<Rightarrow> NextEvent remote_result \<Rightarrow> bool" where
  "body_effect c r \<longleftrightarrow>
     (\<forall>d. fst r = Inr (NE_Event (Ev_Data d)) \<longrightarrow>
        accepted_as SE_Data c (snd r) \<and> notes_kept c (snd r) \<and> \<not> waiting_for_continue (snd r))
     \<and> (\<forall>m. fst r = Inr (NE_Event (Ev_EndOfMessage m)) \<longrightarrow>
        accepted_as SE_EndOfMessage c (snd r) \<and> notes_kept c (snd r)
        \<and> waiting_for_continue (snd r) = waiting_for_continue c)"

lemma body_events_effect: "body_effect c (peer_data bs s e c)" "body_effect c (finish_peer t c)"
  by (auto simp: body_effect_def notes_kept_def accepted_as_def peer_data_def finish_peer_def and_then_def advance_peer_def split: prod.splits sum.splits)

lemma other_effects:
  "body_effect c (Inl e, d)" "body_effect c (Inr NE_NeedData, d)" "body_effect c (Inr NE_Paused, d)"
  "body_effect c (Inr (NE_Event Ev_ConnectionClosed), d)" "body_effect c (accept_request q d)" "body_effect c (accept_response p d)"
  by (auto simp: body_effect_def dest!: accept_request_result accept_response_result split: if_splits)

interpretation effect: report body_effect
  by unfold_locales (simp_all add: other_effects body_events_effect, simp add: body_effect_def notes_kept_def accepted_as_def same_situation_def)

lemma data_effect:
  assumes "httparse_ok hp" and "next_event hp c = (Inr (NE_Event (Ev_Data d)), c')"
  shows "accepted_as SE_Data c c'" and "notes_kept c c'" and "\<not> waiting_for_continue c'"
  using effect.reported [OF assms] by (simp_all add: body_effect_def)

lemma end_effect:
  assumes "httparse_ok hp" and "next_event hp c = (Inr (NE_Event (Ev_EndOfMessage m)), c')"
  shows "accepted_as SE_EndOfMessage c c'" and "notes_kept c c'" and "waiting_for_continue c' = waiting_for_continue c"
  using effect.reported [OF assms] by (simp_all add: body_effect_def)

end
