(* ===== verification/Session.thy ===== *)
theory Session
  imports Fuzz_Send Reports
begin

text \<open>
  Persistent sessions: a client and a server connection, joined by a transport that delivers what each
  side writes, carry one exchange after the other.  The program is the one an application writes: send
  the request with its body, let the other side read it to its end, answer, read the answer, and start
  the next cycle on both connections.  A panic or an unexpected result is \<open>None\<close>.
\<close>

section \<open>The program\<close>

record exchange =
  ex_request :: Request
  ex_body :: "u8 list"
  ex_response :: Response
  ex_answer :: "u8 list"

text \<open>Polling for the events of one message, with at most the given number of polls.\<close>

fun read_message :: "'e httparse \<Rightarrow> nat \<Rightarrow> Connection \<Rightarrow> (Event list \<times> Connection) option" where
  "read_message hp 0 c = None"
| "read_message hp (Suc n) c =
     unwrap_call (next_event hp c) \<bind> (\<lambda>(result, c).
     case result of
       NE_Event (Ev_EndOfMessage m) \<Rightarrow> Some ([Ev_EndOfMessage m], c)
     | NE_Event e \<Rightarrow> read_message hp n c \<bind> (\<lambda>(es, c). Some (e # es, c))
     | _ \<Rightarrow> None)"

definition send_message :: "(Connection \<Rightarrow> (u8 list) local_result) \<Rightarrow> u8 list \<Rightarrow> Connection \<Rightarrow> (u8 list \<times> Connection) option" where
  "send_message send_head body c =
     unwrap_call (send_head c) \<bind> (\<lambda>(head, c).
     unwrap_call (send_data body c) \<bind> (\<lambda>(data, c).
     unwrap_call (end_of_message [] c) \<bind> (\<lambda>(end_bytes, c).
     Some (head @ data @ end_bytes, c))))"

definition deliver :: "'e httparse \<Rightarrow> nat \<Rightarrow> u8 list \<Rightarrow> Connection \<Rightarrow> (Event list \<times> Connection) option" where
  "deliver hp polls wire c = unwrap_call (receive_data wire c) \<bind> (\<lambda>(_, c). read_message hp polls c)"

definition run_exchange :: "'e httparse \<Rightarrow> nat \<Rightarrow> exchange \<Rightarrow> Connection \<times> Connection
    \<Rightarrow> ((Event list \<times> Event list) \<times> Connection \<times> Connection) option" where
  "run_exchange hp polls x = (\<lambda>(c, s).
     send_message (send_request (ex_request x)) (ex_body x) c \<bind> (\<lambda>(wire, c).
     deliver hp polls wire s \<bind> (\<lambda>(asked_events, s).
     send_message (send_response (ex_response x)) (ex_answer x) s \<bind> (\<lambda>(wire, s).
     deliver hp polls wire c \<bind> (\<lambda>(answered_events, c).
     unwrap_call (start_next_cycle c) \<bind> (\<lambda>(_, c).
     unwrap_call (start_next_cycle s) \<bind> (\<lambda>(_, s).
     Some ((asked_events, answered_events), c, s))))))))"

fun session :: "'e httparse \<Rightarrow> nat \<Rightarrow> exchange list \<Rightarrow> Connection \<times> Connection
    \<Rightarrow> ((Event list \<times> Event list) list \<times> Connection \<times> Connection) option" where
  "session hp polls [] cs = Some ([], cs)"
| "session hp polls (x # xs) cs =
     run_exchange hp polls x cs \<bind> (\<lambda>(events, cs).
     session hp polls xs cs \<bind> (\<lambda>(rest, cs). Some (events # rest, cs)))"

section \<open>Ordinary exchanges\<close>

text \<open>HTTP/1.1 messages that keep the connection open, propose no other protocol and announce the framing
  of their body.\<close>

definition fits_frame :: "Framing \<Rightarrow> u8 list \<Rightarrow> bool" where
  "fits_frame f body \<longleftrightarrow> (f = F_Chunked \<or> f = F_Fixed (length body)) \<and> length body < usize_limit"

definition ordinary_request :: "Request \<Rightarrow> Framing \<Rightarrow> bool" where
  "ordinary_request q f \<longleftrightarrow>
     sendable q f \<and> valid_method (req_method q) \<and> req_http_version q = Http11
     \<and> from_method (as_bytes (req_method q)) = RK_Other \<and> upgrade_protocols (req_headers q) = Some []
     \<and> \<not> has_token (req_headers q) (bytes ''connection'') (bytes ''close'')"

definition ordinary_response :: "Response \<Rightarrow> Framing \<Rightarrow> bool" where
  "ordinary_response p f \<longleftrightarrow>
     valid_status (resp_status p) \<and> \<not> is_informational (resp_status p) \<and> as_u16 (resp_status p) \<notin> {204, 304}
     \<and> resp_http_version p = Http11 \<and> validate_headers (resp_headers p) = Inr () \<and> validate_reason (resp_reason p) = Inr ()
     \<and> framing_field_count (resp_headers p) > 0 \<and> framing (resp_headers p) Http11 = Inr f
     \<and> \<not> has_token (resp_headers p) (bytes ''connection'') (bytes ''close'')"

text \<open>What the reader of a message needs: room for the head and the size lines, and a parser that reports
  the parts of the head.\<close>

definition room_for :: "Limits \<Rightarrow> usize \<Rightarrow> u8 list \<Rightarrow> bool" where
  "room_for lims n body \<longleftrightarrow>
     n \<le> max_head_bytes lims \<and> 2 \<le> max_head_bytes lims \<and> length (format_hex (length body)) \<le> max_head_bytes lims"

definition ordinary_exchange :: "'e httparse \<Rightarrow> Limits \<Rightarrow> Limits \<Rightarrow> exchange \<Rightarrow> bool" where
  "ordinary_exchange hp client_limits server_limits x \<longleftrightarrow>
     (\<exists>f. ordinary_request (ex_request x) f \<and> fits_frame f (ex_body x))
     \<and> (\<exists>f. ordinary_response (ex_response x) f \<and> fits_frame f (ex_answer x))
     \<and> room_for server_limits (length (serialize_request (ex_request x))) (ex_body x)
     \<and> room_for client_limits (length (written (ex_response x))) (ex_answer x)
     \<and> (\<forall>rest. parses_request hp (ex_request x) rest (max_header_count server_limits))
     \<and> (\<forall>rest. parses_response hp (ex_response x) rest (max_header_count client_limits))"

definition at_rest :: "Role \<Rightarrow> Limits \<Rightarrow> Connection \<Rightarrow> bool" where
  "at_rest role lims c \<longleftrightarrow>
     conn_role c = role \<and> limits c = lims \<and> conn_state c = state_new \<and> conn_reader c = R_Head \<and> progress c = None
     \<and> unread c = [] \<and> \<not> eof c \<and> connection_inv c"

text \<open>The events of an exchange, as the server and the client see them.\<close>

definition reported_events :: "exchange \<Rightarrow> Event list \<times> Event list" where
  "reported_events x =
     (Ev_Request (ex_request x) # message_events (ex_body x) (framing (req_headers (ex_request x)) Http11 = Inr F_Chunked),
      Ev_Response (ex_response x) # message_events (ex_answer x) (framing (resp_headers (ex_response x)) Http11 = Inr F_Chunked))"

section \<open>Sending a message\<close>

lemma body_leaves:
  assumes "sending_body s f" and "fits_frame f d" and "process_event (conn_state s) (conn_role s) SE_EndOfMessage = (Inr (), st)"
  obtains o1 o2 s1 where "send_data d s = (Inr o1, s1)"
    and "end_of_message [] s1 = (Inr o2, s\<lparr>conn_state := st, writer := None, waiting_for_continue := False\<rparr>)"
    and "transmit [d] s = Inr (o1 @ o2)"
proof -
  obtain w where w: "transmit [d] s = Inr w"
    using assms(1,2) transmit_chunked [of s "[d]"] transmit_fixed [of s "length d" "[d]"] by (auto simp: fits_frame_def)
  then obtain o1 s1 o2 s2 where sent: "send_data d s = (Inr o1, s1)" "end_of_message [] s1 = (Inr o2, s2)" "w = o1 @ o2"
    by (rule transmit_one)
  from sent(1) obtain g where s1: "s1 = s\<lparr>writer := Some g, waiting_for_continue := False\<rparr>"
    unfolding send_data_framed [OF assms(1)] by (auto split: sum.splits prod.splits)
  from sent(2) assms(3) have "s2 = s\<lparr>conn_state := st, writer := None, waiting_for_continue := False\<rparr>"
    by (auto simp: end_of_message_def s1 advance_local_def split: sum.splits)
  with sent w that show thesis by simp
qed

lemma request_leaves:
  assumes "ordinary_request q f" and "at_rest Client lims c"
  obtains c1 where "send_request q c = (Inr (serialize_request q), c1)" and "sending_body c1 f"
    and "c1 = c\<lparr>conn_state := exchanging SendBody SendResponse, request_kind := Some RK_Other, writer := Some f,
      waiting_for_continue := waiting_for_continue c1, continue_before_upgrade := False, upgrade_proposals := []\<rparr>"
proof -
  have idle: "idle_client c" using assms(2) legal_state_new by (auto simp: at_rest_def idle_client_def state_new_def)
  from assms(1) have q: "sendable q f" by (simp add: ordinary_request_def)
  obtain c1 where sent: "send_request q c = (Inr (serialize_request q), c1)" "sending_body c1 f"
    using q idle by (rule sendable_sent)
  from sent(1) obtain frame ups d where frame: "framing (req_headers q) (req_http_version q) = Inr frame"
    and ups: "ups = (if req_http_version q = Http11 then the (upgrade_protocols (req_headers q)) else [])"
    and adv: "advance_local (SE_Request (from_flags (as_bytes (req_method q) = bytes ''CONNECT'') (ups \<noteq> []))) c = (Inr (), d)"
    and c1: "c1 = (apply_persistence (req_http_version q) (req_headers q) d)
      \<lparr>request_kind := Some (from_method (as_bytes (req_method q))), writer := Some frame,
       waiting_for_continue := expects_continue (req_http_version q) (req_headers q) frame,
       continue_before_upgrade := expects_continue (req_http_version q) (req_headers q) frame \<and> ups \<noteq> [],
       upgrade_proposals := ups\<rparr>"
    by (rule send_request_Inr)
  have meth: "as_bytes (req_method q) \<noteq> bytes ''CONNECT''"
    using assms(1) by (auto simp: ordinary_request_def from_method_def split: if_splits)
  have no_ups: "ups = []" using ups assms(1) by (simp add: ordinary_request_def)
  have "advance_local (SE_Request (from_flags False False)) c = (Inr (), d)"
    using adv meth by (simp add: no_ups)
  then have "d = c\<lparr>conn_state := exchanging SendBody SendResponse\<rparr>"
    using assms(2) exchange_steps(1) by (simp add: advance_local_def at_rest_def)
  moreover have "apply_persistence (req_http_version q) (req_headers q) d = d"
    using assms(1) by (simp add: apply_persistence_def ordinary_request_def)
  moreover have "frame = f" using frame q by (simp add: sendable_def)
  ultimately show thesis
    using that [OF sent] c1 no_ups assms(1) by (simp add: ordinary_request_def)
qed

lemma response_leaves:
  assumes "ordinary_response p f" and "conn_role s = Server" and "conn_state s = exchanging Done SendResponse"
    and "peer_version s = Some Http11" and "request_kind s = Some RK_Other"
  obtains s1 where "send_response p s = (Inr (written p), s1)" and "sending_body s1 f" and "written_fields p s = resp_headers p"
    and "s1 = s\<lparr>conn_state := exchanging Done SendBody, writer := Some f, waiting_for_continue := False,
      continue_before_upgrade := False, upgrade_proposals := []\<rparr>"
proof -
  have kinds: "\<not> bodiless (resp_status p) s" "\<not> switches_connect (resp_status p) s"
    using assms(1,5) by (simp_all add: bodiless_def switches_connect_def request_is_def ordinary_response_def)
  have kept: "drop_unusable_framing Http11 (resp_headers p) s = resp_headers p" by (simp add: drop_unusable_framing_def assms(4))
  have sel: "select_response_framing False Http11 (resp_headers p) s = Inr (f, resp_headers p, False)"
    using assms(1) by (simp add: select_response_framing_def ordinary_response_def)
  have same: "response_headers_out False p (resp_headers p) s = resp_headers p"
    using assms by (simp add: response_headers_out_def ordinary_response_def)
  have fields: "written_fields p s = resp_headers p"
    using assms(1) by (simp add: written_fields_def kinds(1) kept sel same ordinary_response_def)
  have adv: "advance_local SE_Response s = (Inr (), s\<lparr>conn_state := exchanging Done SendBody\<rparr>)"
    using exchange_steps(3) assms by (simp add: advance_local_def)
  define s1 where "s1 = s\<lparr>conn_state := exchanging Done SendBody, writer := Some f, waiting_for_continue := False,
      continue_before_upgrade := False, upgrade_proposals := []\<rparr>"
  have sent: "send_response p s = (Inr (written p), s1)"
    using assms kinds kept sel same adv
    unfolding send_response_def Let_def switches_connect_def [symmetric] bodiless_def [symmetric] response_headers_out_def [symmetric]
    by (simp add: ordinary_response_def s1_def apply_persistence_def)
  moreover have "legal_configuration (conn_state s)" by (simp add: assms(3)) code_simp
  ultimately have "sending_body s1 f" using sent_response_body [OF sent kinds(2)] by (simp add: s1_def)
  with sent fields that show thesis by (simp add: s1_def)
qed

section \<open>Receiving a message\<close>

lemma next_event_carried:
  assumes "httparse_ok hp" and "connection_inv c" and "next_event hp c = (r, c')"
  shows "connection_inv c' \<and> same_terms c c'"
  using next_event_kept [OF assms] frame.next_event_R [OF assms(1,3)]
  by (simp add: same_terms_def same_frame_def discards_def)

lemma pulled_message:
  assumes hp: "httparse_ok hp" and inv: "connection_inv d" and peer: "peer_state d = SendBody"
    and pull: "pull hp (length (message_events body ch)) d = (map (\<lambda>e. Inr (NE_Event e)) (message_events body ch), c')"
    and polls: "2 \<le> polls"
  shows "read_message hp polls d = Some (message_events body ch, c') \<and> accepted_as SE_EndOfMessage d c'
    \<and> connection_inv c' \<and> same_terms d c'"
proof -
  obtain n where n: "polls = Suc (Suc n)" using Nat.le_Suc_ex [OF polls] by auto
  let ?eom = "Ev_EndOfMessage \<lparr>eom_trailers = []\<rparr>"
  show ?thesis
  proof (cases "body = []")
    case True
    with pull have ended: "next_event hp d = (Inr (NE_Event ?eom), c')" by (auto simp: message_events_def split: prod.splits)
    with True n end_effect(1) [OF hp ended] next_event_carried [OF hp inv ended] show ?thesis by (simp add: message_events_def)
  next
    case False
    let ?data = "Ev_Data \<lparr>data_bytes = body, chunk_start = ch, chunk_end = ch\<rparr>"
    from False pull obtain d1 where data: "next_event hp d = (Inr (NE_Event ?data), d1)" and ended: "next_event hp d1 = (Inr (NE_Event ?eom), c')"
      by (auto simp: message_events_def split: prod.splits)
    from next_event_carried [OF hp inv data] have d1: "connection_inv d1" "same_terms d d1" by simp_all
    have "conn_state d1 = conn_state d"
      using data_effect(1) [OF hp data] peer inv legal_data_event [of "conn_state d" "peer (conn_role d)"]
      by (simp add: accepted_as_def connection_inv_def peer_state_def)
    with data_effect(1) [OF hp data] end_effect(1) [OF hp ended] d1 have "accepted_as SE_EndOfMessage d c'"
      by (simp add: accepted_as_def same_terms_def)
    with next_event_carried [OF hp d1(1) ended] d1(2) False n data ended show ?thesis
      by (simp add: message_events_def same_terms_def)
  qed
qed

lemma body_arrives:
  assumes "httparse_ok hp" and "parses_empty_section hp" and "sending_body s f" and "fits_frame f body" and "transmit [body] s = Inr w"
    and "connection_inv d" and "peer_state d = SendBody" and "conn_reader d = reader f" and "unread d = w"
    and "room_for (limits d) n body" and "2 \<le> polls"
  obtains c' where "read_message hp polls d = Some (message_events body (f = F_Chunked), c')" and "accepted_as SE_EndOfMessage d c'"
    and "connection_inv c'" and "same_terms d c'" and "conn_reader c' = R_Head" and "unread c' = []"
proof -
  have "receiving_body d (reader f) w" using reading_body [OF assms(6-8)] assms(9) by simp
  from message_pulled [OF assms(2,3) _ _ _ _ assms(5) this] assms(4,10)
  obtain c' where c': "pull hp (length (message_events body (f = F_Chunked))) d =
      (map (\<lambda>e. Inr (NE_Event e)) (message_events body (f = F_Chunked)), c')" "conn_reader c' = R_Head" "unread c' = []"
    by (auto simp: fits_frame_def room_for_def)
  from pulled_message [OF assms(1,6,7) c'(1) assms(11)] c'(2,3) that show thesis by blast
qed

lemma accepted_request_state:
  assumes "accept_request q c = (Inr e, c')" and "ordinary_request q f" and "conn_role c = Server" and "conn_state c = state_new"
  shows "conn_state c' = exchanging SendBody SendResponse \<and> peer_version c' = Some Http11 \<and> request_kind c' = Some RK_Other"
proof -
  have q: "framing (req_headers q) Http11 = Inr f" "as_bytes (req_method q) \<noteq> bytes ''CONNECT''"
    "proposed_upgrades Http11 (req_headers q) = []"
    using assms(2) by (auto simp: ordinary_request_def sendable_def proposed_upgrades_def from_method_def split: if_splits)
  from assms(1) show ?thesis
    using assms(2-4) q exchange_steps(1)
    by (auto simp: accept_request_def Let_def ordinary_request_def advance_peer_def apply_persistence_def split: if_splits)
qed

lemma request_arrives:
  assumes "httparse_ok hp" and "ordinary_request q f" and "at_rest Server lims s"
    and "send_request q c = (Inr out, c1)" and "length out \<le> max_head_bytes lims" and "parses_request hp q w (max_header_count lims)"
  obtains d d1 where "receive_data (out @ w) s = (Inr (), d)" and "next_event hp d = (Inr (NE_Event (Ev_Request q)), d1)"
    and "unread d1 = w" and "conn_reader d1 = reader f" and "peer_state d1 = SendBody"
    and "conn_state d1 = exchanging SendBody SendResponse" and "peer_version d1 = Some Http11" and "request_kind d1 = Some RK_Other"
    and "connection_inv d1" and "conn_role d1 = Server" and "limits d1 = lims" and "\<not> eof d1"
proof -
  from assms(4) have out: "out = serialize_request q" and frame: "framing (req_headers q) (req_http_version q) = Inr (the (writer c1))" "writer c1 \<noteq> None"
    by (rule send_request_Inr, simp)+
  have "out @ w \<noteq> []" by (simp add: out serialize_request_unlines)
  with assms(3) obtain d where d: "receive_data (out @ w) s = (Inr (), d)" "connection_inv d" "unread d = out @ w"
      "d = s\<lparr>input := buffer_extend (input s) (out @ w)\<rparr>"
    using received_once [of s "out @ w"] by (auto simp: at_rest_def)
  have idle: "idle_server d (out @ w)" and lim: "limits d = lims" "conn_role d = Server" "conn_state d = state_new" "\<not> eof d"
    using assms(3) d(3) by (auto simp: d(4) idle_server_def at_rest_def state_new_def)
  have "valid_method (req_method q)" using assms(2) by (simp add: ordinary_request_def)
  from request_received [OF this assms(4) idle, of hp] assms(5,6) lim obtain d1 g where
    d1: "next_event hp d = (Inr (NE_Event (Ev_Request q)), d1)" "unread d1 = w" "writer c1 = Some g" "conn_reader d1 = reader g" "peer_state d1 = SendBody"
    by auto
  have "g = f" using frame d1(3) assms(2) by (simp add: ordinary_request_def sendable_def)
  from reported_request [OF d1(1)] obtain e n where sr: "section_ready True d = (True, e)"
    and acc: "accept_request q (e\<lparr>input := buffer_consume (input e) n, progress := None\<rparr>) = (Inr (NE_Event (Ev_Request q)), d1)"
    by (rule read_head_request)
  have "conn_state d1 = exchanging SendBody SendResponse \<and> peer_version d1 = Some Http11 \<and> request_kind d1 = Some RK_Other"
    using accepted_request_state [OF acc assms(2)] section_ready_situation [OF sr] lim by (simp add: same_situation_def)
  with that [OF d(1) d1(1,2)] d1(4,5) \<open>g = f\<close> next_event_carried [OF assms(1) d(2) d1(1)] lim show thesis
    by (simp add: same_terms_def)
qed

lemma read_head_response:
  assumes "next_event hp c = (Inr (NE_Event (Ev_Response p)), c')" and "httparse_ok hp" and "peer_state c = SendResponse" and "conn_reader c = R_Head"
  obtains e n where "same_situation c e" and "accept_response p (e\<lparr>input := buffer_consume (input e) n, progress := None\<rparr>) = (Inr (NE_Event (Ev_Response p)), c')"
proof -
  have role: "conn_role c = Client" using reported_event_ok [OF assms(2,1)] by simp
  have inner: "read_head hp c = (Inr (NE_Event (Ev_Response p)), c')"
    using assms(1,3,4) by (simp add: next_event_Inr next_event_inner.simps peer_state_return_def)
  obtain ready e where sr: "section_ready True c = (ready, e)" by fastforce
  have nw: "wait_for_section True e \<noteq> (Inr (NE_Event (Ev_Response p)), c')"
    using kind.waiting by (auto simp: wait_for_section_def need_data_or_eof_def Let_def)
  from inner sr nw role obtain n q where acc: "accept_response q (e\<lparr>input := buffer_consume (input e) n, progress := None\<rparr>) = (Inr (NE_Event (Ev_Response p)), c')"
    by (auto simp: read_head_def Let_def split: if_splits sum.splits option.splits)
  from arg_cong [OF acc, of fst] have "q = p" by (auto dest!: accept_response_result split: if_splits)
  with that [OF section_ready_situation [OF sr]] acc show thesis by simp
qed

text \<open>A client between its request and the answer.\<close>

definition waits_for_answer :: "Limits \<Rightarrow> Connection \<Rightarrow> bool" where
  "waits_for_answer lims c \<longleftrightarrow>
     conn_role c = Client \<and> limits c = lims \<and> conn_state c = exchanging Done SendResponse \<and> request_kind c = Some RK_Other
     \<and> conn_reader c = R_Head \<and> progress c = None \<and> unread c = [] \<and> \<not> eof c \<and> connection_inv c"

lemma accepted_response_state:
  assumes "accept_response p c = (Inr e, c')" and "ordinary_response p f" and "conn_role c = Client"
    and "conn_state c = exchanging Done SendResponse" and "request_kind c = Some RK_Other" and "conn_reader c' \<noteq> R_CloseDelimited"
  shows "conn_state c' = exchanging Done SendBody"
proof -
  have kind: "\<not> switches_connect (resp_status p) c" using assms(5) by (simp add: switches_connect_def request_is_def)
  have final: "\<not> is_informational (resp_status p)" using assms(2) by (simp add: ordinary_response_def)
  from assms(1) final obtain d frame where adv: "advance_peer (decision_event (resp_status p) c) c = (Inr (), d)"
    and c': "c' = (if frame = F_CloseDelimited
            then (after_response p d)\<lparr>conn_state := disable_keep_alive (conn_state (after_response p d))\<rparr>
            else after_response p d)\<lparr>conn_reader := reader frame\<rparr>"
    by (rule accept_response_finalE)
  have "frame \<noteq> F_CloseDelimited" using assms(6) by (auto simp: c')
  moreover have "conn_state d = exchanging Done SendBody"
    using adv kind assms(3,4) exchange_steps(3) by (auto simp: advance_peer_def)
  moreover have "conn_state (after_response p d) = conn_state d"
    using assms(2) by (simp add: after_response_def apply_persistence_def ordinary_response_def)
  ultimately show ?thesis by (simp add: c')
qed

lemma response_arrives:
  assumes "httparse_ok hp" and "ordinary_response p f" and "waits_for_answer lims c" and "send_response p s = (Inr (written p), s1)"
    and "written_fields p s = resp_headers p" and "request_kind s = Some RK_Other" and "writer s1 = Some f" and "f \<noteq> F_CloseDelimited"
    and "length (written p) \<le> max_head_bytes lims" and "parses_response hp p w (max_header_count lims)"
  obtains d d1 where "receive_data (written p @ w) c = (Inr (), d)" and "next_event hp d = (Inr (NE_Event (Ev_Response p)), d1)"
    and "unread d1 = w" and "conn_reader d1 = reader f" and "peer_state d1 = SendBody" and "conn_state d1 = exchanging Done SendBody"
    and "connection_inv d1" and "conn_role d1 = Client" and "limits d1 = lims" and "\<not> eof d1"
proof -
  have "written p @ w \<noteq> []" by (simp add: serialize_response_unlines)
  with assms(3) obtain d where d: "receive_data (written p @ w) c = (Inr (), d)" "connection_inv d" "unread d = written p @ w"
      "d = c\<lparr>input := buffer_extend (input c) (written p @ w)\<rparr>"
    using received_once [of c "written p @ w"] by (auto simp: waits_for_answer_def)
  have waits: "awaiting_response d (written p @ w)" and at: "limits d = lims" "conn_role d = Client" "conn_state d = exchanging Done SendResponse"
      "request_kind d = Some RK_Other" "\<not> eof d" "conn_reader d = R_Head" "peer_state d = SendResponse"
    using assms(3) d(3) by (auto simp: d(4) awaiting_response_def waits_for_answer_def peer_state_def)
  have ordinary: "valid_status (resp_status p)" "\<not> switches_connect (resp_status p) s"
    using assms(2,6) by (simp_all add: ordinary_response_def switches_connect_def request_is_def)
  have same: "p\<lparr>resp_headers := written_fields p s\<rparr> = p" by (simp add: assms(5))
  from response_received [OF ordinary(1) assms(4) waits _ ordinary(2), of hp, unfolded same] assms(6,7,9,10) at
  obtain d1 where d1: "next_event hp d = (Inr (NE_Event (Ev_Response p)), d1)" "unread d1 = w" "conn_reader d1 = reader f" "peer_state d1 = SendBody"
    by auto
  obtain e n where e: "same_situation d e"
    and acc: "accept_response p (e\<lparr>input := buffer_consume (input e) n, progress := None\<rparr>) = (Inr (NE_Event (Ev_Response p)), d1)"
    using d1(1) assms(1) at(7,6) by (rule read_head_response)
  have "conn_reader d1 \<noteq> R_CloseDelimited" using d1(3) assms(8) by (cases f) simp_all
  then have "conn_state d1 = exchanging Done SendBody"
    using accepted_response_state [OF acc assms(2)] e at by (simp add: same_situation_def)
  with that [OF d(1) d1] next_event_carried [OF assms(1) d(2) d1(1)] at show thesis by (simp add: same_terms_def)
qed

section \<open>One exchange\<close>

lemma last_steps:
  "process_event (exchanging Done SendBody) Server SE_EndOfMessage = (Inr (), exchanging Done Done)"
  by code_simp

lemma next_cycle_rests:
  assumes "httparse_ok hp" and "connection_inv c" and "conn_state c = exchanging Done Done" and "unread c = []" and "\<not> eof c"
  obtains c' where "start_next_cycle c = (Inr (), c')" and "at_rest (conn_role c) (limits c) c'"
proof -
  have inv: "connection_inv (snd (start_next_cycle c))" using connection_inv_call [OF assms(1,2), of A_StartNextCycle] by simp
  obtain c' where c': "start_next_cycle c = (Inr (), c')"
    "c' = c\<lparr>conn_state := state_new, conn_reader := R_Head, writer := None, progress := None, request_kind := None,
       upgrade_proposals := [], waiting_for_continue := False, continue_before_upgrade := False\<rparr>"
    using assms(3) by (simp add: start_next_cycle_cases is_empty_def from_flags_def)
  with inv assms(4,5) have "at_rest (conn_role c) (limits c) c'" by (simp add: at_rest_def)
  with c'(1) show thesis by (rule that)
qed

lemma sent_inv_calls:
  assumes "httparse_ok hp" and "connection_inv c"
  shows "send_request q c = (r, c1) \<Longrightarrow> connection_inv c1" "send_response p c = (r, c1) \<Longrightarrow> connection_inv c1"
    "send_data d c = (r, c1) \<Longrightarrow> connection_inv c1" "end_of_message t c = (r, c1) \<Longrightarrow> connection_inv c1"
  using connection_inv_call [OF assms, of "A_SendRequest q"] connection_inv_call [OF assms, of "A_SendResponse p"]
    connection_inv_call [OF assms, of "A_SendData d"] connection_inv_call [OF assms, of "A_EndOfMessage t"]
  by simp_all

lemma message_leaves:
  assumes "httparse_ok hp" and "connection_inv c" and "send_head c = (Inr head, c1)" and "connection_inv c1" and "sending_body c1 f" and "fits_frame f body"
    and "process_event (conn_state c1) (conn_role c1) SE_EndOfMessage = (Inr (), st)"
  obtains w c2 where "send_message send_head body c = Some (head @ w, c2)" and "transmit [body] c1 = Inr w"
    and "c2 = c1\<lparr>conn_state := st, writer := None, waiting_for_continue := False\<rparr>" and "connection_inv c2"
proof -
  obtain o1 o2 s1 where sent: "send_data body c1 = (Inr o1, s1)"
    "end_of_message [] s1 = (Inr o2, c1\<lparr>conn_state := st, writer := None, waiting_for_continue := False\<rparr>)"
    "transmit [body] c1 = Inr (o1 @ o2)"
    using assms(5-7) by (rule body_leaves)
  have "connection_inv (c1\<lparr>conn_state := st, writer := None, waiting_for_continue := False\<rparr>)"
    using sent_inv_calls(4) [OF assms(1) _ sent(2)] sent_inv_calls(3) [OF assms(1,4) sent(1)] by blast
  with that [OF _ sent(3) refl] sent(1,2) assms(3) show thesis by (simp add: send_message_def)
qed

lemma message_delivered:
  assumes "httparse_ok hp" and "receive_data (head @ w) c = (Inr (), d)" and "next_event hp d = (Inr (NE_Event e), d1)" and "\<nexists>m. e = Ev_EndOfMessage m"
    and "read_message hp polls d1 = Some (es, c')"
  shows "deliver hp (Suc polls) (head @ w) c = Some (e # es, c')"
  using assms(2-5) by (cases e) (simp_all add: deliver_def)

lemma request_exchanged:
  assumes hp: "httparse_ok hp" "parses_empty_section hp" and x: "ordinary_exchange hp cl sl x"
    and c: "at_rest Client cl c" and s: "at_rest Server sl s" and polls: "3 \<le> polls"
  obtains wire c1 s1 where "send_message (send_request (ex_request x)) (ex_body x) c = Some (wire, c1)"
    and "deliver hp polls wire s = Some (fst (reported_events x), s1)" and "waits_for_answer cl c1"
    and "connection_inv s1" and "conn_role s1 = Server" and "limits s1 = sl" and "conn_state s1 = exchanging Done SendResponse"
    and "peer_version s1 = Some Http11" and "request_kind s1 = Some RK_Other" and "unread s1 = []" and "\<not> eof s1"
proof -
  let ?q = "ex_request x" and ?body = "ex_body x"
  from x obtain f where q: "ordinary_request ?q f" and fits: "fits_frame f ?body"
    and room: "room_for sl (length (serialize_request ?q)) ?body" and parses: "\<And>rest. parses_request hp ?q rest (max_header_count sl)"
    by (auto simp: ordinary_exchange_def)
  have frame: "framing (req_headers ?q) Http11 = Inr f" using q by (auto simp: ordinary_request_def sendable_def)
  obtain n where n: "polls = Suc n" "2 \<le> n" using polls by (cases polls) auto
  obtain c1 where sent: "send_request ?q c = (Inr (serialize_request ?q), c1)" "sending_body c1 f"
    and c1: "c1 = c\<lparr>conn_state := exchanging SendBody SendResponse, request_kind := Some RK_Other, writer := Some f,
      waiting_for_continue := waiting_for_continue c1, continue_before_upgrade := False, upgrade_proposals := []\<rparr>"
    using q c by (rule request_leaves)
  have fields: "conn_state c1 = exchanging SendBody SendResponse" "conn_role c1 = conn_role c" "limits c1 = limits c"
    "request_kind c1 = Some RK_Other" "conn_reader c1 = conn_reader c" "progress c1 = progress c" "input c1 = input c" "eof c1 = eof c"
    by (subst c1, simp)+
  have invc: "connection_inv c" using c by (simp add: at_rest_def)
  have st: "process_event (conn_state c1) (conn_role c1) SE_EndOfMessage = (Inr (), exchanging Done SendResponse)"
    using exchange_steps(2) fields c by (simp add: at_rest_def)
  obtain w c2 where left: "send_message (send_request ?q) ?body c = Some (serialize_request ?q @ w, c2)" "transmit [?body] c1 = Inr w"
    and c2: "c2 = c1\<lparr>conn_state := exchanging Done SendResponse, writer := None, waiting_for_continue := False\<rparr>" "connection_inv c2"
    using hp(1) invc sent(1) sent_inv_calls(1) [OF hp(1) invc sent(1)] sent(2) fits st by (rule message_leaves)
  obtain d d1 where arrived: "receive_data (serialize_request ?q @ w) s = (Inr (), d)" "next_event hp d = (Inr (NE_Event (Ev_Request ?q)), d1)"
    and d1: "unread d1 = w" "conn_reader d1 = reader f" "peer_state d1 = SendBody" "conn_state d1 = exchanging SendBody SendResponse"
      "peer_version d1 = Some Http11" "request_kind d1 = Some RK_Other" "connection_inv d1" "conn_role d1 = Server" "limits d1 = sl" "\<not> eof d1"
    using hp(1) q s sent(1) _ parses by (rule request_arrives) (use room in \<open>simp add: room_for_def\<close>)
  have "room_for (limits d1) (length (serialize_request ?q)) ?body" using room d1(9) by simp
  with hp sent(2) fits left(2) d1(7,3,2,1) obtain s1 where
    s1: "read_message hp n d1 = Some (message_events ?body (f = F_Chunked), s1)" "accepted_as SE_EndOfMessage d1 s1"
      "connection_inv s1" "same_terms d1 s1" "unread s1 = []"
    using n(2) by (rule body_arrives)
  have "conn_state s1 = exchanging Done SendResponse" "peer_version s1 = Some Http11" "request_kind s1 = Some RK_Other"
    using s1(2) d1 exchange_steps(2) by (simp_all add: accepted_as_def)
  moreover have "deliver hp polls (serialize_request ?q @ w) s = Some (fst (reported_events x), s1)"
    using message_delivered [OF hp(1) arrived _ s1(1)] frame n(1) by (simp add: reported_events_def)
  moreover have "waits_for_answer cl c2"
    using c c2(2) fields by (simp add: c2(1) waits_for_answer_def at_rest_def)
  ultimately show thesis using that [OF left(1)] s1(3-5) d1(8-10) by (simp add: same_terms_def)
qed

lemma response_exchanged:
  assumes hp: "httparse_ok hp" "parses_empty_section hp" and x: "ordinary_exchange hp cl sl x" and c: "waits_for_answer cl c"
    and s: "connection_inv s" "conn_role s = Server" "conn_state s = exchanging Done SendResponse" "peer_version s = Some Http11"
      "request_kind s = Some RK_Other" "unread s = []" "\<not> eof s"
    and polls: "3 \<le> polls"
  obtains wire c1 s1 where "send_message (send_response (ex_response x)) (ex_answer x) s = Some (wire, s1)"
    and "deliver hp polls wire c = Some (snd (reported_events x), c1)"
    and "connection_inv s1" and "conn_role s1 = Server" and "limits s1 = limits s" and "conn_state s1 = exchanging Done Done"
    and "unread s1 = []" and "\<not> eof s1"
    and "connection_inv c1" and "conn_role c1 = Client" and "limits c1 = cl" and "conn_state c1 = exchanging Done Done"
    and "unread c1 = []" and "\<not> eof c1"
proof -
  let ?p = "ex_response x" and ?body = "ex_answer x"
  from x obtain f where p: "ordinary_response ?p f" and fits: "fits_frame f ?body"
    and room: "room_for cl (length (written ?p)) ?body" and parses: "\<And>rest. parses_response hp ?p rest (max_header_count cl)"
    by (auto simp: ordinary_exchange_def)
  have frame: "framing (resp_headers ?p) Http11 = Inr f" using p by (simp add: ordinary_response_def)
  obtain n where n: "polls = Suc n" "2 \<le> n" using polls by (cases polls) auto
  obtain s1 where sent: "send_response ?p s = (Inr (written ?p), s1)" "sending_body s1 f" "written_fields ?p s = resp_headers ?p"
    and s1: "s1 = s\<lparr>conn_state := exchanging Done SendBody, writer := Some f, waiting_for_continue := False,
      continue_before_upgrade := False, upgrade_proposals := []\<rparr>"
    using p s(2-5) by (rule response_leaves)
  have st: "process_event (conn_state s1) (conn_role s1) SE_EndOfMessage = (Inr (), exchanging Done Done)"
    using last_steps s(2) by (simp add: s1)
  obtain w s2 where left: "send_message (send_response ?p) ?body s = Some (written ?p @ w, s2)" "transmit [?body] s1 = Inr w"
    and s2: "s2 = s1\<lparr>conn_state := exchanging Done Done, writer := None, waiting_for_continue := False\<rparr>" "connection_inv s2"
    using hp(1) s(1) sent(1) sent_inv_calls(2) [OF hp(1) s(1) sent(1)] sent(2) fits st by (rule message_leaves)
  have open_frame: "writer s1 = Some f" "f \<noteq> F_CloseDelimited" using sent(2) fits by (auto simp: sending_body_def fits_frame_def)
  obtain d d1 where arrived: "receive_data (written ?p @ w) c = (Inr (), d)" "next_event hp d = (Inr (NE_Event (Ev_Response ?p)), d1)"
    and d1: "unread d1 = w" "conn_reader d1 = reader f" "peer_state d1 = SendBody" "conn_state d1 = exchanging Done SendBody"
      "connection_inv d1" "conn_role d1 = Client" "limits d1 = cl" "\<not> eof d1"
    using hp(1) p c sent(1,3) s(5) open_frame _ parses by (rule response_arrives) (use room in \<open>simp add: room_for_def\<close>)
  have "room_for (limits d1) (length (written ?p)) ?body" using room d1(7) by simp
  with hp sent(2) fits left(2) d1(5,3,2,1) obtain c1 where
    c1: "read_message hp n d1 = Some (message_events ?body (f = F_Chunked), c1)" "accepted_as SE_EndOfMessage d1 c1"
      "connection_inv c1" "same_terms d1 c1" "unread c1 = []"
    using n(2) by (rule body_arrives)
  have "conn_state c1 = exchanging Done Done" using c1(2) d1(4,6) last_steps by (simp add: accepted_as_def)
  moreover have "deliver hp polls (written ?p @ w) c = Some (snd (reported_events x), c1)"
    using message_delivered [OF hp(1) arrived _ c1(1)] frame n(1) by (simp add: reported_events_def)
  ultimately show thesis using that [OF left(1)] c1(3-5) d1(6-8) s s2 by (simp add: same_terms_def s1)
qed

lemma exchange_runs:
  assumes hp: "httparse_ok hp" "parses_empty_section hp" and x: "ordinary_exchange hp cl sl x"
    and c: "at_rest Client cl c" and s: "at_rest Server sl s" and polls: "3 \<le> polls"
  shows "\<exists>c' s'. run_exchange hp polls x (c, s) = Some (reported_events x, c', s') \<and> at_rest Client cl c' \<and> at_rest Server sl s'"
proof -
  obtain wire c1 s1 where ask: "send_message (send_request (ex_request x)) (ex_body x) c = Some (wire, c1)"
    "deliver hp polls wire s = Some (fst (reported_events x), s1)" and c1: "waits_for_answer cl c1"
    and s1: "connection_inv s1" "conn_role s1 = Server" "limits s1 = sl" "conn_state s1 = exchanging Done SendResponse"
      "peer_version s1 = Some Http11" "request_kind s1 = Some RK_Other" "unread s1 = []" "\<not> eof s1"
    using hp x c s polls by (rule request_exchanged)
  obtain wire' c2 s2 where answer: "send_message (send_response (ex_response x)) (ex_answer x) s1 = Some (wire', s2)"
    "deliver hp polls wire' c1 = Some (snd (reported_events x), c2)"
    and s2: "connection_inv s2" "conn_role s2 = Server" "limits s2 = limits s1" "conn_state s2 = exchanging Done Done" "unread s2 = []" "\<not> eof s2"
    and c2: "connection_inv c2" "conn_role c2 = Client" "limits c2 = cl" "conn_state c2 = exchanging Done Done" "unread c2 = []" "\<not> eof c2"
    using hp x c1 s1(1,2,4-8) polls by (rule response_exchanged)
  obtain c3 where c3: "start_next_cycle c2 = (Inr (), c3)" "at_rest (conn_role c2) (limits c2) c3"
    using hp(1) c2(1,4-6) by (rule next_cycle_rests)
  obtain s3 where s3: "start_next_cycle s2 = (Inr (), s3)" "at_rest (conn_role s2) (limits s2) s3"
    using hp(1) s2(1,4-6) by (rule next_cycle_rests)
  have "run_exchange hp polls x (c, s) = Some (reported_events x, c3, s3)"
    using ask answer c3(1) s3(1) by (simp add: run_exchange_def)
  with c3(2) s3(2) c2(2,3) s2(2,3) s1(3) show ?thesis by simp
qed

section \<open>Properties of sessions\<close>

text \<open>C8. A persistent connection carries any number of exchanges: for any sequence of ordinary requests and
  responses, with chunked bodies or bodies of announced length, every call of both applications
  succeeds, the server is told exactly the requests and the client exactly the responses, each with its
  body and its end, and both connections end up at rest, ready for the next exchange.\<close>

theorem keep_alive_session:
  assumes "httparse_ok hp" and "parses_empty_section hp" and "\<forall>x \<in> set xs. ordinary_exchange hp cl sl x"
    and "at_rest Client cl c" and "at_rest Server sl s" and "3 \<le> polls"
  shows "\<exists>c' s'. session hp polls xs (c, s) = Some (map reported_events xs, c', s') \<and> at_rest Client cl c' \<and> at_rest Server sl s'"
  using assms(3-5)
proof (induction xs arbitrary: c s)
  case (Cons x xs)
  obtain c1 s1 where one: "run_exchange hp polls x (c, s) = Some (reported_events x, c1, s1)" "at_rest Client cl c1" "at_rest Server sl s1"
    using exchange_runs [OF assms(1,2) _ Cons.prems(2,3) assms(6), of x] Cons.prems(1) by auto
  with Cons.IH [of c1 s1] Cons.prems(1) show ?case by auto
qed simp

text \<open>Two exchanges on new connections.\<close>

definition upload :: exchange where
  "upload = \<lparr>ex_request = \<lparr>req_method = Method (bytes ''PUT''), req_target = bytes ''/a'',
       req_headers = [(bytes ''Host'', bytes ''a''), (bytes ''Transfer-Encoding'', bytes ''chunked'')], req_http_version = Http11\<rparr>,
     ex_body = [0x68, 0x69], ex_response = ok_response, ex_answer = [0x61]\<rparr>"

lemma new_at_rest: "at_rest role lims (connection_new role lims)"
  using connection_inv_new by (simp add: at_rest_def connection_new_def)

lemma upload_request: "ordinary_request (ex_request upload) F_Chunked"
  by code_simp

lemma upload_response: "ordinary_response (ex_response upload) F_Chunked"
  by code_simp

lemma upload_ordinary: "ordinary_exchange sample_httparse sample_limits sample_limits upload"
proof -
  have "length (serialize_request (ex_request upload)) \<le> 64" "length (written (ex_response upload)) \<le> 64"
    "length (req_headers (ex_request upload)) \<le> 8" "length (resp_headers (ex_response upload)) \<le> 8"
    "length (format_hex (length (ex_body upload))) \<le> 64" "length (format_hex (length (ex_answer upload))) \<le> 64"
    by code_simp+
  then have room: "room_for sample_limits (length (serialize_request (ex_request upload))) (ex_body upload)"
    "room_for sample_limits (length (written (ex_response upload))) (ex_answer upload)"
    "\<forall>rest. parses_request sample_httparse (ex_request upload) rest (max_header_count sample_limits)"
    "\<forall>rest. parses_response sample_httparse (ex_response upload) rest (max_header_count sample_limits)"
    using upload_request upload_response
    by (simp_all add: room_for_def sample_limits_def sample_request_parsed sample_response_parsed ordinary_request_def
        ordinary_response_def sendable_def)
  have "length (ex_body upload) < usize_limit" "length (ex_answer upload) < usize_limit"
    by (simp_all add: upload_def usize_limit_def)
  then have "fits_frame F_Chunked (ex_body upload)" "fits_frame F_Chunked (ex_answer upload)" by (simp_all add: fits_frame_def)
  with room upload_request upload_response show ?thesis unfolding ordinary_exchange_def by blast
qed

theorem keep_alive_session_witness:
  "\<exists>c' s'. session sample_httparse 3 [upload, upload] (connection_new Client sample_limits, connection_new Server sample_limits)
     = Some ([reported_events upload, reported_events upload], c', s')"
  using keep_alive_session [OF sample_httparse_ok sample_parses_empty_section _ new_at_rest new_at_rest, of "[upload, upload]" sample_limits sample_limits 3]
    upload_ordinary by auto

end
