(* ===== verification/Trailers.thy ===== *)
theory Trailers
  imports Messages
begin

text \<open>
  Trailer fields.  A chunked message that ends with trailers writes its last chunk, one line per field and
  an empty line; this theory shows that a connection which reads them reports the fields as they were
  given, whatever follows, although a client first unfolds everything it has buffered.
\<close>

section \<open>The section on the wire\<close>

definition trailer_section :: "Header list \<Rightarrow> u8 list" where
  "trailer_section t = unlines (map field_line t @ [[]])"

lemma terminator_section: "message_terminator F_Chunked t = Inr (bytes ''0'' @ CRLF @ trailer_section t)"
  by (simp add: message_terminator_def Let_def write_headers_unlines trailer_section_def)

text \<open>The hypothesis on the head parser: the lines of a section that was written come back as its fields.\<close>

definition parses_trailers :: "'e httparse \<Rightarrow> Header list \<Rightarrow> u8 list \<Rightarrow> usize \<Rightarrow> bool" where
  "parses_trailers hp t rest slots \<longleftrightarrow>
     hp_parse_headers hp (trailer_section t @ rest) slots = Inr (Some (length (trailer_section t), t))"

lemma validate_trailers_Inr: "validate_trailers t = Inr u \<Longrightarrow> \<forall>(name, value) \<in> set t. valid_name name \<and> valid_value value"
  by (auto simp: validate_trailers_def validate_headers_Inr split: sum.splits if_splits)

lemma poll_section:
  assumes "\<forall>(name, value) \<in> set t. valid_name name \<and> valid_value value"
  shows "fst (poll progress_default (trailer_section t @ rest) False) = Some (length (trailer_section t))"
proof (cases t)
  case Nil
  then show ?thesis using poll_empty_line [of rest] by (simp add: trailer_section_def)
next
  case (Cons h hs)
  have "\<forall>l \<in> set (map field_line t). line_ok l \<and> l \<noteq> []" using line_ok_fields [OF assms] by blast
  then have "\<forall>l \<in> set (field_line h # map field_line hs). line_ok l \<and> l \<noteq> []" by (simp add: Cons)
  from poll_unlines [OF this, of rest False] show ?thesis by (simp add: trailer_section_def Cons)
qed

section \<open>Unfolding leaves the section alone\<close>

lemma unfold_line:
  assumes "line_ok l" and "d \<noteq> []" and "\<not> is_ows (hd d)"
  shows "unfold_value (l @ CRLF @ d) = l @ CRLF @ unfold_value d"
  using assms(1)
proof (induction l)
  case Nil
  have "\<not> fold_ahead (LF # d)" using assms(2,3) by (cases d) auto
  then show ?case by (simp add: unfold_value.simps)
next
  case (Cons b l)
  then have "b \<noteq> CR" "b \<noteq> LF" "line_ok l" by (auto simp: line_ok_def dest: line_value_no_crlf)
  moreover have "\<not> fold_ahead (b # l @ CRLF @ d)" using \<open>b \<noteq> LF\<close> by (cases l) auto
  ultimately show ?case using Cons.IH by (simp add: unfold_value.simps(2) [of b])
qed

lemma field_line_starts: "valid_name n \<Longrightarrow> \<exists>b l. field_line (n, v) = b # l \<and> \<not> is_ows b"
  by (cases n) (auto simp: field_line_def valid_name_def is_ows_def dest: is_token_byte_no_delim)

lemma section_starts:
  assumes "\<forall>(name, value) \<in> set t. valid_name name \<and> valid_value value"
  shows "trailer_section t \<noteq> []" and "\<not> is_ows (hd (trailer_section t))"
proof -
  have "trailer_section t \<noteq> [] \<and> \<not> is_ows (hd (trailer_section t))"
  proof (cases t)
    case Nil
    then show ?thesis by (simp add: trailer_section_def is_ows_def)
  next
    case (Cons h hs)
    with assms field_line_starts [of "fst h" "snd h"] obtain b l where "field_line h = b # l" "\<not> is_ows b" by auto
    with Cons show ?thesis by (simp add: trailer_section_def)
  qed
  then show "trailer_section t \<noteq> []" "\<not> is_ows (hd (trailer_section t))" by simp_all
qed

lemma unfold_section:
  assumes "\<forall>(name, value) \<in> set t. valid_name name \<and> valid_value value" and "rest = [] \<or> \<not> is_ows (hd rest)"
  shows "unfold_value (trailer_section t @ rest) = trailer_section t @ unfold_value rest"
  using assms(1)
proof (induction t)
  case Nil
  have "\<not> fold_ahead (LF # rest)" using assms(2) by (cases rest) auto
  then show ?case by (simp add: trailer_section_def unfold_value.simps)
next
  case (Cons h t)
  have ok: "line_ok (field_line h)" using line_ok_fields [OF Cons.prems, of "field_line h"] by simp
  have split: "trailer_section (h # t) @ rest = field_line h @ CRLF @ trailer_section t @ rest" by (simp add: trailer_section_def)
  have starts: "trailer_section t \<noteq> []" "\<not> is_ows (hd (trailer_section t))" using section_starts [of t] Cons.prems by auto
  then have "unfold_value (field_line h @ CRLF @ trailer_section t @ rest) = field_line h @ CRLF @ unfold_value (trailer_section t @ rest)"
    by (intro unfold_line [OF ok]) simp_all
  with Cons split show ?case by (simp add: trailer_section_def)
qed

lemma nothing_folded: "(if uf then normalize_obs_fold [] else []) = []"
  by (cases uf) (simp_all add: normalize_obs_fold_eq)

section \<open>Reading the section\<close>

lemma parse_written_trailers:
  assumes t: "validate_trailers t = Inr ()" and "uf \<longrightarrow> rest = [] \<or> \<not> is_ows (hd rest)" and "length (trailer_section t) \<le> mb"
    and hp: "parses_trailers hp t (if uf then normalize_obs_fold rest else rest) mh"
  shows "parse_trailers hp (trailer_section t @ rest) mb mh uf = Inr (Some (length (trailer_section t), t))"
proof -
  note valid = validate_trailers_Inr [OF t]
  have "(if uf then normalize_obs_fold (trailer_section t @ rest) else trailer_section t @ rest)
      = trailer_section t @ (if uf then normalize_obs_fold rest else rest)"
    using unfold_section [OF valid, of rest] assms(2) by (simp add: normalize_obs_fold_eq)
  moreover have "length (header_slots mh) = mh" by (simp add: header_slots_def)
  ultimately show ?thesis
    using assms(3) hp unfolding parse_trailers_def Let_def poll_section [OF valid]
    by (simp add: parses_trailers_def copy_headers_def)
qed

lemma trailers_received:
  assumes at: "at_chunk c (bytes ''0'' @ CRLF @ trailer_section t @ rest)" and t: "validate_trailers t = Inr ()"
    and lim: "length (trailer_section t) \<le> max_head_bytes (limits c)"
    and role: "conn_role c = Client \<longrightarrow> rest = [] \<or> \<not> is_ows (hd rest)"
    and hp: "parses_trailers hp t (if conn_role c = Client then normalize_obs_fold rest else rest) (max_header_count (limits c))"
  shows "\<exists>c'. next_event hp c = (end_event t, c') \<and> conn_reader c' = R_Head \<and> unread c' = rest \<and> progress c' = None"
proof -
  have "1 \<le> max_head_bytes (limits c)" using lim section_starts [OF validate_trailers_Inr [OF t]] by (cases "trailer_section t") auto
  with at obtain c2 where c2: "next_event_inner hp c = read_trailers hp c2"
    "receiving_body c2 (R_Chunked Ck_Trailers) (trailer_section t @ rest)" "same_terms c c2"
    by (rule last_chunk_read)
  let ?c3 = "c2\<lparr>input := buffer_consume (input c2) (length (trailer_section t)), progress := None\<rparr>"
  have terms: "limits c2 = limits c" "conn_role c2 = conn_role c" using c2(3) by (simp_all add: same_terms_def)
  have nonempty: "trailer_section t @ rest \<noteq> []" using section_starts [OF validate_trailers_Inr [OF t]] by simp
  have "parse_trailers hp (trailer_section t @ rest) (max_head_bytes (limits c)) (max_header_count (limits c)) (conn_role c = Client)
      = Inr (Some (length (trailer_section t), t))"
    using t role lim hp by (rule parse_written_trailers)
  then have "next_event_inner hp c = finish_peer t ?c3"
    using c2(1,2) terms by (simp add: read_trailers_def section_ready_def receiving_body_def)
  moreover have "\<exists>c'. finish_peer t ?c3 = (end_event t, c') \<and> conn_reader c' = R_Head \<and> unread c' = rest \<and> progress c' = None"
    using finish_peer_legal [of ?c3 t] c2(2) by (auto simp: receiving_body_def)
  ultimately show ?thesis by (auto simp: next_event_Inr)
qed

lemma sample_parses_trailers:
  assumes "validate_trailers t = Inr ()" and "length t \<le> slots"
  shows "parses_trailers sample_httparse t rest slots"
proof -
  note valid = validate_trailers_Inr [OF assms(1)]
  have "sample_lines (trailer_section t) = map field_line t"
    unfolding trailer_section_def using line_ok_fields [OF valid] by (intro sample_lines_unlines) blast
  then show ?thesis
    using sample_fields_lines [OF valid assms(2)] poll_section [OF valid, of rest]
    by (simp add: parses_trailers_def sample_httparse_def sample_parse_headers_def)
qed

section \<open>From end to end\<close>



end
