(* ===== verification/Endpoints.thy ===== *)
theory Endpoints
  imports Session Trailers
begin

text \<open>
  The two ends of a transport.  A client and a server connection see the same lifecycle from opposite
  sides, and the relation \<open>matched\<close> says that they agree on it: on the joint state, on what is known of
  the request and of the protocols offered, and on where in the current messages each reader stands.
  This theory shows that every head keeps it: when one side sends a request, an informational or a
  final response, the other side reports that message and the two still match.
\<close>

section \<open>Hearing\<close>

text \<open>One poll, which has to report an event; and an arrival followed by one poll.  No bytes at all are the
  end of the transport.\<close>

definition polls :: "'e httparse \<Rightarrow> Connection \<Rightarrow> (Event \<times> Connection) option" where
  "polls hp l =
     unwrap_call (next_event hp l) \<bind> (\<lambda>(result, l). case result of NE_Event e \<Rightarrow> Some (e, l) | _ \<Rightarrow> None)"

definition hears :: "'e httparse \<Rightarrow> u8 list \<Rightarrow> Connection \<Rightarrow> (Event \<times> Connection) option" where
  "hears hp wire l = unwrap_call (receive_data wire l) \<bind> (\<lambda>(_, l). polls hp l)"

section \<open>Endpoints that match\<close>

text \<open>A reader that has taken everything the writer wrote so far.  After a chunk the line end behind its
  data is still unread.\<close>

fun caught_up :: "Framing \<Rightarrow> Reader \<Rightarrow> u8 list \<Rightarrow> bool" where
  "caught_up (F_Fixed n) r d \<longleftrightarrow> r = R_Fixed n \<and> d = []"
| "caught_up F_CloseDelimited r d \<longleftrightarrow> r = R_CloseDelimited \<and> d = []"
| "caught_up F_Chunked r d \<longleftrightarrow> r = R_Chunked (Ck_Size 0) \<and> d = [] \<or> r = R_Chunked Ck_DataEnd \<and> d = CRLF"

definition agree :: "Connection \<Rightarrow> Connection \<Rightarrow> bool" where
  "agree a b \<longleftrightarrow>
     conn_state a = conn_state b \<and> request_kind a = request_kind b \<and> upgrade_proposals a = upgrade_proposals b
     \<and> continue_before_upgrade a = continue_before_upgrade b"

definition in_place :: "Connection \<Rightarrow> Connection \<Rightarrow> bool" where
  "in_place l w \<longleftrightarrow>
     progress l = None
     \<and> (if local_state w = SendBody then \<exists>f. writer w = Some f \<and> caught_up f (conn_reader l) (unread l)
        else unread l = [])"

text \<open>The reader \<open>l\<close> follows the writer \<open>w\<close>: the transport ends only behind a last message, which is also the
  only one whose end is the end of the connection; and a server that has not answered yet knows it when
  its client waits for a 100 response.\<close>

definition follows :: "Connection \<Rightarrow> Connection \<Rightarrow> bool" where
  "follows l w \<longleftrightarrow>
     in_place l w \<and> connection_inv l
     \<and> (eof l \<longrightarrow> local_state w \<in> {MustClose, Closed})
     \<and> (writer w = Some F_CloseDelimited \<longrightarrow> conn_role w = Server \<and> \<not> keep_alive (conn_state w))
     \<and> (conn_role w = Client \<and> local_state l = SendResponse \<and> waiting_for_continue w \<longrightarrow> waiting_for_continue l)"

definition matched :: "Connection \<Rightarrow> Connection \<Rightarrow> bool" where
  "matched a b \<longleftrightarrow> conn_role b = peer (conn_role a) \<and> agree a b \<and> follows a b \<and> follows b a"

lemma matched_sym: "matched a b \<longleftrightarrow> matched b a"
  by (cases "conn_role a"; cases "conn_role b") (auto simp: matched_def agree_def)

lemma matched_states:
  assumes "matched w l"
  shows "conn_state l = conn_state w" "peer_state l = local_state w" "peer_state w = local_state l"
    "conn_role l = peer (conn_role w)" "legal_configuration (conn_state w)"
  using assms by (cases "conn_role w"; auto simp: matched_def agree_def follows_def connection_inv_def peer_state_def local_state_def)+

section \<open>The other side of an event\<close>

text \<open>What a lifecycle step of one actor leaves of the other.\<close>

definition undisturbed :: "Role \<Rightarrow> ConnectionState \<Rightarrow> ConnectionState \<Rightarrow> bool" where
  "undisturbed r st st' \<longleftrightarrow>
     side_kept (state st r) (state st' r)
     \<and> (state st r \<in> {MustClose, Closed} \<longrightarrow> state st' r \<in> {MustClose, Closed})
     \<and> (\<not> keep_alive st \<longrightarrow> \<not> keep_alive st')"

lemma undisturbed_trans: "undisturbed r a b \<Longrightarrow> undisturbed r b c \<Longrightarrow> undisturbed r a c"
  by (auto simp: undisturbed_def intro: side_kept_trans)

lemma undisturbed_refl [simp]: "undisturbed r a a"
  by (simp add: undisturbed_def)

lemma closing_pass: "state st r \<in> {MustClose, Closed} \<Longrightarrow> state (stabilize_pass st) r \<in> {MustClose, Closed}"
  by (cases r) (auto simp: stabilize_pass_defs Let_def)

lemma undisturbed_disable: "undisturbed r st (disable_keep_alive st)"
proof -
  have "state (st\<lparr>keep_alive := False\<rparr>) r = state st r" by (cases r) simp_all
  then show ?thesis
    using closing_pass [of "st\<lparr>keep_alive := False\<rparr>" r] side_kept_disable [of st r]
    by (auto simp: undisturbed_def disable_keep_alive_def stabilize_eq_pass)
qed

lemma undisturbed_event:
  assumes "process_event st r e = (Inr (), st')"
  shows "undisturbed (peer r) st st'"
proof -
  from assms obtain t d where t: "direct_contract r (state st r) e t" and d: "joint_effect r e (state st r) st = Some d"
    and st': "st' = stabilize_pass (set_state r t d)"
    by (auto simp: process_event_Inr)
  have "state st (peer r) \<in> {MustClose, Closed} \<Longrightarrow> state (set_state r t d) (peer r) = state st (peer r)"
    using d t by (cases r; cases e) (auto simp: direct_contract.simps Let_def split: if_splits)
  moreover have "\<not> keep_alive st \<Longrightarrow> \<not> keep_alive (set_state r t d)"
    using d by (cases r; cases e) (auto simp: Let_def split: if_splits)
  ultimately show ?thesis
    using closing_pass [of "set_state r t d" "peer r"] side_kept_event [OF assms] by (auto simp: undisturbed_def st')
qed

lemma keep_alive_event: "process_event st r e = (Inr (), st') \<Longrightarrow> keep_alive st' \<Longrightarrow> keep_alive st"
  using undisturbed_event [of st r e st'] by (auto simp: undisturbed_def)

lemma undisturbed_persistence: "undisturbed r (conn_state c) (conn_state (apply_persistence v hs c))"
  by (simp add: apply_persistence_def Let_def undisturbed_disable)

text \<open>A step of the dialogue: the speaker's reading side and the listener's writing side stay as they are.\<close>

lemma matched_step:
  assumes "matched w l"
    and w': "conn_role w' = conn_role w" "conn_reader w' = conn_reader w" "input w' = input w" "progress w' = progress w"
      "eof w' = eof w" "connection_inv w'"
    and l': "conn_role l' = conn_role l" "writer l' = writer l" "connection_inv l'"
    and "agree w' l'" and "undisturbed (conn_role l) (conn_state l) (conn_state l')"
    and "in_place l' w'" and "eof l' \<longrightarrow> local_state w' \<in> {MustClose, Closed}"
    and "writer w' = Some F_CloseDelimited \<longrightarrow> conn_role w = Server \<and> \<not> keep_alive (conn_state w')"
    and "conn_role w = Client \<and> local_state l' = SendResponse \<and> waiting_for_continue w' \<longrightarrow> waiting_for_continue l'"
    and "conn_role l = Client \<and> local_state w' = SendResponse \<and> waiting_for_continue l' \<longrightarrow> waiting_for_continue w'"
  shows "matched w' l'"
proof -
  have kept: "local_state l' = SendBody \<longleftrightarrow> local_state l = SendBody"
    "local_state l \<in> {MustClose, Closed} \<longrightarrow> local_state l' \<in> {MustClose, Closed}"
    using assms(12) l'(1) by (auto simp: undisturbed_def local_state_def side_kept_def)
  have "in_place w' l'" using assms(1) w' l' kept(1) by (simp add: matched_def follows_def in_place_def)
  moreover have "eof w' \<longrightarrow> local_state l' \<in> {MustClose, Closed}"
    using assms(1) w'(5) kept(2) by (auto simp: matched_def follows_def)
  moreover have "writer l' = Some F_CloseDelimited \<longrightarrow> conn_role l' = Server \<and> \<not> keep_alive (conn_state l')"
  proof -
    have "writer l = Some F_CloseDelimited \<longrightarrow> conn_role l = Server \<and> \<not> keep_alive (conn_state l)"
      using assms(1) unfolding matched_def follows_def by blast
    with assms(12) l'(1,2) show ?thesis by (auto simp: undisturbed_def)
  qed
  ultimately show ?thesis
    using assms by (simp add: matched_def follows_def)
qed

section \<open>What is heard\<close>

lemma unwrap_call_Some: "unwrap_call m = Some (x, c) \<longleftrightarrow> m = (Inr x, c)"
  by (cases m) (auto simp: unwrap_call_def split: sum.split)

lemma polls_Some: "polls hp l = Some (e, l') \<longleftrightarrow> next_event hp l = (Inr (NE_Event e), l')"
proof -
  have "(case x of NE_Event e \<Rightarrow> Some (e, d) | _ \<Rightarrow> None) = Some (e, l') \<longleftrightarrow> x = NE_Event e \<and> d = l'" for x d
    by (cases x) auto
  then show ?thesis by (auto simp: polls_def unwrap_call_Some bind_eq_Some_conv)
qed

lemma hears_Some:
  "hears hp wire l = Some (e, l') \<longleftrightarrow> (\<exists>d. receive_data wire l = (Inr (), d) \<and> next_event hp d = (Inr (NE_Event e), l'))"
  by (auto simp: hears_def unwrap_call_Some bind_eq_Some_conv polls_Some)

lemma hears_event:
  "receive_data wire l = (Inr (), d) \<Longrightarrow> next_event hp d = (Inr (NE_Event e), l') \<Longrightarrow> hears hp wire l = Some (e, l')"
  by (auto simp: hears_Some)

lemma hears_inv: "hears hp wire l = Some (e, l') \<Longrightarrow> httparse_ok hp \<Longrightarrow> connection_inv l \<Longrightarrow> connection_inv l'"
  using connection_inv_call [of hp l "A_ReceiveData wire"] connection_inv_call [of hp "snd (receive_data wire l)" A_NextEvent]
  by (auto simp: hears_Some)

lemma matched_inv: "matched w l \<Longrightarrow> connection_inv w" "matched w l \<Longrightarrow> connection_inv l"
  by (simp_all add: matched_def follows_def)

lemma still_open: "matched w l \<Longrightarrow> local_state w \<notin> {MustClose, Closed} \<Longrightarrow> \<not> eof l"
  by (auto simp: matched_def follows_def)

lemma arrives:
  assumes "matched w l" and "local_state w \<notin> {MustClose, Closed}" and "out \<noteq> []"
  obtains d where "receive_data out l = (Inr (), d)" and "connection_inv d" and "unread d = unread l @ out"
    and "d = l\<lparr>input := buffer_extend (input l) out\<rparr>"
proof -
  have l: "connection_inv l" "\<not> eof l" using assms(1,2) by (auto simp: matched_def follows_def)
  obtain d where d: "receive_data out l = (Inr (), d)" "connection_inv d" "unread d = unread l @ out"
    using receive_data_waiting [OF l assms(3)] by metis
  moreover have "d = l\<lparr>input := buffer_extend (input l) out\<rparr>" using d(1) l(2) assms(3) by (simp add: receive_data_def)
  ultimately show thesis by (rule that)
qed

text \<open>A listener before a head.\<close>

lemma before_head:
  assumes "matched w l" and "local_state w \<in> {Idle, SendResponse}"
  shows "unread l = []" "conn_reader l = R_Head" "progress l = None"
proof -
  note peer = matched_states(2) [OF assms(1)]
  from assms(1) have l: "in_place l w" "receive_inv l" by (simp_all add: matched_def follows_def connection_inv_def)
  show "unread l = []" "progress l = None" using l(1) assms(2) by (auto simp: in_place_def)
  have "peer_state l \<in> {Idle, SendResponse}" using assms(2) by (simp add: peer)
  with l(2) show "conn_reader l = R_Head" by (auto simp: receive_inv_def receive_ok_def reader_aligned_def split: if_splits)
qed

lemma head_polled:
  assumes "conn_reader d = R_Head" and "progress d = None" and "peer_state d \<in> {Idle, SendResponse}" and "unread d \<noteq> []"
  shows "next_event_inner hp d = read_head hp d" and "section_ready True d = (True, d)"
  using assms by (auto simp: next_event_inner.simps peer_state_return_def section_ready_def)

lemma read_written_request:
  assumes "conn_role d = Server" and "section_ready True d = (True, d)" and "unread d = serialize_request q"
    and "valid_method (req_method q)" and "length (serialize_request q) \<le> max_head_bytes (limits d)"
    and "parses_request hp q [] (max_header_count (limits d))"
  shows "read_head hp d = accept_request q (d\<lparr>input := buffer_consume (input d) (length (unread d)), progress := None\<rparr>)"
  using parse_written_request [OF assms(6,4,5)] assms(1-3) by (simp add: read_head_def)

lemma read_written_response:
  assumes "conn_role d = Client" and "section_ready True d = (True, d)" and "unread d = written q"
    and "valid_status (resp_status q)" and "validate_headers (resp_headers q) = Inr ()" and "validate_reason (resp_reason q) = Inr ()"
    and "length (written q) \<le> max_head_bytes (limits d)" and "parses_response hp q [] (max_header_count (limits d))"
  shows "read_head hp d = accept_response q (d\<lparr>input := buffer_consume (input d) (length (unread d)), progress := None\<rparr>)"
  using parse_written_response [OF assms(8,4,5,6,7)] assms(1-3) by (simp add: read_head_def)

text \<open>The connection that accepts a head which has arrived at an attentive listener.\<close>

definition accepting :: "Connection \<Rightarrow> u8 list \<Rightarrow> Connection" where
  "accepting l out =
     l\<lparr>input := buffer_consume (buffer_extend (input l) out) (length out), progress := None\<rparr>"

lemma accepting_fields [simp]:
  "conn_state (accepting l out) = conn_state l" "conn_role (accepting l out) = conn_role l" "limits (accepting l out) = limits l"
  "request_kind (accepting l out) = request_kind l" "writer (accepting l out) = writer l" "eof (accepting l out) = eof l"
  "upgrade_proposals (accepting l out) = upgrade_proposals l" "progress (accepting l out) = None"
  "waiting_for_continue (accepting l out) = waiting_for_continue l" "peer_state (accepting l out) = peer_state l"
  "continue_before_upgrade (accepting l out) = continue_before_upgrade l" "conn_reader (accepting l out) = conn_reader l"
  by (simp_all add: accepting_def peer_state_def)

lemma accepting_unread: "buffer_wf (input l) \<Longrightarrow> unread l = [] \<Longrightarrow> unread (accepting l out) = []"
  by (simp add: accepting_def as_slice_extend)

lemma request_polled:
  assumes "matched c s" and "local_state c = Idle" and "conn_role s = Server" and "out = serialize_request q"
    and "valid_method (req_method q)" and "length out \<le> max_head_bytes (limits s)" and "parses_request hp q [] (max_header_count (limits s))"
    and "accept_request q (accepting s out) = (Inr (NE_Event e), s')"
  shows "hears hp out s = Some (e, s')"
proof -
  have ne: "out \<noteq> []" by (simp add: assms(4) serialize_request_unlines)
  obtain d where d: "receive_data out s = (Inr (), d)" "unread d = unread s @ out" "d = s\<lparr>input := buffer_extend (input s) out\<rparr>"
    using assms(1) _ ne by (rule arrives) (simp add: assms(2))
  note head = before_head [OF assms(1)]
  have u: "unread d = out" using d(2) head(1) assms(2) by simp
  note polled = head_polled(1) [of d hp] head_polled(2) [of d]
  have ready: "next_event_inner hp d = read_head hp d" "section_ready True d = (True, d)"
    using polled head assms(2) matched_states(2) [OF assms(1)] u ne by (simp_all add: d(3) peer_state_def)
  have "read_head hp d = accept_request q (accepting s out)"
    using read_written_request [of d q hp] ready(2) u assms by (simp add: d(3) accepting_def)
  with assms(8) ready(1) hears_event [OF d(1)] show ?thesis by (simp add: next_event_Inr)
qed

lemma response_polled:
  assumes "matched s c" and "local_state s \<in> {Idle, SendResponse}" and "conn_role c = Client" and "out = written q"
    and "valid_status (resp_status q)" and "validate_headers (resp_headers q) = Inr ()" and "validate_reason (resp_reason q) = Inr ()"
    and "length out \<le> max_head_bytes (limits c)" and "parses_response hp q [] (max_header_count (limits c))"
    and "accept_response q (accepting c out) = (Inr (NE_Event e), c')"
  shows "hears hp out c = Some (e, c')"
proof -
  have ne: "out \<noteq> []" by (simp add: assms(4) serialize_response_unlines)
  obtain d where d: "receive_data out c = (Inr (), d)" "unread d = unread c @ out" "d = c\<lparr>input := buffer_extend (input c) out\<rparr>"
    using assms(1) _ ne by (rule arrives) (use assms(2) in auto)
  note head = before_head [OF assms(1,2)]
  have u: "unread d = out" using d(2) head(1) by simp
  note polled = head_polled(1) [of d hp] head_polled(2) [of d]
  have ready: "next_event_inner hp d = read_head hp d" "section_ready True d = (True, d)"
    using polled head assms(2) matched_states(2) [OF assms(1)] u ne by (auto simp: d(3) peer_state_def)
  have "read_head hp d = accept_response q (accepting c out)"
    using read_written_response [of d q hp] ready(2) u assms by (simp add: d(3) accepting_def)
  with assms(10) ready(1) hears_event [OF d(1)] show ?thesis by (simp add: next_event_Inr)
qed

section \<open>Heads\<close>

definition persisted :: "Version \<Rightarrow> Header list \<Rightarrow> ConnectionState \<Rightarrow> ConnectionState" where
  "persisted v hs st =
     (if v = Http11 \<and> \<not> has_token hs (bytes ''connection'') (bytes ''close'') then st else disable_keep_alive st)"

lemma persistence_state: "apply_persistence v hs c = c\<lparr>conn_state := persisted v hs (conn_state c)\<rparr>"
  by (cases c) (simp add: apply_persistence_def persisted_def Let_def)

lemma undisturbed_persisted: "undisturbed r st (persisted v hs st)"
  by (simp add: persisted_def undisturbed_disable)

lemma framing_not_open: "framing hs v = Inr f \<Longrightarrow> f \<noteq> F_CloseDelimited"
  by (auto simp: framing_def Let_def split: if_splits option.splits)

lemma caught_up_reader: "caught_up f (reader f) []"
  by (cases f) simp_all

lemma request_accepted:
  assumes "validate_request q = Inr ()" and "framing (req_headers q) (req_http_version q) = Inr f"
    and "process_event (conn_state s) (peer (conn_role s)) (SE_Request (from_flags (as_bytes (req_method q) = bytes ''CONNECT'')
      (proposed_upgrades (req_http_version q) (req_headers q) \<noteq> []))) = (Inr (), st)"
  shows "accept_request q s = (Inr (NE_Event (Ev_Request q)), s\<lparr>conn_state := persisted (req_http_version q) (req_headers q) st,
      request_kind := Some (from_method (as_bytes (req_method q))),
      waiting_for_continue := expects_continue (req_http_version q) (req_headers q) f,
      continue_before_upgrade := expects_continue (req_http_version q) (req_headers q) f
        \<and> proposed_upgrades (req_http_version q) (req_headers q) \<noteq> [],
      upgrade_proposals := proposed_upgrades (req_http_version q) (req_headers q), peer_version := Some (req_http_version q),
      conn_reader := reader f\<rparr>)"
  using assms by (simp add: accept_request_def Let_def advance_peer_def persistence_state validate_request_Inr)

lemma request_uttered:
  assumes hp: "httparse_ok hp" and m: "matched c s" and role: "conn_role c = Client" and sent: "send_request q c = (Inr out, c')"
    and head: "valid_method (req_method q)" "length out \<le> max_head_bytes (limits s)" "parses_request hp q [] (max_header_count (limits s))"
  shows "\<exists>s'. hears hp out s = Some (Ev_Request q, s') \<and> matched c' s'"
proof -
  let ?ups = "proposed_upgrades (req_http_version q) (req_headers q)"
  from sent obtain f ups d where q: "validate_request q = Inr ()" "framing (req_headers q) (req_http_version q) = Inr f" "out = serialize_request q"
    and adv: "advance_local (SE_Request (from_flags (as_bytes (req_method q) = bytes ''CONNECT'') (ups \<noteq> []))) c = (Inr (), d)"
    and c': "c' = (apply_persistence (req_http_version q) (req_headers q) d)
      \<lparr>request_kind := Some (from_method (as_bytes (req_method q))), writer := Some f,
       waiting_for_continue := expects_continue (req_http_version q) (req_headers q) f,
       continue_before_upgrade := expects_continue (req_http_version q) (req_headers q) f \<and> ups \<noteq> [],
       upgrade_proposals := ups\<rparr>"
    by (rule send_request_Inr)
  have ups: "ups = ?ups" using sent_upgrades [OF sent] by (simp add: c')
  from adv obtain st t where st: "process_event (conn_state c) (conn_role c) (SE_Request (from_flags (as_bytes (req_method q) = bytes ''CONNECT'') (ups \<noteq> []))) = (Inr (), st)"
    and d: "d = c\<lparr>conn_state := st\<rparr>" and idle: "direct_contract (conn_role c) (local_state c) (SE_Request (from_flags (as_bytes (req_method q) = bytes ''CONNECT'') (ups \<noteq> []))) t"
    by (rule advance_local_Inr)
  have c: "local_state c = Idle" using idle by (auto simp: direct_contract.simps)
  note states = matched_states [OF m]
  have s: "conn_role s = Server" using states(4) role by simp
  define s' where "s' = (accepting s out)\<lparr>conn_state := persisted (req_http_version q) (req_headers q) st,
      request_kind := Some (from_method (as_bytes (req_method q))),
      waiting_for_continue := expects_continue (req_http_version q) (req_headers q) f,
      continue_before_upgrade := expects_continue (req_http_version q) (req_headers q) f \<and> ?ups \<noteq> [],
      upgrade_proposals := ?ups, peer_version := Some (req_http_version q), conn_reader := reader f\<rparr>"
  have "accept_request q (accepting s out) = (Inr (NE_Event (Ev_Request q)), s')"
    unfolding s'_def using st q s role states(1) by (intro request_accepted) (simp_all add: ups)
  with m c s q(3) head have heard: "hears hp out s = Some (Ev_Request q, s')" by (rule request_polled)
  have inv: "connection_inv c'" "connection_inv s'"
    using sent_inv_calls(1) [OF hp matched_inv(1) [OF m] sent] hears_inv [OF heard hp matched_inv(2) [OF m]] by simp_all
  have unread: "unread s' = []"
    using accepting_unread [of s out] matched_inv(2) [OF m] before_head(1) [OF m] c by (simp add: s'_def connection_inv_def)
  have "local_state c' = SendBody"
    using sent_request_body [OF sent q(2) states(5)] by (simp add: sending_body_def)
  then have place: "in_place s' c'" using unread by (simp add: in_place_def caught_up_reader c' s'_def)
  have kept: "undisturbed (conn_role s) (conn_state s) (conn_state s')"
    using undisturbed_trans [OF undisturbed_event [OF st] undisturbed_persisted] role s states(1) by (simp add: s'_def)
  have agreed: "agree c' s'" by (simp add: agree_def c' d s'_def persistence_state ups)
  have "matched c' s'"
    using inv(2) agreed kept place
    by (rule matched_step [OF m _ _ _ _ _ inv(1), rotated 7])
       (use still_open [OF m] c framing_not_open [OF q(2)] s in \<open>simp_all add: c' d s'_def persistence_state\<close>)
  with heard show ?thesis by blast
qed

lemma same_offers: "upgrade_proposals c = upgrade_proposals s \<Longrightarrow> valid_upgrade_response v hs c = valid_upgrade_response v hs s"
  by (simp only: valid_upgrade_response_def)

lemma sent_inv_info: "httparse_ok hp \<Longrightarrow> connection_inv c \<Longrightarrow> send_informational_response p c = (r, c1) \<Longrightarrow> connection_inv c1"
  using connection_inv_call [of hp c "A_SendInformationalResponse p"] by simp

lemma hint_uttered:
  assumes hp: "httparse_ok hp" and m: "matched s c" and role: "conn_role s = Server" and sent: "send_informational_response p s = (Inr out, s')"
    and head: "valid_status (resp_status p)" "length out \<le> max_head_bytes (limits c)" "parses_response hp p [] (max_header_count (limits c))"
  shows "\<exists>c'. hears hp out c = Some (Ev_InformationalResponse p, c') \<and> matched s' c'"
proof -
  from sent obtain d where info: "is_informational (resp_status p)" and p: "validate_headers (resp_headers p) = Inr ()" "validate_reason (resp_reason p) = Inr ()"
    and switch: "as_u16 (resp_status p) = 101 \<longrightarrow> \<not> continue_before_upgrade s \<and> valid_upgrade_response (resp_http_version p) (resp_headers p) s"
    and adv: "advance_local (info_event (resp_status p)) s = (Inr (), d)"
    and s': "s' = (if as_u16 (resp_status p) = 100 then d\<lparr>waiting_for_continue := False, continue_before_upgrade := False\<rparr> else d)"
    and out: "out = written p"
    by (rule send_informational_response_Inr)
  from adv obtain st t where st: "process_event (conn_state s) (conn_role s) (info_event (resp_status p)) = (Inr (), st)"
    and d: "d = s\<lparr>conn_state := st\<rparr>" and t: "direct_contract (conn_role s) (local_state s) (info_event (resp_status p)) t"
      "side_kept t (local_state d)"
    by (rule advance_local_Inr)
  have s: "local_state s = SendResponse" "t \<noteq> SendBody" using t(1) role by (auto simp: direct_contract.simps info_event_def split: if_splits)
  note states = matched_states [OF m]
  have c: "conn_role c = Client" using states(4) role by simp
  have same: "upgrade_proposals c = upgrade_proposals s" "continue_before_upgrade c = continue_before_upgrade s" "request_kind c = request_kind s"
    using m by (simp_all add: matched_def agree_def)
  define c' where "c' = after_info p ((accepting c out)\<lparr>conn_state := st\<rparr>)"
  have "accept_response p (accepting c out) = (Inr (NE_Event (Ev_InformationalResponse p)), c')"
    unfolding accept_response_info [OF info] c'_def
    using switch st same c role states(1) same_offers [of "accepting c out" s] by (simp add: advance_peer_def)
  with m _ c out head(1) p head(2,3) have heard: "hears hp out c = Some (Ev_InformationalResponse p, c')"
    by (rule response_polled) (simp add: s)
  have inv: "connection_inv s'" "connection_inv c'"
    using sent_inv_info [OF hp matched_inv(1) [OF m] sent] hears_inv [OF heard hp matched_inv(2) [OF m]] by simp_all
  have "unread c' = []"
    using accepting_unread [of c out] matched_inv(2) [OF m] before_head(1) [OF m] s(1) by (simp add: c'_def connection_inv_def)
  moreover have "local_state s' \<noteq> SendBody" using t(2) s(2) by (simp add: s' local_state_def side_kept_def)
  ultimately have place: "in_place c' s'" by (simp add: in_place_def c'_def)
  have kept: "undisturbed (conn_role c) (conn_state c) (conn_state c')"
    using undisturbed_event [OF st] role c states(1) by (simp add: c'_def after_info_def)
  have agreed: "agree s' c'" using same by (simp add: agree_def s' d c'_def after_info_def)
  have waits: "waiting_for_continue c \<longrightarrow> waiting_for_continue s" using m c s(1) by (simp add: matched_def follows_def)
  have closing: "writer s = Some F_CloseDelimited \<longrightarrow> \<not> keep_alive st"
    using m keep_alive_event [OF st] by (auto simp: matched_def follows_def)
  have "matched s' c'"
    using inv(2) agreed kept place
    by (rule matched_step [OF m _ _ _ _ _ inv(1), rotated 7])
       (use still_open [OF m] s c waits closing role in \<open>simp_all add: s' d c'_def after_info_def\<close>)
  with heard show ?thesis by blast
qed

text \<open>The framing and the fields of a final response, as both ends see them.\<close>

lemma open_ended_response:
  assumes "select_response_framing nb v hs s = Inr (F_CloseDelimited, hs', fc)"
  shows "fc \<and> \<not> nb"
  using assms framing_not_open by (fastforce simp: select_response_framing_def split: if_splits sum.splits)

lemma answer_sent:
  assumes "send_response p s = (Inr out, s')"
  obtains f st where "conn_role s = Server" and "\<not> is_informational (resp_status p)"
    and "validate_headers (written_fields p s) = Inr ()" and "validate_reason (resp_reason p) = Inr ()"
    and "out = serialize_response (resp_http_version p) (resp_status p) (resp_reason p) (written_fields p s)"
    and "if bodiless (resp_status p) s then f = F_Fixed 0 else response_framing (written_fields p s) (resp_http_version p) = Inr f"
    and "process_event (conn_state s) Server (decision_event (resp_status p) s) = (Inr (), st)"
    and "s' = s\<lparr>conn_state := persisted (resp_http_version p) (written_fields p s) st, writer := Some f, waiting_for_continue := False,
      continue_before_upgrade := False, upgrade_proposals := []\<rparr>"
    and "f = F_CloseDelimited \<longrightarrow> has_token (written_fields p s) (bytes ''connection'') (bytes ''close'')"
proof -
  from assms obtain f hs fc d where s: "conn_role s = Server" "\<not> is_informational (resp_status p)" "validate_reason (resp_reason p) = Inr ()"
    and sel: "select_response_framing (bodiless (resp_status p) s) (resp_http_version p)
      (drop_unusable_framing (resp_http_version p) (resp_headers p) s) s = Inr (f, hs, fc)"
    and adv: "advance_local (decision_event (resp_status p) s) s = (Inr (), d)"
    and s': "s' = (apply_persistence (resp_http_version p) (response_headers_out fc p hs s) d)
      \<lparr>writer := Some f, waiting_for_continue := False, continue_before_upgrade := False, upgrade_proposals := []\<rparr>"
    by (rule send_response_Inr)
  have fields: "written_fields p s = response_headers_out fc p hs s" by (simp add: written_fields_def sel)
  from assms obtain g where g: "out = serialize_response (resp_http_version p) (resp_status p) (resp_reason p) (written_fields p s)"
    "validate_headers (written_fields p s) = Inr ()" "writer s' = Some g"
    "if bodiless (resp_status p) s then g = F_Fixed 0 else response_framing (written_fields p s) (resp_http_version p) = Inr g"
    by (rule sent_response_fields)
  from adv obtain st where st: "process_event (conn_state s) (conn_role s) (decision_event (resp_status p) s) = (Inr (), st)" "d = s\<lparr>conn_state := st\<rparr>"
    by (rule advance_local_Inr)
  have close: "has_token (written_fields p s) (bytes ''connection'') (bytes ''close'')" if "f = F_CloseDelimited"
  proof -
    have "fc" "\<not> switches_connect (resp_status p) s"
      using open_ended_response [OF sel [unfolded that]] by (simp_all add: bodiless_def)
    then show ?thesis by (simp add: fields response_headers_out_close)
  qed
  show thesis
    by (rule that [of f st]) (use s g st close in \<open>simp_all add: s' persistence_state flip: fields\<close>)
qed

lemma persisted_close:
  assumes "has_token hs (bytes ''connection'') (bytes ''close'')"
  shows "disable_keep_alive (persisted v hs st) = persisted v hs st"
proof -
  let ?x = "stabilize_pass (st\<lparr>keep_alive := False\<rparr>)"
  have "?x\<lparr>keep_alive := keep_alive ?x\<rparr> = ?x" by (cases ?x) simp
  then have "?x\<lparr>keep_alive := False\<rparr> = ?x" by simp
  then have "stabilize_pass (?x\<lparr>keep_alive := False\<rparr>) = ?x" by (simp only: stabilize_pass_idem)
  moreover have "persisted v hs st = ?x" using assms by (simp add: persisted_def disable_keep_alive_def stabilize_eq_pass)
  ultimately show ?thesis by (simp only: disable_keep_alive_def stabilize_eq_pass)
qed

lemma answer_accepted:
  assumes "conn_role c = Client" and "\<not> is_informational (resp_status q)"
    and "process_event (conn_state c) Server (decision_event (resp_status q) c) = (Inr (), st)"
    and "if bodiless (resp_status q) c then f = F_Fixed 0 else response_framing (resp_headers q) (resp_http_version q) = Inr f"
    and "f = F_CloseDelimited \<longrightarrow> has_token (resp_headers q) (bytes ''connection'') (bytes ''close'')"
  shows "accept_response q c = (Inr (NE_Event (Ev_Response q)), c\<lparr>conn_state := persisted (resp_http_version q) (resp_headers q) st,
      peer_version := Some (resp_http_version q), waiting_for_continue := False, continue_before_upgrade := False,
      upgrade_proposals := [], conn_reader := reader f\<rparr>)"
proof -
  have "(if bodiless (resp_status q) c then Inr (F_Fixed 0) else response_framing (resp_headers q) (resp_http_version q)) = Inr f"
    using assms(4) by (auto split: if_splits)
  then show ?thesis
    unfolding accept_response_final [OF assms(2)]
    using assms(1,3,5) by (cases c) (auto simp: advance_peer_def after_response_def persistence_state persisted_close)
qed

lemma answer_uttered:
  assumes hp: "httparse_ok hp" and m: "matched s c" and sent: "send_response p s = (Inr out, s')"
    and head: "valid_status (resp_status p)" "length out \<le> max_head_bytes (limits c)"
      "parses_response hp (p\<lparr>resp_headers := written_fields p s\<rparr>) [] (max_header_count (limits c))"
  shows "\<exists>c'. hears hp out c = Some (Ev_Response (p\<lparr>resp_headers := written_fields p s\<rparr>), c') \<and> matched s' c'"
proof -
  let ?hs = "written_fields p s" and ?q = "p\<lparr>resp_headers := written_fields p s\<rparr>"
  from sent obtain f st where role: "conn_role s = Server" and p: "\<not> is_informational (resp_status p)"
    "validate_headers ?hs = Inr ()" "validate_reason (resp_reason p) = Inr ()"
    and out: "out = serialize_response (resp_http_version p) (resp_status p) (resp_reason p) ?hs"
    and f: "if bodiless (resp_status p) s then f = F_Fixed 0 else response_framing ?hs (resp_http_version p) = Inr f"
    and st: "process_event (conn_state s) Server (decision_event (resp_status p) s) = (Inr (), st)"
    and s': "s' = s\<lparr>conn_state := persisted (resp_http_version p) ?hs st, writer := Some f, waiting_for_continue := False,
      continue_before_upgrade := False, upgrade_proposals := []\<rparr>"
    and close: "f = F_CloseDelimited \<longrightarrow> has_token ?hs (bytes ''connection'') (bytes ''close'')"
    by (rule answer_sent)
  have q: "valid_status (resp_status ?q)" "validate_headers (resp_headers ?q) = Inr ()" "validate_reason (resp_reason ?q) = Inr ()" "out = written ?q"
    using p head(1) out by simp_all
  obtain t where t: "direct_contract Server (state (conn_state s) Server) (decision_event (resp_status p) s) t" "side_kept t (state st Server)"
    using st by (rule own_event)
  have s: "local_state s \<in> {Idle, SendResponse}" using t(1) role by (auto simp: direct_contract.simps local_state_def split: if_splits)
  note states = matched_states [OF m]
  have c: "conn_role c = Client" "request_kind (accepting c out) = request_kind s" using states(4) role m by (simp_all add: matched_def agree_def)
  define c' where "c' = (accepting c out)\<lparr>conn_state := persisted (resp_http_version ?q) (resp_headers ?q) st,
      peer_version := Some (resp_http_version ?q), waiting_for_continue := False, continue_before_upgrade := False,
      upgrade_proposals := [], conn_reader := reader f\<rparr>"
  have "accept_response ?q (accepting c out) = (Inr (NE_Event (Ev_Response ?q)), c')"
    unfolding c'_def using c p(1) st f close states(1) same_kind [OF c(2), of "resp_status p"]
    by (intro answer_accepted) simp_all
  with m s c(1) q(4,1-3) head(2,3) have heard: "hears hp out c = Some (Ev_Response ?q, c')"
    by (rule response_polled)
  have inv: "connection_inv s'" "connection_inv c'"
    using sent_inv_calls(2) [OF hp matched_inv(1) [OF m] sent] hears_inv [OF heard hp matched_inv(2) [OF m]] by simp_all
  have "unread c' = []"
    using accepting_unread [of c out] matched_inv(2) [OF m] before_head(1) [OF m s] by (simp add: c'_def connection_inv_def)
  then have place: "in_place c' s'" by (simp add: in_place_def c'_def s' caught_up_reader)
  have kept: "undisturbed (conn_role c) (conn_state c) (conn_state c')"
    using undisturbed_trans [OF undisturbed_event [OF st] undisturbed_persisted] c states(1) by (simp add: c'_def)
  have agreed: "agree s' c'" using c(2) by (simp add: agree_def s' c'_def)
  have closing: "f = F_CloseDelimited \<longrightarrow> \<not> keep_alive (persisted (resp_http_version p) ?hs st)"
    using close by (simp add: persisted_def disable_keep_alive_def)
  have neof: "\<not> eof c" using still_open [OF m] s by auto
  have "matched s' c'"
    using inv(2) agreed kept place
    by (rule matched_step [OF m _ _ _ _ _ inv(1), rotated 7])
       (use neof c closing role in \<open>simp_all add: s' c'_def\<close>)
  with heard show ?thesis by blast
qed

end
