(* ===== verification/Dialogue.thy ===== *)
theory Dialogue
  imports Endpoints
begin

text \<open>
  Two endpoints in dialogue.  An application calls a sending method on one of them, the transport hands
  what was written to the other, and the other is polled once.  Every such utterance keeps the two
  connections matched, in whatever order the applications speak, refused calls, switches of protocol,
  connections that close and new cycles included; so nothing that one endpoint agrees to send is
  refused by the other, and a conversation of any length is reported as it was sent.
\<close>

section \<open>The program\<close>

datatype saying =
    Asks Request
  | Hints Response
  | Answers Response
  | Sends Role "u8 list"
  | Ends Role "Header list"
  | Closes Role
  | Cycles

type_synonym talk = "Event list \<times> Connection \<times> Connection"

text \<open>A call that is refused says nothing; neither does an empty piece of a body.\<close>

definition utter :: "'e httparse \<Rightarrow> (Connection \<Rightarrow> (u8 list) local_result) \<Rightarrow> Connection \<Rightarrow> Connection \<Rightarrow> talk option" where
  "utter hp send w l =
     (case send w of
        (Inl _, w) \<Rightarrow> Some ([], w, l)
      | (Inr out, w) \<Rightarrow>
          if out = [] then Some ([], w, l) else hears hp out l \<bind> (\<lambda>(e, l). Some ([e], w, l)))"

text \<open>The end of a message whose end is the end of the connection closes the transport.\<close>

definition utter_end :: "'e httparse \<Rightarrow> Header list \<Rightarrow> Connection \<Rightarrow> Connection \<Rightarrow> talk option" where
  "utter_end hp t w l =
     (case end_of_message t w of
        (Inl _, w) \<Rightarrow> Some ([], w, l)
      | (Inr out, w') \<Rightarrow>
          (if out = [] \<and> writer w \<noteq> Some F_CloseDelimited then polls hp l else hears hp out l)
            \<bind> (\<lambda>(e, l). Some ([e], w', l)))"

definition utter_close :: "'e httparse \<Rightarrow> Connection \<Rightarrow> Connection \<Rightarrow> talk option" where
  "utter_close hp w l =
     (case close w of
        (Inl _, w) \<Rightarrow> Some ([], w, l)
      | (Inr _, w) \<Rightarrow> hears hp [] l \<bind> (\<lambda>(e, l). Some ([e], w, l)))"

definition both_cycle :: "Connection \<Rightarrow> Connection \<Rightarrow> talk option" where
  "both_cycle c s =
     (case (start_next_cycle c, start_next_cycle s) of
        ((Inl _, c), (Inl _, s)) \<Rightarrow> Some ([], c, s)
      | ((Inr _, c), (Inr _, s)) \<Rightarrow> Some ([], c, s)
      | _ \<Rightarrow> None)"

fun turn :: "Role \<Rightarrow> (Connection \<Rightarrow> Connection \<Rightarrow> talk option) \<Rightarrow> Connection \<Rightarrow> Connection \<Rightarrow> talk option" where
  "turn Client f c s = f c s"
| "turn Server f c s = map_option (\<lambda>(es, s, c). (es, c, s)) (f s c)"

fun say :: "'e httparse \<Rightarrow> saying \<Rightarrow> Connection \<Rightarrow> Connection \<Rightarrow> talk option" where
  "say hp (Asks q) c s = turn Client (utter hp (send_request q)) c s"
| "say hp (Hints p) c s = turn Server (utter hp (send_informational_response p)) c s"
| "say hp (Answers p) c s = turn Server (utter hp (send_response p)) c s"
| "say hp (Sends r d) c s = turn r (utter hp (send_data d)) c s"
| "say hp (Ends r t) c s = turn r (utter_end hp t) c s"
| "say hp (Closes r) c s = turn r (utter_close hp) c s"
| "say hp Cycles c s = both_cycle c s"

section \<open>Bodies\<close>

lemma open_data:
  assumes "receiving_body c R_CloseDelimited d" and "d \<noteq> []"
  obtains c' where "next_event hp c = (data_event d False False, c')" and "receiving_body c' R_CloseDelimited []"
proof -
  define c' where "c' = c\<lparr>input := buffer_consume (input c) (length d)\<rparr>"
  from assms have "next_event_inner hp c = peer_data d False False c'"
    by (simp add: receiving_body_def next_event_inner.simps SendBody_goes_on read_close_delimited_def Let_def buffer_take_def c'_def)
  also have "\<dots> = (data_event d False False, c'\<lparr>waiting_for_continue := False\<rparr>)"
    using assms by (intro peer_data_legal) (simp_all add: receiving_body_def c'_def)
  finally have "next_event hp c = (data_event d False False, c'\<lparr>waiting_for_continue := False\<rparr>)" by (rule next_event_ok)
  then show thesis by (rule that) (use assms in \<open>simp_all add: receiving_body_def c'_def\<close>)
qed

lemma open_end:
  assumes "receiving_body c R_CloseDelimited []" and "eof c"
  shows "\<exists>c'. next_event hp c = (end_event [], c') \<and> conn_reader c' = R_Head \<and> unread c' = [] \<and> progress c' = None"
proof -
  from assms have "next_event_inner hp c = finish_peer [] c"
    by (simp add: receiving_body_def next_event_inner.simps SendBody_goes_on read_close_delimited_def)
  with finish_peer_legal [of c "[]"] assms(1) show ?thesis by (auto simp: receiving_body_def next_event_Inr)
qed

text \<open>A writer in the middle of a body, and the reader that follows it.\<close>

lemma body_pair:
  assumes "matched w l" and "local_state w = SendBody"
  obtains f where "sending_body w f" and "caught_up f (conn_reader l) (unread l)" and "peer_state l = SendBody"
    and "legal_configuration (conn_state l)" and "progress l = None" and "\<not> eof l"
proof -
  from assms obtain f where f: "writer w = Some f" "caught_up f (conn_reader l) (unread l)" "progress l = None"
    by (auto simp: matched_def follows_def in_place_def)
  with that [of f] assms matched_states [OF assms(1)] still_open [OF assms(1)] show thesis by (simp add: sending_body_def)
qed

text \<open>One more piece of the body reaches a reader that has caught up.\<close>

lemma piece_heard:
  assumes f: "data_framing f (length d) = Inr (g, prefix, suffix)" and l: "caught_up f (conn_reader l) u" "peer_state l = SendBody"
      "legal_configuration (conn_state l)" "progress l = None" "unread l = u @ prefix @ d @ suffix"
    and d: "d \<noteq> []" "length d < usize_limit" "length (format_hex (length d)) \<le> max_head_bytes (limits l)"
  obtains l' where "next_event hp l = (data_event d (f = F_Chunked) (f = F_Chunked), l')" and "caught_up g (conn_reader l') (unread l')"
    and "progress l' = None"
proof (cases f)
  case (F_Fixed n)
  with f have n: "length d \<le> n" "g = F_Fixed (n - length d)" "prefix = []" "suffix = []" by (auto simp: data_framing_def split: if_splits)
  with l F_Fixed have "receiving_body l (R_Fixed n) d" by (simp add: receiving_body_def)
  moreover have "n \<noteq> 0" using n(1) d(1) by (cases d) auto
  ultimately obtain l' where "next_event hp l = (data_event (take n d) False False, l')" "receiving_body l' (R_Fixed (n - length d)) (drop n d)"
    using d(1) by (rule fixed_data)
  with n F_Fixed that show thesis by (simp add: receiving_body_def)
next
  case F_Chunked
  with f d(1) have g: "g = F_Chunked" "prefix = format_hex (length d) @ CRLF" "suffix = CRLF" by (auto simp: data_framing_def)
  with l F_Chunked d(1) have "at_chunk l (chunk d @ [])" by (auto simp: at_chunk_def receiving_body_def chunk_def)
  then obtain l' where "next_event hp l = (data_event d True True, l')" "at_chunk l' []"
    using d by (rule chunk_received)
  with g F_Chunked that show thesis by (auto simp: at_chunk_def receiving_body_def)
next
  case F_CloseDelimited
  with f have g: "g = F_CloseDelimited" "prefix = []" "suffix = []" by (auto simp: data_framing_def)
  with l F_CloseDelimited have "receiving_body l R_CloseDelimited d" by (simp add: receiving_body_def)
  then obtain l' where "next_event hp l = (data_event d False False, l')" "receiving_body l' R_CloseDelimited []"
    using d(1) by (rule open_data)
  with g F_CloseDelimited that show thesis by (simp add: receiving_body_def)
qed

lemma sending_state: "send_data d w = (Inr out, w') \<Longrightarrow> local_state w = SendBody"
  "end_of_message t w = (Inr out, w') \<Longrightarrow> local_state w = SendBody"
  by (auto simp: send_data_def send_data_parts_def send_data_framing_def end_of_message_def and_then_Inr direct_contract.simps
      elim!: advance_local_Inr split: option.splits sum.splits prod.splits)

lemma data_uttered:
  assumes hp: "httparse_ok hp" and m: "matched w l" and sent: "send_data d w = (Inr out, w')"
    and d: "d \<noteq> []" "length d < usize_limit" "length (format_hex (length d)) \<le> max_head_bytes (limits l)"
  shows "\<exists>l' ch. ch = (writer w = Some F_Chunked) \<and> out \<noteq> []
    \<and> hears hp out l = Some (Ev_Data \<lparr>data_bytes = d, chunk_start = ch, chunk_end = ch\<rparr>, l') \<and> matched w' l'"
proof -
  note states = matched_states [OF m] and body = sending_state(1) [OF sent]
  obtain f where f: "sending_body w f" "caught_up f (conn_reader l) (unread l)" "peer_state l = SendBody"
    "legal_configuration (conn_state l)" "progress l = None" "\<not> eof l"
    using m body by (rule body_pair)
  from sent obtain g prefix suffix where g: "data_framing f (length d) = Inr (g, prefix, suffix)" "out = prefix @ d @ suffix"
    and w': "w' = w\<lparr>writer := Some g, waiting_for_continue := False\<rparr>"
    unfolding send_data_framed [OF f(1)] by (auto split: sum.splits prod.splits)
  have ne: "out \<noteq> []" using d(1) g(2) by simp
  obtain e where e: "receive_data out l = (Inr (), e)" "connection_inv e" "unread e = unread l @ out" "e = l\<lparr>input := buffer_extend (input l) out\<rparr>"
    using m _ ne by (rule arrives) (simp add: body)
  have el: "caught_up f (conn_reader e) (unread l)" "peer_state e = SendBody" "legal_configuration (conn_state e)" "progress e = None"
    "unread e = unread l @ prefix @ d @ suffix" "length (format_hex (length d)) \<le> max_head_bytes (limits e)" "writer w = Some f"
    using f d(3) e(3) g(2) by (simp_all add: e(4) peer_state_def sending_body_def)
  obtain l' where l': "next_event hp e = (data_event d (f = F_Chunked) (f = F_Chunked), l')" "caught_up g (conn_reader l') (unread l')" "progress l' = None"
    using g(1) el(1-5) d(1,2) el(6) by (rule piece_heard)
  note effect = data_effect [OF hp l'(1)] and carried = next_event_carried [OF hp e(2) l'(1)]
  have st: "conn_state l' = conn_state l"
    using effect(1) el(2,3) legal_data_event [of "conn_state e" "peer (conn_role e)"] by (simp add: accepted_as_def peer_state_def e(4))
  have kept: "request_kind l' = request_kind l" "writer l' = writer l" "upgrade_proposals l' = upgrade_proposals l"
    "continue_before_upgrade l' = continue_before_upgrade l" "conn_role l' = conn_role l" "\<not> eof l'"
    using effect(1,2) carried f(6) by (simp_all add: accepted_as_def notes_kept_def same_terms_def e(4))
  have "matched w' l'"
  proof (rule matched_step [OF m])
    show "connection_inv w'" by (rule sent_inv_calls(3) [OF hp matched_inv(1) [OF m] sent])
    show "in_place l' w'" using l'(2,3) body by (simp add: in_place_def w' local_state_def)
    show "agree w' l'" using m st kept by (simp add: agree_def matched_def w')
    show "writer w' = Some F_CloseDelimited \<longrightarrow> conn_role w = Server \<and> \<not> keep_alive (conn_state w')"
      using m el(7) g(1) by (auto simp: matched_def follows_def w' data_framing_def split: Framing.splits if_splits)
  qed (use kept carried effect(3) st in \<open>simp_all add: w'\<close>)
  with hears_event [OF e(1) l'(1)] ne el(7) show ?thesis by auto
qed

text \<open>The end of a message, and the trailers that a listener can take.\<close>

definition section_fits :: "'e httparse \<Rightarrow> Header list \<Rightarrow> Limits \<Rightarrow> bool" where
  "section_fits hp t lims \<longleftrightarrow>
     length (trailer_section t) \<le> max_head_bytes lims \<and> parses_trailers hp t [] (max_header_count lims)"

lemma end_sent:
  assumes "sending_body w f" and "end_of_message t w = (Inr out, w')"
  obtains st where "validate_trailers t = Inr ()" and "message_terminator f t = Inr out" and "process_event (conn_state w) (conn_role w) SE_EndOfMessage = (Inr (), st)"
    and "w' = w\<lparr>conn_state := st, writer := None, waiting_for_continue := False\<rparr>"
proof -
  from assms obtain d where "validate_trailers t = Inr ()" "message_terminator f t = Inr out" "advance_local SE_EndOfMessage w = (Inr (), d)"
    "w' = d\<lparr>writer := None, waiting_for_continue := False\<rparr>"
    by (auto simp: end_of_message_def sending_body_def and_then_Inr split: sum.splits)
  then show thesis by (elim advance_local_Inr) (simp add: that)
qed

lemma end_arrives:
  assumes "matched w l" and "local_state w \<notin> {MustClose, Closed}"
  obtains e where "(if out = [] \<and> f \<noteq> F_CloseDelimited then polls hp l else hears hp out l) = polls hp e" and "connection_inv e"
    and "unread e = unread l @ out" and "eof e \<longleftrightarrow> out = [] \<and> f = F_CloseDelimited" and "e = l\<lparr>input := input e, eof := eof e\<rparr>"
proof -
  have l: "connection_inv l" "\<not> eof l" using assms by (auto simp: matched_def follows_def)
  consider "out \<noteq> []" | "out = []" "f \<noteq> F_CloseDelimited" | "out = []" "f = F_CloseDelimited" by blast
  then show thesis
  proof cases
    case 1
    with assms obtain e where "receive_data out l = (Inr (), e)" "connection_inv e" "unread e = unread l @ out" "e = l\<lparr>input := buffer_extend (input l) out\<rparr>"
      by (rule arrives)
    with 1 l show thesis by (intro that [of e]) (simp_all add: hears_def unwrap_call_def)
  next
    case 2
    with l show thesis by (intro that [of l]) simp_all
  next
    case 3
    have "connection_inv (l\<lparr>eof := True\<rparr>)"
      using receive_data_inv [of l "[]"] l(1) by (simp add: connection_inv_def receive_data_def)
    with 3 l show thesis by (intro that [of "l\<lparr>eof := True\<rparr>"]) (simp_all add: hears_def unwrap_call_def receive_data_def)
  qed
qed

lemma end_heard:
  assumes "message_terminator f t = Inr out" and t: "validate_trailers t = Inr ()" and l: "caught_up f (conn_reader l) u" "peer_state l = SendBody"
      "legal_configuration (conn_state l)" "progress l = None" "unread l = u @ out"
    and "f = F_Chunked \<longrightarrow> section_fits hp t (limits l)" and "f = F_CloseDelimited \<longrightarrow> eof l"
  obtains l' where "next_event hp l = (end_event t, l')" and "unread l' = []" and "progress l' = None"
proof (cases f)
  case (F_Fixed n)
  with assms(1) have n: "n = 0" "out = []" "t = []" by (auto simp: message_terminator_def split: if_splits)
  with l F_Fixed have "receiving_body l (R_Fixed 0) []" by (simp add: receiving_body_def)
  from fixed_end [OF this, of hp] n that show thesis by blast
next
  case F_Chunked
  with assms(1) have "out = bytes ''0'' @ CRLF @ trailer_section t" by (simp add: terminator_section)
  with l F_Chunked have "at_chunk l (bytes ''0'' @ CRLF @ trailer_section t @ [])" by (auto simp: at_chunk_def receiving_body_def)
  then show thesis using trailers_received [of l t "[]" hp] t assms(8) F_Chunked that by (auto simp: nothing_folded section_fits_def)
next
  case F_CloseDelimited
  with assms(1) have "out = []" "t = []" by (auto simp: message_terminator_def split: if_splits)
  with l F_CloseDelimited have "receiving_body l R_CloseDelimited []" by (simp add: receiving_body_def)
  from open_end [OF this, of hp] F_CloseDelimited assms(9) that \<open>t = []\<close> show thesis by blast
qed

lemma answer_over:
  assumes "process_event st Server SE_EndOfMessage = (Inr (), st')"
  shows "state st' Server \<in> {Done, MustClose}" and "\<not> keep_alive st \<Longrightarrow> state st' Server = MustClose"
proof -
  obtain cl sv k p where eq: "st = \<lparr>client = cl, server = sv, keep_alive = k, proposals = p\<rparr>" by (rule configuration_cases)
  from assms have st': "st' = stabilize_pass (set_state Server Done st)" by (auto simp: process_event_Inr direct_contract.simps)
  show "state st' Server \<in> {Done, MustClose}" "\<not> keep_alive st \<Longrightarrow> state st' Server = MustClose"
    unfolding st' unfolding eq by (cases cl; cases k; cases "p = NONE"; simp add: stabilize_pass_defs is_empty_iff)+
qed

text \<open>What the listener is left with: the lifecycle has taken the same step, and nothing else is changed but
  the reading side.\<close>

definition only_reads :: "ConnectionState \<Rightarrow> Connection \<Rightarrow> Connection \<Rightarrow> bool" where
  "only_reads st l l' \<longleftrightarrow>
     conn_state l' = st \<and> request_kind l' = request_kind l \<and> notes_kept l l' \<and> conn_role l' = conn_role l \<and> connection_inv l'"

lemma end_reported:
  assumes hp: "httparse_ok hp" and m: "matched w l" and sent: "end_of_message t w = (Inr out, w')" and f: "writer w = Some f"
    and st: "process_event (conn_state w) (conn_role w) SE_EndOfMessage = (Inr (), st)"
    and fits: "f = F_Chunked \<longrightarrow> section_fits hp t (limits l)"
  obtains l' where "utter_end hp t w l = Some ([Ev_EndOfMessage \<lparr>eom_trailers = t\<rparr>], w', l')" and "only_reads st l l'"
    and "unread l' = []" and "progress l' = None" and "eof l' \<longrightarrow> f = F_CloseDelimited"
proof -
  note states = matched_states [OF m] and body = sending_state(2) [OF sent]
  obtain g where g: "sending_body w g" "caught_up g (conn_reader l) (unread l)" "peer_state l = SendBody"
    "legal_configuration (conn_state l)" "progress l = None"
    using m body by (rule body_pair)
  have fg: "g = f" using f g(1) by (simp add: sending_body_def)
  obtain t: "validate_trailers t = Inr ()" and out: "message_terminator f t = Inr out" using g(1) sent unfolding fg by (rule end_sent)
  obtain e where e: "(if out = [] \<and> f \<noteq> F_CloseDelimited then polls hp l else hears hp out l) = polls hp e" "connection_inv e"
    "unread e = unread l @ out" "eof e \<longleftrightarrow> out = [] \<and> f = F_CloseDelimited" "e = l\<lparr>input := input e, eof := eof e\<rparr>"
    using m by (rule end_arrives) (simp add: body)
  have fields: "conn_reader e = conn_reader l" "conn_state e = conn_state l" "progress e = progress l" "limits e = limits l" "conn_role e = conn_role l"
    "request_kind e = request_kind l" "notes_kept l e"
    by (subst e(5), simp add: notes_kept_def)+
  have "f = F_CloseDelimited \<longrightarrow> out = []" using out by (auto simp: message_terminator_def split: if_splits)
  then have el: "caught_up f (conn_reader e) (unread l)" "peer_state e = SendBody" "legal_configuration (conn_state e)" "progress e = None"
    "f = F_Chunked \<longrightarrow> section_fits hp t (limits e)" "f = F_CloseDelimited \<longrightarrow> eof e"
    using g fits e(4) by (simp_all add: fields peer_state_def fg)
  obtain l' where l': "next_event hp e = (end_event t, l')" "unread l' = []" "progress l' = None"
    using out t el(1-4) e(3) el(5,6) by (rule end_heard)
  note effect = end_effect [OF hp l'(1)] and carried = next_event_carried [OF hp e(2) l'(1)]
  have "only_reads st l l'"
    using effect(1,2) carried st states(1,4) fields(7) by (simp add: only_reads_def accepted_as_def notes_kept_def same_terms_def fields)
  moreover have "eof l' \<longrightarrow> f = F_CloseDelimited" using carried e(4) by (simp add: same_terms_def)
  moreover have "polls hp e = Some (Ev_EndOfMessage \<lparr>eom_trailers = t\<rparr>, l')" using l'(1) by (simp add: polls_Some)
  then have "utter_end hp t w l = Some ([Ev_EndOfMessage \<lparr>eom_trailers = t\<rparr>], w', l')" using sent f e(1) by (simp add: utter_end_def)
  ultimately show thesis using l'(2,3) that by blast
qed

lemma end_uttered:
  assumes hp: "httparse_ok hp" and m: "matched w l" and sent: "end_of_message t w = (Inr out, w')"
    and fits: "writer w = Some F_Chunked \<longrightarrow> section_fits hp t (limits l)"
  shows "\<exists>l'. utter_end hp t w l = Some ([Ev_EndOfMessage \<lparr>eom_trailers = t\<rparr>], w', l') \<and> matched w' l'"
proof -
  note states = matched_states [OF m]
  obtain f where f: "sending_body w f" using m sending_state(2) [OF sent] by (rule body_pair)
  obtain st where st: "process_event (conn_state w) (conn_role w) SE_EndOfMessage = (Inr (), st)"
    and w': "w' = w\<lparr>conn_state := st, writer := None, waiting_for_continue := False\<rparr>"
    using f sent by (rule end_sent)
  have wf: "writer w = Some f" "f = F_Chunked \<longrightarrow> section_fits hp t (limits l)" using f fits by (simp_all add: sending_body_def)
  obtain l' where l': "utter_end hp t w l = Some ([Ev_EndOfMessage \<lparr>eom_trailers = t\<rparr>], w', l')" "only_reads st l l'"
    "unread l' = []" "progress l' = None" "eof l' \<longrightarrow> f = F_CloseDelimited"
    using hp m sent wf(1) st wf(2) by (rule end_reported)
  obtain x where x: "direct_contract (conn_role w) (state (conn_state w) (conn_role w)) SE_EndOfMessage x" "side_kept x (state st (conn_role w))"
    using st by (rule own_event)
  have over: "local_state w' \<noteq> SendBody" using x by (auto simp: w' local_state_def direct_contract.simps side_kept_def)
  have closing: "local_state w' \<in> {MustClose, Closed}" if "f = F_CloseDelimited"
    using that m wf(1) st answer_over(2) [of "conn_state w" st] by (simp add: matched_def follows_def w' local_state_def)
  have "matched w' l'"
  proof (rule matched_step [OF m])
    show "connection_inv w'" by (rule sent_inv_calls(4) [OF hp matched_inv(1) [OF m] sent])
    show "in_place l' w'" using l'(3,4) over by (simp add: in_place_def)
    show "agree w' l'" using m l'(2) by (simp add: agree_def matched_def w' only_reads_def notes_kept_def)
    show "undisturbed (conn_role l) (conn_state l) (conn_state l')" using undisturbed_event [OF st] states(1,4) l'(2) by (simp add: only_reads_def)
    show "eof l' \<longrightarrow> local_state w' \<in> {MustClose, Closed}" using closing l'(5) by simp
    show "conn_role l = Client \<and> local_state w' = SendResponse \<and> waiting_for_continue l' \<longrightarrow> waiting_for_continue w'"
      using answer_over(1) [of "conn_state w" st] st states(4) by (cases "conn_role w") (auto simp: w' local_state_def)
  qed (use l'(2) in \<open>simp_all add: w' only_reads_def notes_kept_def\<close>)
  with l'(1) show ?thesis by blast
qed

section \<open>Closing and new cycles\<close>

lemma pass_keeps:
  "state st r = Closed \<Longrightarrow> state (stabilize_pass st) r = Closed"
  "state (stabilize_pass st) r = SendResponse \<Longrightarrow> state st r = SendResponse"
  by (cases r; auto simp: stabilize_pass_defs Let_def split: if_splits)+

lemma closed_state:
  assumes "process_event st r SE_ConnectionClosed = (Inr (), st')"
  shows "state st' r = Closed" and "state st' (peer r) = SendResponse \<Longrightarrow> state st (peer r) = SendResponse"
    and "state st r \<in> {Idle, Done, MustClose, Closed}"
proof -
  have st': "st' = stabilize_pass (set_state r Closed st)" and "state st r \<in> {Idle, Done, MustClose, Closed}"
    using assms by (auto simp: process_event_Inr direct_contract.simps)
  then show "state st r \<in> {Idle, Done, MustClose, Closed}" by simp
  show "state st' r = Closed" unfolding st' by (rule pass_keeps(1)) (cases r; simp)
  show "state st (peer r) = SendResponse" if "state st' (peer r) = SendResponse"
    using pass_keeps(2) [OF that [unfolded st']] by (cases r) simp_all
qed

lemma closed_again:
  assumes "process_event st r SE_ConnectionClosed = (Inr (), st')" and "state st r = Closed" and "legal_configuration st"
  shows "st' = st"
proof -
  have "set_state r Closed st = st" using assms(2) by (cases r) simp_all
  with assms legal_stable [of st] show ?thesis by (auto simp: process_event_Inr direct_contract.simps)
qed

lemma close_heard:
  assumes "process_event (conn_state l) (peer (conn_role l)) SE_ConnectionClosed = (Inr (), st)" and "legal_configuration (conn_state l)"
    and "eof l" and "unread l = []"
  shows "next_event hp l = (Inr (NE_Event Ev_ConnectionClosed), l\<lparr>conn_state := st\<rparr>)"
proof (cases "peer_state l = Closed")
  case True
  with assms closed_again [of "conn_state l"] have "st = conn_state l" by (auto simp: peer_state_def)
  with True show ?thesis by (simp add: next_event_Inr next_event_inner.simps peer_state_return_def)
next
  case False
  with closed_state(3) [OF assms(1)] have "peer_state l \<in> {Idle, Done, MustClose}" by (auto simp: peer_state_def)
  then have "peer_state_return l = Some (peer_closed l)" using assms(3,4) by (auto simp: peer_state_return_def)
  with assms(1) show ?thesis by (simp add: next_event_Inr next_event_inner.simps peer_closed_def advance_peer_def)
qed

lemma sent_inv_close: "httparse_ok hp \<Longrightarrow> connection_inv c \<Longrightarrow> close c = (r, c1) \<Longrightarrow> connection_inv c1"
  using connection_inv_call [of hp c A_Close] by simp

lemma close_uttered:
  assumes hp: "httparse_ok hp" and m: "matched w l" and sent: "close w = (Inr u, w')"
  shows "\<exists>l'. hears hp [] l = Some (Ev_ConnectionClosed, l') \<and> matched w' l'"
proof -
  note states = matched_states [OF m]
  from sent obtain d where "advance_local SE_ConnectionClosed w = (Inr (), d)" "w' = d\<lparr>writer := None\<rparr>"
    by (auto simp: close_def and_then_Inr)
  then obtain st where st: "process_event (conn_state w) (conn_role w) SE_ConnectionClosed = (Inr (), st)"
    and w': "w' = w\<lparr>conn_state := st, writer := None\<rparr>"
    by (elim advance_local_Inr) simp
  note closed = closed_state [OF st]
  have "local_state w \<noteq> SendBody" using closed(3) by (auto simp: local_state_def)
  moreover have "in_place l w" using m by (simp add: matched_def follows_def)
  ultimately have l: "unread l = []" "progress l = None" by (simp_all add: in_place_def)
  define l' where "l' = l\<lparr>eof := True, conn_state := st\<rparr>"
  have "next_event hp (l\<lparr>eof := True\<rparr>) = (Inr (NE_Event Ev_ConnectionClosed), l')"
    using close_heard [of "l\<lparr>eof := True\<rparr>" st hp] st states(1,4,5) l(1) by (simp add: l'_def)
  then have heard: "hears hp [] l = Some (Ev_ConnectionClosed, l')"
    by (rule hears_event [rotated]) (simp add: receive_data_def)
  have waits: "conn_role w = Client \<longrightarrow> local_state l = SendResponse \<longrightarrow> waiting_for_continue w \<longrightarrow> waiting_for_continue l"
    using m by (simp add: matched_def follows_def)
  have "matched w' l'"
  proof (rule matched_step [OF m])
    show "connection_inv w'" by (rule sent_inv_close [OF hp matched_inv(1) [OF m] sent])
    show "connection_inv l'" using heard hp matched_inv(2) [OF m] by (rule hears_inv)
    show "agree w' l'" using m by (simp add: agree_def matched_def w' l'_def)
    show "undisturbed (conn_role l) (conn_state l) (conn_state l')" using undisturbed_event [OF st] states(1,4) by (simp add: l'_def)
    show "in_place l' w'" using l closed(1) by (simp add: in_place_def w' l'_def local_state_def)
    show "conn_role w = Client \<and> local_state l' = SendResponse \<and> waiting_for_continue w' \<longrightarrow> waiting_for_continue l'"
      using waits closed(2) states(1,4) by (auto simp: w' l'_def local_state_def)
  qed (use closed(1) in \<open>simp_all add: w' l'_def local_state_def\<close>)
  with heard show ?thesis by blast
qed

lemma cycle_uttered:
  assumes hp: "httparse_ok hp" and m: "matched c s"
  shows "\<exists>c' s'. both_cycle c s = Some ([], c', s') \<and> matched c' s' \<and> conn_role c' = conn_role c"
proof (cases "client (conn_state c) = Done \<and> server (conn_state c) = Done \<and> keep_alive (conn_state c) \<and> is_empty (proposals (conn_state c))")
  case True
  let ?fresh = "\<lambda>c. c\<lparr>conn_state := state_new, conn_reader := R_Head, writer := None, progress := None, request_kind := None,
      upgrade_proposals := [], waiting_for_continue := False, continue_before_upgrade := False\<rparr>"
  have fresh: "start_next_cycle c = (Inr (), ?fresh c)" "start_next_cycle s = (Inr (), ?fresh s)"
    using True matched_states(1) [OF m] by (simp_all add: start_next_cycle_cases)
  have inv: "connection_inv (?fresh c)" "connection_inv (?fresh s)"
    using connection_inv_call [OF hp matched_inv(1) [OF m], of A_StartNextCycle] connection_inv_call [OF hp matched_inv(2) [OF m], of A_StartNextCycle] fresh
    by simp_all
  have over: "local_state c = Done" "local_state s = Done"
    using True matched_states(1) [OF m] by (cases "conn_role c"; cases "conn_role s"; simp add: local_state_def)+
  have "unread c = []" "unread s = []" "\<not> eof c" "\<not> eof s"
    using m over by (simp_all add: matched_def follows_def in_place_def)
  with inv matched_states(4) [OF m] have "matched (?fresh c) (?fresh s)"
    by (simp add: matched_def follows_def in_place_def agree_def local_state_def)
  with fresh show ?thesis by (simp add: both_cycle_def)
next
  case False
  with matched_states(1) [OF m] have "start_next_cycle c = (Inl (local_err ''connection is not reusable''), c)" "start_next_cycle s = (Inl (local_err ''connection is not reusable''), s)"
    by (auto simp: start_next_cycle_cases)
  with m show ?thesis by (simp add: both_cycle_def)
qed

text \<open>A piece of a body that is empty on the wire, too.\<close>

lemma silent_data:
  assumes hp: "httparse_ok hp" and m: "matched w l" and sent: "send_data d w = (Inr [], w')"
  shows "matched w' l"
proof -
  note body = sending_state(1) [OF sent]
  obtain f where f: "sending_body w f" using m body by (rule body_pair)
  from sent obtain g prefix suffix where g: "data_framing f (length d) = Inr (g, prefix, suffix)" "prefix @ d @ suffix = []"
    and w': "w' = w\<lparr>writer := Some g, waiting_for_continue := False\<rparr>"
    unfolding send_data_framed [OF f] by (auto split: sum.splits prod.splits)
  have "g = f" using g by (cases f) (auto simp: data_framing_def split: if_splits)
  with f have same: "writer w' = writer w" by (simp add: w' sending_body_def)
  have "connection_inv w'" by (rule sent_inv_calls(3) [OF hp matched_inv(1) [OF m] sent])
  moreover have "agree w l" "in_place l w" "writer w = Some F_CloseDelimited \<longrightarrow> conn_role w = Server \<and> \<not> keep_alive (conn_state w)"
    using m unfolding matched_def follows_def by blast+
  ultimately show ?thesis
    using same still_open [OF m] body matched_inv(2) [OF m]
    by (intro matched_step [OF m]) (simp_all add: agree_def in_place_def w' local_state_def)
qed

section \<open>Any utterance\<close>

fun speaker :: "Role \<Rightarrow> Connection \<Rightarrow> Connection \<Rightarrow> Connection" where
  "speaker Client c s = c"
| "speaker Server c s = s"

text \<open>What the other side has to be able to take: a head within its limits that the head parser reads as it was
  written, a chunk whose size is representable and whose size line is within its limit, and trailers like a head.
  A call that is refused asks nothing of it.\<close>

definition unless_refused :: "'a local_result \<Rightarrow> bool \<Rightarrow> bool" where
  "unless_refused call P \<longleftrightarrow> (case fst call of Inl _ \<Rightarrow> True | Inr _ \<Rightarrow> P)"

definition head_fits :: "'e httparse \<Rightarrow> Response \<Rightarrow> Limits \<Rightarrow> bool" where
  "head_fits hp p lims \<longleftrightarrow>
     valid_status (resp_status p) \<and> length (written p) \<le> max_head_bytes lims \<and> parses_response hp p [] (max_header_count lims)"

fun audible :: "'e httparse \<Rightarrow> saying \<Rightarrow> Connection \<Rightarrow> Connection \<Rightarrow> bool" where
  "audible hp (Asks q) c s \<longleftrightarrow>
     unless_refused (send_request q c)
       (valid_method (req_method q) \<and> length (serialize_request q) \<le> max_head_bytes (limits s)
        \<and> parses_request hp q [] (max_header_count (limits s)))"
| "audible hp (Hints p) c s \<longleftrightarrow>
     unless_refused (send_informational_response p s) (head_fits hp p (limits c))"
| "audible hp (Answers p) c s \<longleftrightarrow>
     unless_refused (send_response p s) (head_fits hp (p\<lparr>resp_headers := written_fields p s\<rparr>) (limits c))"
| "audible hp (Sends r d) c s \<longleftrightarrow>
     length d < usize_limit \<and> length (format_hex (length d)) \<le> max_head_bytes (limits (speaker (peer r) c s))"
| "audible hp (Ends r t) c s \<longleftrightarrow>
     unless_refused (end_of_message t (speaker r c s))
       (writer (speaker r c s) = Some F_Chunked \<longrightarrow> section_fits hp t (limits (speaker (peer r) c s)))"
| "audible hp (Closes r) c s \<longleftrightarrow> True"
| "audible hp Cycles c s \<longleftrightarrow> True"

text \<open>What the other side has to report.  Only the speaker's own connection is asked: it reports the message,
  the piece or the end that the speaker's call accepted, and nothing when the call was refused.\<close>

definition if_sent :: "'a local_result \<Rightarrow> Event list \<Rightarrow> Event list" where
  "if_sent call es = (case fst call of Inl _ \<Rightarrow> [] | Inr _ \<Rightarrow> es)"

fun told :: "saying \<Rightarrow> Connection \<Rightarrow> Connection \<Rightarrow> Event list" where
  "told (Asks q) c s = if_sent (send_request q c) [Ev_Request q]"
| "told (Hints p) c s = if_sent (send_informational_response p s) [Ev_InformationalResponse p]"
| "told (Answers p) c s = if_sent (send_response p s) [Ev_Response (p\<lparr>resp_headers := written_fields p s\<rparr>)]"
| "told (Sends r d) c s =
     (let chunked = writer (speaker r c s) = Some F_Chunked in
      if_sent (send_data d (speaker r c s))
        (if d = [] then [] else [Ev_Data \<lparr>data_bytes = d, chunk_start = chunked, chunk_end = chunked\<rparr>]))"
| "told (Ends r t) c s = if_sent (end_of_message t (speaker r c s)) [Ev_EndOfMessage \<lparr>eom_trailers = t\<rparr>]"
| "told (Closes r) c s = if_sent (close (speaker r c s)) [Ev_ConnectionClosed]"
| "told Cycles c s = []"

definition in_step :: "Event list \<Rightarrow> Connection \<Rightarrow> talk option \<Rightarrow> bool" where
  "in_step es w t \<longleftrightarrow> (\<exists>w' l'. t = Some (es, w', l') \<and> matched w' l' \<and> conn_role w' = conn_role w)"

lemma turn_in_step:
  assumes "matched c s" and "matched (speaker r c s) (speaker (peer r) c s) \<Longrightarrow> in_step es (speaker r c s) (f (speaker r c s) (speaker (peer r) c s))"
  shows "in_step es c (turn r f c s)"
proof (cases r)
  case Client
  with assms show ?thesis by simp
next
  case Server
  with assms matched_sym [of c s] obtain s' c' where s': "f s c = Some (es, s', c')" "matched s' c'" "conn_role s' = conn_role s"
    by (auto simp: in_step_def)
  have "conn_role c' = conn_role c" using matched_states(4) [OF s'(2)] matched_states(4) [of s c] assms(1) matched_sym [of c s] s'(3) by simp
  with s' matched_sym [of s' c'] Server show ?thesis by (simp add: in_step_def)
qed

lemma utter_in_step:
  assumes "matched w l" and "\<And>err w'. send w = (Inl err, w') \<Longrightarrow> w' = w" and "\<And>x w'. send w = (x, w') \<Longrightarrow> same_frame w w'"
    and "\<And>w'. send w = (Inr [], w') \<Longrightarrow> es = [] \<and> matched w' l"
    and "\<And>out w'. send w = (Inr out, w') \<Longrightarrow> out \<noteq> [] \<Longrightarrow> \<exists>e l'. es = [e] \<and> hears hp out l = Some (e, l') \<and> matched w' l'"
  shows "in_step (if_sent (send w) es) w (utter hp send w l)"
proof (cases "send w")
  case (Pair x w')
  have role: "conn_role w' = conn_role w" using assms(3) [OF Pair] by (simp add: same_frame_def)
  show ?thesis
  proof (cases x)
    case (Inl err)
    with assms(1) assms(2) [of err w'] Pair show ?thesis by (simp add: in_step_def utter_def if_sent_def)
  next
    case (Inr out)
    with assms(4) [of w'] assms(5) [of out w'] Pair role show ?thesis
      by (cases "out = []") (auto simp: in_step_def utter_def if_sent_def)
  qed
qed

lemma silent_piece: "send_data [] w = (Inr out, w') \<Longrightarrow> out = []"
  by (auto simp: send_data_def send_data_parts_def send_data_framing_def and_then_Inr data_framing_def
      split: option.splits sum.splits Framing.splits if_splits)

lemma heads_not_empty:
  "send_request q c = (Inr out, c') \<Longrightarrow> out \<noteq> []" "send_informational_response p c = (Inr out, c') \<Longrightarrow> out \<noteq> []"
  "send_response p c = (Inr out, c') \<Longrightarrow> out \<noteq> []"
  by (auto simp: serialize_request_unlines serialize_response_unlines elim: send_request_Inr send_informational_response_Inr sent_response_fields)

lemma data_in_step:
  assumes hp: "httparse_ok hp" and m: "matched w l" and d: "length d < usize_limit" "length (format_hex (length d)) \<le> max_head_bytes (limits l)"
    and ch: "ch \<longleftrightarrow> writer w = Some F_Chunked"
  shows "in_step (if_sent (send_data d w) (if d = [] then [] else [Ev_Data \<lparr>data_bytes = d, chunk_start = ch, chunk_end = ch\<rparr>]))
    w (utter hp (send_data d) w l)"
proof (rule utter_in_step [OF m])
  fix w' assume sent: "send_data d w = (Inr [], w')"
  with data_uttered [OF hp m sent _ d] silent_data [OF hp m sent]
  show "(if d = [] then [] else [Ev_Data \<lparr>data_bytes = d, chunk_start = ch, chunk_end = ch\<rparr>]) = [] \<and> matched w' l" by auto
next
  fix out w' assume sent: "send_data d w = (Inr out, w')" and "out \<noteq> []"
  then have "d \<noteq> []" using silent_piece by blast
  with data_uttered [OF hp m sent _ d] ch
  show "\<exists>e l'. (if d = [] then [] else [Ev_Data \<lparr>data_bytes = d, chunk_start = ch, chunk_end = ch\<rparr>]) = [e]
    \<and> hears hp out l = Some (e, l') \<and> matched w' l'" by auto
qed (auto dest: failed_send_data frame.send_data_R)

lemma unless_refused_Inr: "unless_refused call P \<Longrightarrow> call = (Inr x, c) \<Longrightarrow> P"
  by (simp add: unless_refused_def)

lemma end_in_step:
  assumes hp: "httparse_ok hp" and m: "matched w l"
    and fits: "unless_refused (end_of_message t w) (writer w = Some F_Chunked \<longrightarrow> section_fits hp t (limits l))"
  shows "in_step (if_sent (end_of_message t w) [Ev_EndOfMessage \<lparr>eom_trailers = t\<rparr>]) w (utter_end hp t w l)"
proof (cases "end_of_message t w")
  case (Pair x w')
  then show ?thesis
  proof (cases x)
    case (Inl err)
    with Pair m failed_send(5) [of t w err w'] show ?thesis by (simp add: in_step_def utter_end_def if_sent_def)
  next
    case (Inr out)
    with Pair unless_refused_Inr [OF fits] end_uttered [OF hp m, of t out w'] frame.end_of_message_R [OF Pair] show ?thesis
      by (auto simp: in_step_def if_sent_def same_frame_def)
  qed
qed

lemma close_in_step:
  assumes hp: "httparse_ok hp" and m: "matched w l"
  shows "in_step (if_sent (close w) [Ev_ConnectionClosed]) w (utter_close hp w l)"
proof (cases "close w")
  case (Pair x w')
  then show ?thesis
  proof (cases x)
    case (Inl err)
    with Pair m failed_send(6) [of w err w'] show ?thesis by (simp add: in_step_def utter_close_def if_sent_def)
  next
    case (Inr u)
    with Pair close_uttered [OF hp m, of u w'] frame.close_R [OF Pair] show ?thesis
      by (auto simp: in_step_def if_sent_def same_frame_def utter_close_def)
  qed
qed

lemma hint_in_step:
  assumes hp: "httparse_ok hp" and m: "matched s c" and role: "conn_role s = Server"
    and p: "unless_refused (send_informational_response p s) (head_fits hp p (limits c))"
  shows "in_step (if_sent (send_informational_response p s) [Ev_InformationalResponse p]) s (utter hp (send_informational_response p) s c)"
proof (rule utter_in_step [OF m])
  fix out s' assume sent: "send_informational_response p s = (Inr out, s')"
  moreover have "out = written p" using sent by (elim send_informational_response_Inr)
  ultimately show "\<exists>e l'. [Ev_InformationalResponse p] = [e] \<and> hears hp out c = Some (e, l') \<and> matched s' l'"
    using unless_refused_Inr [OF p] hint_uttered [OF hp m role sent] by (simp add: head_fits_def)
qed (auto dest: failed_send(2) frame.send_informational_response_R heads_not_empty(2))

lemma answer_in_step:
  assumes hp: "httparse_ok hp" and m: "matched s c"
    and p: "unless_refused (send_response p s) (head_fits hp (p\<lparr>resp_headers := written_fields p s\<rparr>) (limits c))"
  shows "in_step (if_sent (send_response p s) [Ev_Response (p\<lparr>resp_headers := written_fields p s\<rparr>)]) s (utter hp (send_response p) s c)"
proof (rule utter_in_step [OF m])
  fix out s' assume sent: "send_response p s = (Inr out, s')"
  moreover have "out = written (p\<lparr>resp_headers := written_fields p s\<rparr>)" using sent by (elim sent_response_fields) simp
  ultimately show "\<exists>e l'. [Ev_Response (p\<lparr>resp_headers := written_fields p s\<rparr>)] = [e] \<and> hears hp out c = Some (e, l') \<and> matched s' l'"
    using unless_refused_Inr [OF p] answer_uttered [OF hp m sent] by (simp add: head_fits_def)
qed (auto dest: failed_send(3) frame.send_response_R heads_not_empty(3))

lemma request_in_step:
  assumes hp: "httparse_ok hp" and m: "matched c s" and role: "conn_role c = Client"
    and q: "unless_refused (send_request q c) (valid_method (req_method q) \<and> length (serialize_request q) \<le> max_head_bytes (limits s)
      \<and> parses_request hp q [] (max_header_count (limits s)))"
  shows "in_step (if_sent (send_request q c) [Ev_Request q]) c (utter hp (send_request q) c s)"
proof (rule utter_in_step [OF m])
  fix out c' assume sent: "send_request q c = (Inr out, c')"
  moreover have "out = serialize_request q" using sent by (elim send_request_Inr)
  ultimately show "\<exists>e l'. [Ev_Request q] = [e] \<and> hears hp out s = Some (e, l') \<and> matched c' l'"
    using unless_refused_Inr [OF q] request_uttered [OF hp m role sent] by simp
qed (auto dest: failed_send(1) frame.send_request_R heads_not_empty(1))

lemma said_in_step:
  assumes hp: "httparse_ok hp" and m: "matched c s" and role: "conn_role c = Client" and u: "audible hp u c s"
  shows "in_step (told u c s) c (say hp u c s)"
proof -
  have server: "conn_role s = Server" using matched_states(4) [OF m] role by simp
  note turned = turn_in_step [OF m] and body = data_in_step [OF hp] end_in_step [OF hp] close_in_step [OF hp]
  show ?thesis
  proof (cases u)
    case (Asks q)
    with u request_in_step [OF hp m role, of q] show ?thesis by simp
  next
    case (Hints p)
    with u hint_in_step [OF hp _ server, of c p] turned [of Server] show ?thesis by simp
  next
    case (Answers p)
    with u answer_in_step [OF hp, of s c p] turned [of Server] show ?thesis by simp
  next
    case (Sends r d)
    with u turned body(1) show ?thesis by (simp add: Let_def)
  next
    case (Ends r t)
    with u turned body(2) show ?thesis by simp
  next
    case (Closes r)
    with turned body(3) show ?thesis by simp
  next
    case Cycles
    with cycle_uttered [OF hp m] show ?thesis by (simp add: in_step_def)
  qed
qed

section \<open>A conversation\<close>

fun converse :: "'e httparse \<Rightarrow> saying list \<Rightarrow> Connection \<Rightarrow> Connection \<Rightarrow> talk option" where
  "converse hp [] c s = Some ([], c, s)"
| "converse hp (u # us) c s =
     say hp u c s \<bind> (\<lambda>(es, c, s). map_option (\<lambda>(more, c, s). (es @ more, c, s)) (converse hp us c s))"

text \<open>Every utterance is audible when its turn comes; and the minutes of the whole conversation.\<close>

fun heeded :: "'e httparse \<Rightarrow> saying list \<Rightarrow> Connection \<Rightarrow> Connection \<Rightarrow> bool" where
  "heeded hp [] c s \<longleftrightarrow> True"
| "heeded hp (u # us) c s \<longleftrightarrow>
     audible hp u c s \<and> (case say hp u c s of None \<Rightarrow> True | Some (_, c, s) \<Rightarrow> heeded hp us c s)"

fun minutes :: "'e httparse \<Rightarrow> saying list \<Rightarrow> Connection \<Rightarrow> Connection \<Rightarrow> Event list" where
  "minutes hp [] c s = []"
| "minutes hp (u # us) c s =
     told u c s @ (case say hp u c s of None \<Rightarrow> [] | Some (_, c, s) \<Rightarrow> minutes hp us c s)"

lemma conversed:
  assumes "httparse_ok hp"
  shows "matched c s \<Longrightarrow> conn_role c = Client \<Longrightarrow> heeded hp us c s \<Longrightarrow>
    \<exists>c' s'. converse hp us c s = Some (minutes hp us c s, c', s') \<and> matched c' s'"
proof (induction us arbitrary: c s)
  case (Cons u us)
  from Cons.prems have "in_step (told u c s) c (say hp u c s)" by (intro said_in_step [OF assms]) simp_all
  then obtain c1 s1 where "say hp u c s = Some (told u c s, c1, s1)" "matched c1 s1" "conn_role c1 = conn_role c"
    by (auto simp: in_step_def)
  with Cons.prems Cons.IH [of c1 s1] show ?case by auto
qed simp

lemma matched_new: "matched (connection_new Client lc) (connection_new Server ls)"
  using connection_inv_new [of Client lc] connection_inv_new [of Server ls]
  by (simp add: matched_def follows_def in_place_def agree_def local_state_def connection_new_def state_new_def)

lemma matched_sound:
  assumes "matched c s"
  shows "conn_state c = conn_state s" and "client (conn_state c) \<noteq> Error" and "server (conn_state c) \<noteq> Error"
proof -
  note states = matched_states [OF assms]
  show "conn_state c = conn_state s" by (simp add: states)
  have "local_state c \<noteq> Error" "local_state s \<noteq> Error"
    using matched_inv [OF assms] by (simp_all add: connection_inv_def send_inv_def)
  then show "client (conn_state c) \<noteq> Error" "server (conn_state c) \<noteq> Error"
    using states(1,4) by (cases "conn_role c"; simp add: local_state_def)+
qed

text \<open>The limits of a connection never change, so whether pieces and ends are audible is known beforehand.\<close>

lemma hears_limits: "httparse_ok hp \<Longrightarrow> hears hp wire l = Some (e, l') \<Longrightarrow> limits l' = limits l"
  using frame.receive_data_R frame.next_event_R by (fastforce simp: hears_Some same_frame_def)

lemma polls_limits: "httparse_ok hp \<Longrightarrow> polls hp l = Some (e, l') \<Longrightarrow> limits l' = limits l"
  using frame.next_event_R by (fastforce simp: polls_Some same_frame_def)

definition limits_kept :: "Connection \<Rightarrow> Connection \<Rightarrow> talk option \<Rightarrow> bool" where
  "limits_kept w l t \<longleftrightarrow> (\<forall>es w' l'. t = Some (es, w', l') \<longrightarrow> limits w' = limits w \<and> limits l' = limits l)"

lemma utter_limits:
  assumes "\<And>x w'. send w = (x, w') \<Longrightarrow> same_frame w w'" and "httparse_ok hp"
  shows "limits_kept w l (utter hp send w l)"
proof (cases "send w")
  case (Pair x w')
  then have "limits w' = limits w" using assms(1) by (simp add: same_frame_def)
  moreover have "limits l' = limits l" if "hears hp out l = Some (e, l')" for out e l'
    using hears_limits [OF assms(2) that] .
  ultimately show ?thesis using Pair
    by (cases x) (auto simp: limits_kept_def utter_def bind_eq_Some_conv)
qed

lemma utter_end_limits:
  assumes "httparse_ok hp"
  shows "limits_kept w l (utter_end hp t w l)"
proof (cases "end_of_message t w")
  case (Pair x w')
  then have w': "limits w' = limits w" using frame.end_of_message_R by (auto simp: same_frame_def)
  show ?thesis
  proof (cases x)
    case (Inl err)
    with Pair w' show ?thesis by (simp add: limits_kept_def utter_end_def)
  next
    case (Inr out)
    define y where "y = (if out = [] \<and> writer w \<noteq> Some F_CloseDelimited then polls hp l else hears hp out l)"
    then have "limits l' = limits l" if "y = Some (e, l')" for e l'
      using that hears_limits [OF assms, of out l e l'] polls_limits [OF assms, of l e l'] by (simp split: if_splits)
    with Pair Inr w' show ?thesis by (auto simp: limits_kept_def utter_end_def bind_eq_Some_conv simp flip: y_def)
  qed
qed

lemma utter_close_limits:
  assumes "httparse_ok hp"
  shows "limits_kept w l (utter_close hp w l)"
proof (cases "close w")
  case (Pair x w')
  then have "limits w' = limits w" using frame.close_R by (auto simp: same_frame_def)
  with Pair hears_limits [OF assms, of _ l] show ?thesis
    by (cases x) (auto simp: limits_kept_def utter_close_def bind_eq_Some_conv)
qed

lemma both_cycle_limits: "limits_kept c s (both_cycle c s)"
  by (simp add: limits_kept_def both_cycle_def start_next_cycle_cases)

lemma turn_limits: "(\<And>w l. limits_kept w l (f w l)) \<Longrightarrow> limits_kept c s (turn r f c s)"
  by (cases r) (auto simp: limits_kept_def)

lemma say_limits:
  assumes "httparse_ok hp"
  shows "limits_kept c s (say hp u c s)"
  by (cases u)
     (auto simp del: turn.simps intro!: turn_limits utter_limits utter_end_limits utter_close_limits both_cycle_limits assms
       dest: frame.send_request_R frame.send_informational_response_R frame.send_response_R frame.send_data_R(1))

fun plain :: "Limits \<Rightarrow> saying \<Rightarrow> bool" where
  "plain lims (Sends r d) \<longleftrightarrow> length d < usize_limit \<and> length (format_hex (length d)) \<le> max_head_bytes lims"
| "plain lims (Ends r t) \<longleftrightarrow> t = [] \<and> 2 \<le> max_head_bytes lims"
| "plain lims (Closes r) \<longleftrightarrow> True"
| "plain lims Cycles \<longleftrightarrow> True"
| "plain lims _ \<longleftrightarrow> False"

lemma plain_audible:
  assumes "parses_empty_section hp" and "plain lims u" and "limits c = lims" and "limits s = lims"
  shows "audible hp u c s"
proof -
  have "limits (speaker r c s) = lims" for r using assms(3,4) by (cases r) simp_all
  moreover have "section_fits hp [] lims" if "2 \<le> max_head_bytes lims"
    using that assms(1) by (simp add: section_fits_def parses_trailers_def trailer_section_def parses_empty_section_def)
  ultimately show ?thesis using assms(2) by (cases u) (auto simp: unless_refused_def split: sum.split)
qed

lemma plain_heeded:
  assumes "httparse_ok hp" and "parses_empty_section hp"
  shows "list_all (plain lims) us \<Longrightarrow> limits c = lims \<Longrightarrow> limits s = lims \<Longrightarrow> heeded hp us c s"
proof (induction us arbitrary: c s)
  case (Cons u us)
  have "audible hp u c s" using Cons.prems by (intro plain_audible [OF assms(2)]) simp_all
  moreover have "heeded hp us c' s'" if "say hp u c s = Some (es, c', s')" for es c' s'
  proof -
    have "limits c' = lims" "limits s' = lims" using say_limits [OF assms(1), of c s u] that Cons.prems by (simp_all add: limits_kept_def)
    with Cons.prems(1) Cons.IH show ?thesis by simp
  qed
  ultimately show ?case by (simp split: option.split)
qed simp

section \<open>The theorems\<close>

text \<open>C3. A client and a server connection that match, in the middle of whatever messages they are sending:
  every call of either application keeps them matched, and the peer reports exactly what the call
  accepted to send.  A request, an informational or a final response arrives as the message that was
  written, a piece of a body as one data event with its chunk boundaries, the end of a message as its
  end with its trailers, and the closing of the connection as such; a refused call and a new cycle say nothing.  In
  particular no byte that one endpoint agrees to send is a protocol error for the other, as long as heads,
  trailers and chunk-size lines stay within its limits and the head parser reads them as they were written.\<close>

theorem endpoints_stay_in_step:
  assumes "httparse_ok hp" and "matched c s" and "conn_role c = Client" and "audible hp u c s"
  shows "\<exists>c' s'. say hp u c s = Some (told u c s, c', s') \<and> matched c' s'"
  using said_in_step [OF assms] by (auto simp: in_step_def)

theorem endpoints_stay_in_step_witness:
  "\<exists>c' s'. say sample_httparse (Asks sample_request) (connection_new Client sample_limits) (connection_new Server sample_limits)
     = Some ([Ev_Request sample_request], c', s') \<and> matched c' s'"
proof -
  let ?c = "connection_new Client sample_limits" and ?s = "connection_new Server sample_limits"
  have "length (serialize_request sample_request) \<le> 64" by code_simp
  moreover have "parses_request sample_httparse sample_request [] 8"
    by (rule sample_request_parsed [OF sample_request_valid]) (simp add: sample_request_def)
  ultimately have "audible sample_httparse (Asks sample_request) ?c ?s"
    using sample_request_valid(1) by (simp add: unless_refused_def sample_limits_def connection_new_def split: sum.split)
  moreover have "told (Asks sample_request) ?c ?s = [Ev_Request sample_request]" by code_simp
  ultimately show ?thesis
    using endpoints_stay_in_step [OF sample_httparse_ok matched_new, of sample_limits "Asks sample_request" sample_limits]
    by (simp add: connection_new_def)
qed

text \<open>C4. A conversation between two new connections, in which the applications make any calls in any order:
  as long as each head, section and size line is within the limits of the other end, it never fails, what
  the endpoints report is exactly what the other one accepted to send, and at its end they agree on the
  lifecycle, in which neither of them is in error.\<close>

theorem conversation_is_understood:
  assumes "httparse_ok hp"
    and "heeded hp us (connection_new Client lc) (connection_new Server ls)"
  shows "\<exists>c s. converse hp us (connection_new Client lc) (connection_new Server ls)
      = Some (minutes hp us (connection_new Client lc) (connection_new Server ls), c, s)
    \<and> conn_state c = conn_state s \<and> client (conn_state c) \<noteq> Error \<and> server (conn_state c) \<noteq> Error \<and> matched c s"
  using conversed [OF assms(1) matched_new _ assms(2)] matched_sound by (fastforce simp: connection_new_def)

definition timeout_response :: Response where
  "timeout_response = \<lparr>resp_status = StatusCode 408, resp_reason = [], resp_headers = [], resp_http_version = Http11\<rparr>"

text \<open>A server that gives up on a client which never asks: its answer has no announced length.\<close>

definition goodbye :: "saying list" where
  "goodbye = [Answers timeout_response, Sends Server [0x61, 0x62], Ends Server [], Closes Server, Cycles, Closes Client]"

lemma timeout_fields:
  "written_fields timeout_response (connection_new Server sample_limits) = [(bytes ''Connection'', bytes ''close'')]"
  by code_simp

lemma timeout_fits: "head_fits sample_httparse (timeout_response\<lparr>resp_headers := written_fields timeout_response (connection_new Server sample_limits)\<rparr>) sample_limits"
proof -
  let ?p = "timeout_response\<lparr>resp_headers := [(bytes ''Connection'', bytes ''close'')]\<rparr>"
  have ok: "valid_status (resp_status ?p)" "validate_headers (resp_headers ?p) = Inr ()" "validate_reason (resp_reason ?p) = Inr ()"
    "length (resp_headers ?p) \<le> 8" "length (written ?p) \<le> 64"
    by code_simp+
  from ok(1,5) sample_response_parsed [OF ok(1-4), of "[]"] have "head_fits sample_httparse ?p sample_limits"
    by (simp add: head_fits_def sample_limits_def)
  then show ?thesis by (simp only: timeout_fields)
qed

lemma timeout_told:
  "told (Answers timeout_response) (connection_new Client sample_limits) (connection_new Server sample_limits)
     = [Ev_Response (timeout_response\<lparr>resp_headers := [(bytes ''Connection'', bytes ''close'')]\<rparr>)]"
proof -
  have "fst (send_response timeout_response (connection_new Server sample_limits))
    = Inr (written (timeout_response\<lparr>resp_headers := [(bytes ''Connection'', bytes ''close'')]\<rparr>))" by code_simp
  then show ?thesis by (simp add: if_sent_def timeout_fields)
qed

lemma goodbye_heeded: "heeded sample_httparse goodbye (connection_new Client sample_limits) (connection_new Server sample_limits)"
proof -
  let ?c = "connection_new Client sample_limits" and ?s = "connection_new Server sample_limits"
  have plain: "list_all (plain sample_limits) (tl goodbye)"
    by (simp add: goodbye_def sample_limits_def usize_limit_def format_hex.simps)
  have "heeded sample_httparse (tl goodbye) c s" if "say sample_httparse (Answers timeout_response) ?c ?s = Some (es, c, s)" for es c s
    using say_limits [OF sample_httparse_ok, of ?c ?s "Answers timeout_response"] that
    by (intro plain_heeded [OF sample_httparse_ok sample_parses_empty_section plain]) (simp_all add: limits_kept_def connection_new_def)
  moreover have "audible sample_httparse (Answers timeout_response) ?c ?s"
    using timeout_fits by (simp add: unless_refused_def connection_new_def split: sum.split)
  ultimately have "heeded sample_httparse (Answers timeout_response # tl goodbye) ?c ?s"
    by (simp del: say.simps audible.simps split: option.split)
  then show ?thesis by (simp only: goodbye_def list.sel)
qed

theorem conversation_is_understood_witness:
  "\<exists>es c s. converse sample_httparse goodbye (connection_new Client sample_limits) (connection_new Server sample_limits)
     = Some (Ev_Response (timeout_response\<lparr>resp_headers := [(bytes ''Connection'', bytes ''close'')]\<rparr>) # es, c, s) \<and> conn_state c = conn_state s"
proof -
  let ?c = "connection_new Client sample_limits" and ?s = "connection_new Server sample_limits"
  obtain more where "minutes sample_httparse goodbye ?c ?s = told (Answers timeout_response) ?c ?s @ more"
    by (simp add: goodbye_def del: told.simps say.simps)
  with timeout_told conversation_is_understood [OF sample_httparse_ok goodbye_heeded] show ?thesis
    by (metis append_Cons append_Nil)
qed

section \<open>The end of a body that never began\<close>

lemma waiting_arrival: "receive_data d l = (x, l') \<Longrightarrow> waiting_for_continue l' = waiting_for_continue l"
  by (auto simp: receive_data_def split: if_splits)

text \<open>C38. A client that expects a 100 response may end its request without having sent any of the announced
  body, as a chunked one allows.  Its own connection then no longer waits; the server's connection,
  which is told of the end, still reports that the client is waiting.\<close>

theorem server_keeps_waiting:
  assumes "httparse_ok hp" and "matched c s" and "conn_role c = Client" and "audible hp (Ends Client t) c s" and "waiting_for_continue s"
    and "end_of_message t c = (Inr out, c')"
  shows "\<exists>s'. say hp (Ends Client t) c s = Some ([Ev_EndOfMessage \<lparr>eom_trailers = t\<rparr>], c', s')
    \<and> \<not> waiting_for_continue c' \<and> waiting_for_continue s'"
proof -
  have fits: "writer c = Some F_Chunked \<longrightarrow> section_fits hp t (limits s)" using assms(4,6) by (simp add: unless_refused_def)
  obtain s' where s': "utter_end hp t c s = Some ([Ev_EndOfMessage \<lparr>eom_trailers = t\<rparr>], c', s')"
    using end_uttered [OF assms(1,2,6)] fits by blast
  with assms(6) obtain d where d: "next_event hp d = (end_event t, s')" "waiting_for_continue d = waiting_for_continue s"
    by (auto simp: utter_end_def bind_eq_Some_conv polls_Some hears_Some dest: waiting_arrival split: if_splits)
  have "waiting_for_continue s'" using end_effect(3) [OF assms(1) d(1)] d(2) assms(5) by simp
  moreover have "\<not> waiting_for_continue c'" using assms(6) by (auto simp: end_of_message_def and_then_Inr split: option.splits sum.splits)
  ultimately show ?thesis using s' by simp
qed

definition expectant_client :: Connection where
  "expectant_client = (connection_new Client sample_limits)
     \<lparr>conn_state := \<lparr>client = SendBody, server = SendResponse, keep_alive = True, proposals = NONE\<rparr>,
      writer := Some F_Chunked, request_kind := Some RK_Other, waiting_for_continue := True\<rparr>"

definition informed_server :: Connection where
  "informed_server = (connection_new Server sample_limits)
     \<lparr>conn_state := \<lparr>client = SendBody, server = SendResponse, keep_alive = True, proposals = NONE\<rparr>,
      conn_reader := R_Chunked (Ck_Size 0), peer_version := Some Http11, request_kind := Some RK_Other, waiting_for_continue := True\<rparr>"

lemma expectant_matched: "matched expectant_client informed_server"
  by (simp add: matched_def follows_def in_place_def agree_def expectant_client_def informed_server_def connection_new_def local_state_def
      peer_state_def connection_inv_def legal_configuration_def receive_inv_def receive_ok_def reader_aligned_def scan_ok_def send_inv_def writer_aligned_def)

theorem server_keeps_waiting_witness:
  "\<exists>c' s'. say sample_httparse (Ends Client []) expectant_client informed_server = Some ([Ev_EndOfMessage \<lparr>eom_trailers = []\<rparr>], c', s')
     \<and> \<not> waiting_for_continue c' \<and> waiting_for_continue s'"
proof -
  let ?out = "bytes ''0'' @ CRLF @ CRLF"
  have "fst (end_of_message [] expectant_client) = Inr ?out" by code_simp
  then have sent: "end_of_message [] expectant_client = (Inr ?out, snd (end_of_message [] expectant_client))" by (simp add: prod_eq_iff)
  have "audible sample_httparse (Ends Client []) expectant_client informed_server"
    by (rule plain_audible [OF sample_parses_empty_section, where lims = sample_limits])
       (simp_all add: expectant_client_def informed_server_def connection_new_def sample_limits_def)
  moreover have "conn_role expectant_client = Client" "waiting_for_continue informed_server"
    by (simp_all add: expectant_client_def informed_server_def connection_new_def)
  ultimately show ?thesis
    using server_keeps_waiting [OF sample_httparse_ok expectant_matched _ _ _ sent] by blast
qed

end
