(* ===== verification/Trailer_Folding.thy ===== *)
theory Trailer_Folding
  imports Trailers Section_Parser
begin

text \<open>
  Trailers and what follows them on a client.  \<^verbatim>\<open>parse_trailers\<close> unfolds the whole buffer, and not only the
  section whose end it has just found: a space or tab behind the section turns the empty line that ends it
  into a fold.  A complete message is then not reported, although the same bytes are when nothing follows
  them yet.
\<close>

lemma no_line_feed_no_fold: "LF \<notin> set d \<Longrightarrow> unfold_value d = d"
proof -
  assume "LF \<notin> set d"
  then have "\<not> has_fold d" by (induction d) (auto simp: has_fold_Cons elim: fold_ahead.elims)
  then show ?thesis by (rule unfold_value_no_fold)
qed

text \<open>A search over full lines and the beginning of another line finds no end.\<close>

lemma poll_open_lines:
  assumes "\<forall>l \<in> set ls. line_ok l \<and> l \<noteq> []" and "LF \<notin> set r" and "sp_at p = length pre" and "sp_line_start p = length pre"
  shows "fst (poll p (pre @ unlines ls @ r) skip) = None"
  using assms
proof (induction ls arbitrary: p pre)
  case Nil
  have "poll p (pre @ r) skip = poll (p\<lparr>sp_at := sp_at p + length r\<rparr>) (pre @ r) skip"
    using Nil.prems by (intro poll_skip) auto
  with Nil.prems show ?case by (simp add: poll_stop)
next
  case (Cons l ls)
  let ?q = "\<lparr>sp_at = length (pre @ l @ CRLF), sp_line_start = length (pre @ l @ CRLF), sp_started = True\<rparr>"
  have "poll p (pre @ l @ CRLF @ unlines ls @ r) skip = poll ?q (pre @ l @ CRLF @ unlines ls @ r) skip"
    using Cons.prems by (intro poll_line) simp_all
  moreover have "fst (poll ?q ((pre @ l @ CRLF) @ unlines ls @ r) skip) = None"
    using Cons.prems by (intro Cons.IH) simp_all
  ultimately show ?case by simp
qed

text \<open>The section with its end unfolded away.\<close>

lemma unfold_section_end:
  assumes "\<forall>(name, value) \<in> set t. valid_name name \<and> valid_value value" and "is_ows b"
  shows "unfold_value (trailer_section t @ b # rest) = unlines (map field_line t) @ SP # unfold_value (dropWhile is_ows (b # rest))"
  using assms(1)
proof (induction t)
  case Nil
  with assms(2) show ?case by (simp add: trailer_section_def unfold_value.simps)
next
  case (Cons h t)
  have ok: "line_ok (field_line h)" using line_ok_fields [OF Cons.prems, of "field_line h"] by simp
  have split: "trailer_section (h # t) @ b # rest = field_line h @ CRLF @ trailer_section t @ b # rest" by (simp add: trailer_section_def)
  have starts: "trailer_section t \<noteq> []" "\<not> is_ows (hd (trailer_section t))" using section_starts [of t] Cons.prems by auto
  then have "unfold_value (field_line h @ CRLF @ trailer_section t @ b # rest)
      = field_line h @ CRLF @ unfold_value (trailer_section t @ b # rest)"
    by (intro unfold_line [OF ok]) simp_all
  with Cons split show ?case by simp
qed

lemma unfolded_section_open:
  assumes "\<forall>(name, value) \<in> set t. valid_name name \<and> valid_value value" and "is_ows b" and "LF \<notin> set rest"
  shows "fst (poll progress_default (normalize_obs_fold (trailer_section t @ b # rest)) False) = None"
proof -
  let ?r = "dropWhile is_ows (b # rest)"
  have "LF \<notin> set ?r" using assms(2,3) set_dropWhileD [of LF is_ows rest] by (auto simp: is_ows_def)
  moreover have "normalize_obs_fold (trailer_section t @ b # rest) = unlines (map field_line t) @ SP # ?r"
    using no_line_feed_no_fold [OF \<open>LF \<notin> set ?r\<close>] by (simp only: normalize_obs_fold_eq unfold_section_end [OF assms(1,2)])
  moreover have "\<forall>l \<in> set (map field_line t). line_ok l \<and> l \<noteq> []" using line_ok_fields [OF assms(1)] by blast
  ultimately show ?thesis
    using poll_open_lines [of "map field_line t" "SP # ?r" progress_default "[]" False] by (simp add: progress_default_def)
qed

lemma parse_unfolded_trailers:
  assumes hp: "httparse_streams hp" and t: "validate_trailers t = Inr ()" and b: "is_ows b" "LF \<notin> set rest"
    and lim: "length (trailer_section t) \<le> mb" and parses: "parses_trailers hp t [] mh"
  shows "parse_trailers hp (trailer_section t @ b # rest) mb mh False = Inr (Some (length (trailer_section t), t))"
    and "parse_trailers hp (trailer_section t @ b # rest) mb mh True \<noteq> Inr (Some r)"
proof -
  have streams: "streams (hp_parse_headers hp) False" using hp by (simp add: httparse_streams_def)
  have "parses_trailers hp t (b # rest) mh"
    using streamsD(1) [OF streams] parses by (simp add: parses_trailers_def)
  then show "parse_trailers hp (trailer_section t @ b # rest) mb mh False = Inr (Some (length (trailer_section t), t))"
    using parse_written_trailers [OF t, of False "b # rest" mb hp mh] lim by simp
  have "hp_parse_headers hp (normalize_obs_fold (trailer_section t @ b # rest)) n \<noteq> Inr (Some (e, hs))" for n e hs
    using streamsD(3) [OF streams, of "normalize_obs_fold (trailer_section t @ b # rest)" n e hs]
      unfolded_section_open [OF validate_trailers_Inr [OF t] b] by auto
  then show "parse_trailers hp (trailer_section t @ b # rest) mb mh True \<noteq> Inr (Some r)"
    unfolding parse_trailers_def Let_def by (auto split: sum.splits option.splits)
qed

text \<open>C39. The end of a chunked message with trailers, valid and within the limits, on a client.  When nothing
  follows yet, it is reported with its trailers.  When the bytes that follow are already there and begin
  with a space or tab, and no further line end is among them, it is not: the client fails or asks for more
  data.  A server is not affected: \<^verbatim>\<open>parse_trailers\<close> without unfolding finds the trailers in both cases.\<close>

theorem trailer_end_unfolded_away:
  assumes "httparse_streams hp" and "validate_trailers t = Inr ()" and "is_ows b" and "LF \<notin> set rest"
    and "parses_trailers hp t [] (max_header_count (limits c))" and "length (trailer_section t) \<le> max_head_bytes (limits c)"
    and "conn_role c = Client" and "at_chunk c (bytes ''0'' @ CRLF @ trailer_section t @ b # rest)"
    and "conn_role d = Client" and "limits d = limits c" and "at_chunk d (bytes ''0'' @ CRLF @ trailer_section t)"
  shows "fst (next_event hp d) = end_event t
    \<and> (isl (fst (next_event hp c)) \<or> fst (next_event hp c) = Inr NE_NeedData)
    \<and> parse_trailers hp (trailer_section t @ b # rest) (max_head_bytes (limits c)) (max_header_count (limits c)) False
        = Inr (Some (length (trailer_section t), t))"
proof -
  note valid = validate_trailers_Inr [OF assms(2)] and parsed = parse_unfolded_trailers [OF assms(1-4,6,5)]
  have "fst (next_event hp d) = end_event t"
    using trailers_received [of d t "[]" hp] assms(2,5,6,10,11) by (auto simp: nothing_folded)
  moreover have "1 \<le> max_head_bytes (limits c)" using assms(6) section_starts(1) [OF valid] by (cases "trailer_section t") auto
  with assms(8) obtain c2 where c2: "next_event_inner hp c = read_trailers hp c2"
    "receiving_body c2 (R_Chunked Ck_Trailers) (trailer_section t @ b # rest)" "same_terms c c2"
    by (rule last_chunk_read)
  have "parse_trailers hp (unread c2) (max_head_bytes (limits c2)) (max_header_count (limits c2)) (conn_role c2 = Client) \<noteq> Inr (Some r)" for r
    using parsed(2) c2(2,3) assms(7) by (simp add: receiving_body_def same_terms_def)
  then have "isl (fst (read_trailers hp c2)) \<or> fst (read_trailers hp c2) = Inr NE_NeedData"
    using c2(2) by (auto simp: read_trailers_def section_ready_def receiving_body_def wait_for_section_def need_data_or_eof_def Let_def
        split: sum.split option.split)
  then have "isl (fst (next_event hp c)) \<or> fst (next_event hp c) = Inr NE_NeedData"
    by (cases "read_trailers hp c2") (auto simp: next_event_def c2(1) Let_def split: sum.split)
  ultimately show ?thesis using parsed(1) by blast
qed

definition chunked_client :: "u8 list \<Rightarrow> Connection" where
  "chunked_client d = (connection_new Client sample_limits)
     \<lparr>conn_state := \<lparr>client = Done, server = SendBody, keep_alive = True, proposals = NONE\<rparr>,
      conn_reader := R_Chunked (Ck_Size 0), input := \<lparr>buf_bytes = d, buf_start = 0\<rparr>\<rparr>"

lemma chunked_client_facts:
  "conn_role (chunked_client d) = Client" "limits (chunked_client d) = sample_limits" "at_chunk (chunked_client d) d"
  by (simp_all add: chunked_client_def connection_new_def at_chunk_def receiving_body_def legal_configuration_def peer_state_def as_slice_def)

theorem trailer_end_unfolded_away_witness:
  "let wire = bytes ''0'' @ CRLF @ trailer_section [(bytes ''A'', bytes ''b'')]
   in fst (next_event sample_httparse (chunked_client wire)) = end_event [(bytes ''A'', bytes ''b'')]
     \<and> (isl (fst (next_event sample_httparse (chunked_client (wire @ [SP, 0x78]))))
        \<or> fst (next_event sample_httparse (chunked_client (wire @ [SP, 0x78]))) = Inr NE_NeedData)"
proof -
  let ?t = "[(bytes ''A'', bytes ''b'')]"
  have t: "validate_trailers ?t = Inr ()" "length (trailer_section ?t) \<le> 64" "length ?t \<le> 8" by code_simp+
  have "is_ows SP" "LF \<notin> set [0x78]" by (simp_all add: is_ows_def)
  note folded = trailer_end_unfolded_away [OF sample_httparse_streams t(1) this]
  have "at_chunk (chunked_client ((bytes ''0'' @ CRLF @ trailer_section ?t) @ [SP, 0x78])) (bytes ''0'' @ CRLF @ trailer_section ?t @ [SP, 0x78])"
    using chunked_client_facts(3) [of "(bytes ''0'' @ CRLF @ trailer_section ?t) @ [SP, 0x78]"] by simp
  from folded [OF _ _ chunked_client_facts(1) this chunked_client_facts(1) _ chunked_client_facts(3)]
  show ?thesis using sample_parses_trailers [OF t(1,3)] t(2) by (simp add: chunked_client_facts(2) sample_limits_def Let_def)
qed

end
