(* ===== verification/Conversions.thy ===== *)
theory Conversions
  imports Fuzz_Send Net_Addr "HOL-Library.List_Lexorder"
begin

text \<open>
  The standard traits of the two validated value types: \<^verbatim>\<open>TryFrom\<close>, \<^verbatim>\<open>From\<close>, \<^verbatim>\<open>Display\<close> and the derived
  \<^verbatim>\<open>Ord\<close> of \<open>Method\<close> (\<^verbatim>\<open>crates/h11r/src/method.rs\<close>) and \<open>StatusCode\<close> (\<^verbatim>\<open>crates/h11r/src/status.rs\<close>).  A
  formatter returns the bytes it writes, or None for \<^verbatim>\<open>fmt::Error\<close>; the derived orders compare the wrapped
  value, for a method lexicographically.
\<close>

section \<open>Conversions and texts\<close>

definition method_try_from :: "u8 list \<Rightarrow> InvalidMethod + Method" where
  "method_try_from value = method_from_bytes value"

definition display_method :: "Method \<Rightarrow> u8 list option" where
  "display_method self = (if is_utf8 (as_bytes self) then Some (as_bytes self) else None)"

definition status_try_from :: "u16 \<Rightarrow> InvalidStatusCode + StatusCode" where
  "status_try_from value = status_from_u16 value"

definition u16_from_status :: "StatusCode \<Rightarrow> u16" where
  "u16_from_status value = as_u16 value"

definition display_status :: "StatusCode \<Rightarrow> u8 list" where
  "display_status self = format_decimal (unat (as_u16 self))"

section \<open>The derived orders\<close>

instantiation Method :: linorder
begin

definition less_eq_Method :: "Method \<Rightarrow> Method \<Rightarrow> bool" where
  "less_eq_Method a b \<longleftrightarrow> as_bytes a \<le> as_bytes b"

definition less_Method :: "Method \<Rightarrow> Method \<Rightarrow> bool" where
  "less_Method a b \<longleftrightarrow> as_bytes a < as_bytes b"

instance
  by standard (auto simp: less_eq_Method_def less_Method_def intro: Method.expand)

end

instantiation StatusCode :: linorder
begin

definition less_eq_StatusCode :: "StatusCode \<Rightarrow> StatusCode \<Rightarrow> bool" where
  "less_eq_StatusCode a b \<longleftrightarrow> as_u16 a \<le> as_u16 b"

definition less_StatusCode :: "StatusCode \<Rightarrow> StatusCode \<Rightarrow> bool" where
  "less_StatusCode a b \<longleftrightarrow> as_u16 a < as_u16 b"

instance
  by standard (auto simp: less_eq_StatusCode_def less_StatusCode_def intro: StatusCode.expand)

end

section \<open>Round trips\<close>

lemma token_ascii: "is_token_byte b \<Longrightarrow> b < 0x80"
  by (auto simp: is_token_byte_def word_le_nat_alt word_less_nat_alt)

lemma display_valid_method: "valid_method m \<Longrightarrow> display_method m = Some (as_bytes m)"
  by (auto simp: display_method_def valid_method_def list_all_iff intro: is_utf8_ascii token_ascii)

lemma display_valid_status:
  assumes "valid_status s"
  shows "display_status s = status_digits s"
proof -
  let ?n = "unat (as_u16 s)"
  have n: "100 \<le> ?n" "?n < 1000" using assms by (auto simp: valid_status_def word_le_nat_alt)
  then have d: "\<not> ?n < 10" "\<not> ?n div 10 < 10" "?n div 10 div 10 < 10" by linarith+
  have "format_decimal ?n = [hex_digit (?n div 10 div 10), hex_digit (?n div 10 mod 10), hex_digit (?n mod 10)]"
    using d by (simp add: format_decimal.simps [of ?n] format_decimal.simps [of "?n div 10"] format_decimal.simps [of "?n div 10 div 10"])
  then have "map unat (format_decimal ?n) = map unat (status_digits s)"
    using d(3) by (simp add: unat_hex_digit status_digits_unat [OF assms] div_mult2_eq [symmetric])
  then show ?thesis unfolding display_status_def by (rule map_injective) (simp add: inj_def word_unat_eq_iff)
qed

text \<open>C35. The conversions of methods and status codes lose nothing.  A method made of bytes is printed as
  those bytes, and what any method prints converts back to it; a status code converts to its number and
  back, is printed as the three digits that a response head carries, and these read back as its number.
  The derived orders are those of the printed bytes and of the numbers.\<close>

theorem names_and_codes_round_trip:
  assumes "valid_method m" and "valid_method n" and "valid_status s" and "valid_status t"
  shows "(\<exists>shown. display_method m = Some shown \<and> method_try_from shown = Inr m)
    \<and> status_try_from (u16_from_status s) = Inr s
    \<and> display_status s = status_digits s \<and> parse_number (display_status s) 10 = Some (unat (u16_from_status s))
    \<and> (m \<le> n \<longleftrightarrow> the (display_method m) \<le> the (display_method n))
    \<and> (s \<le> t \<longleftrightarrow> u16_from_status s \<le> u16_from_status t)"
  using assms status_digits_read_back(1) [OF assms(3)]
  by (simp add: display_valid_method display_valid_status method_try_from_def method_from_bytes_Inr status_try_from_def
      status_from_u16_Inr u16_from_status_def less_eq_Method_def less_eq_StatusCode_def)

theorem names_and_codes_round_trip_witness:
  "Method (bytes ''GET'') \<le> Method (bytes ''PUT'') \<and> StatusCode 100 \<le> StatusCode 404
   \<and> display_status (StatusCode 404) = bytes ''404''"
proof -
  have "valid_method (Method (bytes ''GET''))" "valid_method (Method (bytes ''PUT''))" "valid_status (StatusCode 404)" "valid_status (StatusCode 100)"
    by code_simp+
  note names_and_codes_round_trip [OF this] names_and_codes_round_trip [OF this(1,2,4,3)]
  moreover have "the (display_method (Method (bytes ''GET''))) \<le> the (display_method (Method (bytes ''PUT'')))" "status_digits (StatusCode 404) = bytes ''404''" by code_simp+
  ultimately show ?thesis by (simp add: u16_from_status_def)
qed

end
