(* ===== verification/Unit_Tests.thy ===== *)
theory Unit_Tests
  imports Lifecycle Status Method Buffer Header_Fields Panic
begin

text \<open>
  The unit tests inside the sources (\<^verbatim>\<open>state.rs\<close>, \<^verbatim>\<open>status.rs\<close>, \<^verbatim>\<open>method.rs\<close>, \<^verbatim>\<open>wire.rs\<close>), translated as they
  are written; a failed assertion is the value \<open>None\<close>.  The first compares \<^verbatim>\<open>direct_transition\<close> with a table
  of all legal transitions; here the comparison is proved for every event, and not only for the sampled
  ones.  The others run the model on the scenarios of the source and check each of their assertions.
\<close>

section \<open>The table of transitions\<close>

definition STATES :: "State list" where
  "STATES = [Idle, SendResponse, SendBody, Done, MightSwitchProtocol, SwitchedProtocol, MustClose, Closed, Error]"

definition EVENTS :: "StateEvent list" where
  "EVENTS = [SE_Request NONE, SE_InformationalResponse, SE_Response, SE_Data, SE_EndOfMessage,
     SE_ProtocolSwitch Connect, SE_ProtocolSwitch Upgrade, SE_ConnectionClosed]"

definition DIRECT_CONTRACT :: "(Role \<times> State \<times> StateEvent \<times> State) list" where
  "DIRECT_CONTRACT =
    [(Client, Idle, SE_Request NONE, SendBody),
     (Client, Idle, SE_ConnectionClosed, Closed),
     (Client, SendBody, SE_Data, SendBody),
     (Client, SendBody, SE_EndOfMessage, Done),
     (Client, Done, SE_ConnectionClosed, Closed),
     (Client, MustClose, SE_ConnectionClosed, Closed),
     (Client, Closed, SE_ConnectionClosed, Closed),
     (Server, Idle, SE_Response, SendBody),
     (Server, Idle, SE_ConnectionClosed, Closed),
     (Server, SendResponse, SE_InformationalResponse, SendResponse),
     (Server, SendResponse, SE_Response, SendBody),
     (Server, SendResponse, SE_ProtocolSwitch Connect, SwitchedProtocol),
     (Server, SendResponse, SE_ProtocolSwitch Upgrade, SwitchedProtocol),
     (Server, SendBody, SE_Data, SendBody),
     (Server, SendBody, SE_EndOfMessage, Done),
     (Server, Done, SE_ConnectionClosed, Closed),
     (Server, MustClose, SE_ConnectionClosed, Closed),
     (Server, Closed, SE_ConnectionClosed, Closed)]"

text \<open>The \<^verbatim>\<open>find_map\<close> over the table.\<close>

definition expected :: "Role \<Rightarrow> State \<Rightarrow> StateEvent \<Rightarrow> State option" where
  "expected role s event =
     map_option (\<lambda>(_, _, _, after). after)
       (List.find (\<lambda>(case_role, case_state, case_event, _). role = case_role \<and> s = case_state \<and> event = case_event)
          DIRECT_CONTRACT)"

definition direct_transitions_match_the_protocol_contract :: "unit option" where
  "direct_transitions_match_the_protocol_contract =
     for_each (\<lambda>role. for_each (\<lambda>s. for_each (\<lambda>event.
       assert (direct_transition role s event = expected role s event)) EVENTS) STATES) [Client, Server]"

section \<open>Scenarios\<close>

definition CONNECT :: SwitchProposals where
  "CONNECT = \<lparr>connect = True, upgrade = False\<rparr>"

definition UPGRADE :: SwitchProposals where
  "UPGRADE = \<lparr>connect = False, upgrade = True\<rparr>"

definition step :: "ConnectionState \<Rightarrow> Role \<Rightarrow> StateEvent \<Rightarrow> ConnectionState option" where
  "step st role event = map_option snd (unwrap_call (process_event st role event))"

definition a_complete_exchange_can_be_reused :: "unit option" where
  "a_complete_exchange_can_be_reused =
     step state_new Client (SE_Request NONE) \<bind> (\<lambda>st.
     assert ((client st, server st) = (SendBody, SendResponse)) \<bind> (\<lambda>_.
     step st Client SE_Data \<bind> (\<lambda>st.
     step st Client SE_EndOfMessage \<bind> (\<lambda>st.
     step st Server SE_InformationalResponse \<bind> (\<lambda>st.
     step st Server SE_Response \<bind> (\<lambda>st.
     step st Server SE_Data \<bind> (\<lambda>st.
     step st Server SE_EndOfMessage \<bind> (\<lambda>st.
     assert ((client st, server st) = (Done, Done)) \<bind> (\<lambda>_.
     unwrap_call (state_start_next_cycle st) \<bind> (\<lambda>(_, st).
     assert (st = state_new)))))))))))"

definition invalid_input_is_rejected_atomically :: "unit option" where
  "invalid_input_is_rejected_atomically =
     step state_new Client (SE_Request NONE) \<bind> (\<lambda>st.
     let before = st;
         (result, st) = process_event st Client (SE_Request NONE)
     in assert (result = Inl InvalidTransition) \<bind> (\<lambda>_.
        assert (st = before) \<bind> (\<lambda>_.
        let (result, st) = process_event st Server (SE_ProtocolSwitch Upgrade)
        in assert (result = Inl InvalidTransition) \<bind> (\<lambda>_.
           assert (st = before)))))"

definition disabling_keep_alive_forces_close_after_each_message :: "unit option" where
  "disabling_keep_alive_forces_close_after_each_message =
     step state_new Client (SE_Request NONE) \<bind> (\<lambda>st.
     let st = disable_keep_alive st in
     step st Client SE_EndOfMessage \<bind> (\<lambda>st.
     assert (client st = MustClose) \<bind> (\<lambda>_.
     step st Server SE_Response \<bind> (\<lambda>st.
     step st Server SE_EndOfMessage \<bind> (\<lambda>st.
     assert (server st = MustClose) \<bind> (\<lambda>_.
     assert (fst (state_start_next_cycle st) = Inl InvalidTransition)))))))"

definition proposed_upgrade_and_connect_can_switch_protocols :: "unit option" where
  "proposed_upgrade_and_connect_can_switch_protocols =
     for_each (\<lambda>(ps, kind).
       step state_new Client (SE_Request ps) \<bind> (\<lambda>st.
       let st = disable_keep_alive st in
       step st Server (SE_ProtocolSwitch kind) \<bind> (\<lambda>st.
       assert ((client st, server st) = (SendBody, SwitchedProtocol)) \<bind> (\<lambda>_.
       step st Client SE_EndOfMessage \<bind> (\<lambda>st.
       assert ((client st, server st) = (SwitchedProtocol, SwitchedProtocol)) \<bind> (\<lambda>_.
       assert (proposals st = NONE)))))))
     [(UPGRADE, Upgrade), (CONNECT, Connect)]"

definition switch_selection_must_match_one_of_the_request_proposals :: "unit option" where
  "switch_selection_must_match_one_of_the_request_proposals =
     for_each (\<lambda>selected.
       step state_new Client (SE_Request (from_flags True True)) \<bind> (\<lambda>st.
       step st Server (SE_ProtocolSwitch selected) \<bind> (\<lambda>st.
       assert (server st = SwitchedProtocol)))) [Connect, Upgrade]
     \<bind> (\<lambda>_.
     for_each (\<lambda>(proposed, selected).
       step state_new Client (SE_Request proposed) \<bind> (\<lambda>st.
       let before = st;
           (result, st) = process_event st Server (SE_ProtocolSwitch selected)
       in assert (result = Inl InvalidTransition) \<bind> (\<lambda>_. assert (st = before))))
     [(CONNECT, Upgrade), (UPGRADE, Connect)])"

definition denied_switch_restores_the_close_rule :: "unit option" where
  "denied_switch_restores_the_close_rule =
     step state_new Client (SE_Request UPGRADE) \<bind> (\<lambda>st.
     let st = disable_keep_alive st in
     step st Client SE_EndOfMessage \<bind> (\<lambda>st.
     assert (client st = MightSwitchProtocol) \<bind> (\<lambda>_.
     step st Server SE_Response \<bind> (\<lambda>st.
     assert ((client st, server st) = (MustClose, SendBody)) \<bind> (\<lambda>_.
     assert (proposals st = NONE))))))"

definition direct_error_response_and_protocol_errors_require_close :: "unit option" where
  "direct_error_response_and_protocol_errors_require_close =
     step state_new Server SE_Response \<bind> (\<lambda>response.
     assert (\<not> keep_alive response) \<bind> (\<lambda>_.
     step response Server SE_EndOfMessage \<bind> (\<lambda>response.
     assert (server response = MustClose) \<bind> (\<lambda>_.
     step state_new Client (SE_Request NONE) \<bind> (\<lambda>error.
     step error Client SE_EndOfMessage \<bind> (\<lambda>error.
     let error = process_error error Server in
     assert ((client error, server error) = (MustClose, Error)) \<bind> (\<lambda>_.
     let closed = \<lparr>client = Done, server = Done, keep_alive = True, proposals = NONE\<rparr> in
     step closed Server SE_ConnectionClosed \<bind> (\<lambda>closed.
     assert ((client closed, server closed) = (MustClose, Closed))))))))))"

section \<open>Status codes\<close>

text \<open>The range \<^verbatim>\<open>100..=599\<close>.\<close>

definition valid_codes :: "u16 list" where
  "valid_codes = map of_nat [100..<600]"

definition accepts_exactly_three_digit_protocol_status_codes :: "unit option" where
  "accepts_exactly_three_digit_protocol_status_codes =
     assert (isl (status_from_u16 99)) \<bind> (\<lambda>_.
     assert (isl (status_from_u16 600)) \<bind> (\<lambda>_.
     for_each (\<lambda>value. unwrap (status_from_u16 value) \<bind> (\<lambda>status. assert (as_u16 status = value)))
       valid_codes))"

definition classifies_each_status_by_its_first_digit :: "unit option" where
  "classifies_each_status_by_its_first_digit =
     for_each (\<lambda>value. unwrap (status_from_u16 value) \<bind> (\<lambda>status.
       assert (is_informational status \<longleftrightarrow> value div 100 = 1) \<bind> (\<lambda>_.
       assert (is_success status \<longleftrightarrow> value div 100 = 2) \<bind> (\<lambda>_.
       assert (is_redirection status \<longleftrightarrow> value div 100 = 3) \<bind> (\<lambda>_.
       assert (is_client_error status \<longleftrightarrow> value div 100 = 4) \<bind> (\<lambda>_.
       assert (is_server_error status \<longleftrightarrow> value div 100 = 5)))))))
       valid_codes"

section \<open>Methods and request targets\<close>

text \<open>The range \<^verbatim>\<open>u8::MIN..=u8::MAX\<close>.\<close>

definition all_bytes :: "u8 list" where
  "all_bytes = map of_nat [0..<256]"

definition accepts_standard_and_extension_methods_without_normalizing_them :: "unit option" where
  "accepts_standard_and_extension_methods_without_normalizing_them =
     for_each (\<lambda>value. unwrap (method_from_bytes value) \<bind> (\<lambda>m. assert (as_bytes m = value)))
       [bytes ''GET'', bytes ''M-SEARCH'', bytes ''custom''] \<bind> (\<lambda>_.
     unwrap (method_from_bytes (bytes ''GET'')) \<bind> (\<lambda>upper.
     unwrap (method_from_bytes (bytes ''get'')) \<bind> (\<lambda>lower.
     assert (upper \<noteq> lower) \<bind> (\<lambda>_.
     let owned = bytes ''CUSTOM'' in
     unwrap (method_from_bytes owned) \<bind> (\<lambda>m.
     let owned = owned[0 := 0x58] in
     assert (as_bytes m = bytes ''CUSTOM''))))))"

definition accepts_exactly_non_empty_http_tokens :: "unit option" where
  "accepts_exactly_non_empty_http_tokens =
     assert (isl (method_from_bytes [])) \<bind> (\<lambda>_.
     for_each (\<lambda>byte.
       let expected = is_ascii_alphanumeric byte
             \<or> byte \<in> set (bytes ''!#$%&'' @ [0x27] @ bytes ''*+-.^_`|~'')
       in assert (\<not> isl (method_from_bytes [byte]) \<longleftrightarrow> expected))
       all_bytes)"

definition request_target_has_a_visible_ascii_boundary :: "unit option" where
  "request_target_has_a_visible_ascii_boundary =
     assert (\<not> valid_request_target []) \<bind> (\<lambda>_.
     for_each (\<lambda>byte. assert (valid_request_target [byte] \<longleftrightarrow> is_ascii_graphic byte)) all_bytes)"

section \<open>The input buffer\<close>

definition buffer_compaction_never_moves_more_live_bytes_than_it_discards :: "unit option" where
  "buffer_compaction_never_moves_more_live_bytes_than_it_discards =
     (let buffer = \<lparr>buf_bytes = replicate (12 * 1024) 0x61, buf_start = 0\<rparr>;
          buffer = buffer_extend (buffer_consume buffer (4 * 1024 + 1)) (bytes ''b'')
      in assert (buf_start buffer = 4 * 1024 + 1) \<bind> (\<lambda>_.
      let buffer = buffer_consume buffer (4 * 1024);
          expected = as_slice buffer;
          buffer = buffer_extend buffer (bytes ''c'')
      in assert (buf_start buffer = 0) \<bind> (\<lambda>_.
         assert (as_slice buffer = expected @ bytes ''c''))))"

section \<open>The tests pass\<close>

lemma scenario_tests:
  "a_complete_exchange_can_be_reused = Some ()" "invalid_input_is_rejected_atomically = Some ()"
  "disabling_keep_alive_forces_close_after_each_message = Some ()"
  "proposed_upgrade_and_connect_can_switch_protocols = Some ()"
  "switch_selection_must_match_one_of_the_request_proposals = Some ()"
  "denied_switch_restores_the_close_rule = Some ()"
  "direct_error_response_and_protocol_errors_require_close = Some ()"
  by code_simp+

text \<open>The event of the table that stands for an event: the sampled request proposes nothing.\<close>

fun sampled :: "StateEvent \<Rightarrow> StateEvent" where
  "sampled (SE_Request ps) = SE_Request NONE"
| "sampled e = e"

lemma contract_test: "direct_transitions_match_the_protocol_contract = Some ()"
  by code_simp

lemma expected_event: "e \<in> set EVENTS \<Longrightarrow> direct_transition r s e = expected r s e"
proof -
  assume "e \<in> set EVENTS"
  moreover have "r \<in> set [Client, Server]" "s \<in> set STATES" using Role.exhaust [of r] State.exhaust [of s] by (auto simp: STATES_def)
  ultimately show ?thesis
    using contract_test unfolding direct_transitions_match_the_protocol_contract_def for_each_Some assert_Some by blast
qed

lemma direct_transition_sampled: "direct_transition r s (sampled e) = direct_transition r s e"
  by (cases e) (auto simp: direct_transition_def split: Role.split State.split)

lemma sampled_event: "sampled e \<in> set EVENTS"
proof (cases e)
  case (SE_ProtocolSwitch k)
  then show ?thesis by (cases k) (simp_all add: EVENTS_def)
qed (simp_all add: EVENTS_def)

lemma expected_sampled: "expected r s (sampled e) = direct_transition r s e"
  using expected_event [OF sampled_event, of r s e] by (simp add: direct_transition_sampled)

lemma status_range:
  fixes code :: u16
  assumes "code \<in> set valid_codes"
  shows "100 \<le> unat code \<and> unat code \<le> 599 \<and> status_from_u16 code = Inr (StatusCode code)"
proof -
  from assms obtain n :: nat where n: "code = of_nat n" "100 \<le> n" "n < 600"
    unfolding valid_codes_def set_map set_upt by (elim imageE) (blast dest: atLeastLessThan_iff [THEN iffD1])
  then have "unat code = n" by (simp add: unat_of_nat)
  with n(2,3) show ?thesis by (simp add: status_from_u16_def word_le_nat_alt)
qed

lemma hundreds: "(code div 100 = of_nat k) = (unat (code :: u16) div 100 = k)" if "k < 6" for k
proof -
  have "unat (of_nat k :: u16) = k" using that by (simp add: unat_of_nat)
  then show ?thesis by (metis u16_div_unat word_unat_eq_iff)
qed

lemma status_classes:
  assumes "100 \<le> unat code" and "unat code \<le> 599"
  shows "is_informational (StatusCode code) \<longleftrightarrow> code div 100 = 1" "is_success (StatusCode code) \<longleftrightarrow> code div 100 = 2"
    "is_redirection (StatusCode code) \<longleftrightarrow> code div 100 = 3" "is_client_error (StatusCode code) \<longleftrightarrow> code div 100 = 4"
    "is_server_error (StatusCode code) \<longleftrightarrow> code div 100 = 5"
  using assms hundreds [of 1 code] hundreds [of 2 code] hundreds [of 3 code] hundreds [of 4 code] hundreds [of 5 code]
  by (simp_all add: status_class_defs word_le_nat_alt word_less_nat_alt) linarith+

lemma status_tests:
  "accepts_exactly_three_digit_protocol_status_codes = Some ()"
  "classifies_each_status_by_its_first_digit = Some ()"
proof -
  have "for_each (\<lambda>value. unwrap (status_from_u16 value) \<bind> (\<lambda>status. assert (as_u16 status = value)))
      valid_codes = Some ()"
    unfolding for_each_Some by (rule ballI, drule status_range) (simp add: unwrap_def)
  then show "accepts_exactly_three_digit_protocol_status_codes = Some ()"
    by (simp add: accepts_exactly_three_digit_protocol_status_codes_def status_from_u16_def assert_def)
  show "classifies_each_status_by_its_first_digit = Some ()"
    unfolding classifies_each_status_by_its_first_digit_def for_each_Some
    by (rule ballI, drule status_range) (simp add: unwrap_def status_classes assert_def)
qed

lemma token_test: "accepts_exactly_non_empty_http_tokens = Some ()"
proof -
  have "is_token_byte byte \<longleftrightarrow> is_ascii_alphanumeric byte
      \<or> byte \<in> set (bytes ''!#$%&'' @ [0x27] @ bytes ''*+-.^_`|~'')" for byte
    by (simp add: byte_eval)
  then show ?thesis
    by (simp add: accepts_exactly_non_empty_http_tokens_def for_each_Some method_from_bytes_def assert_def Let_def)
qed

lemma method_tests:
  "accepts_standard_and_extension_methods_without_normalizing_them = Some ()"
  "request_target_has_a_visible_ascii_boundary = Some ()"
  subgoal by code_simp
  subgoal by (simp add: request_target_has_a_visible_ascii_boundary_def for_each_Some valid_request_target_def assert_def)
  done

lemma compaction_test: "buffer_compaction_never_moves_more_live_bytes_than_it_discards = Some ()"
  by (simp add: buffer_compaction_never_moves_more_live_bytes_than_it_discards_def buffer_extend_def
      buffer_consume_def as_slice_def copy_within_front_def bytes_def assert_def)

end
