(* ===== verification/Fuzz_Fragmentation.thy ===== *)
theory Fuzz_Fragmentation
  imports Fuzz_Receive
begin

text \<open>
  The fragmentation target (\<^verbatim>\<open>fuzz/fuzz_targets/h11r_fragmentation.rs\<close>): the same bytes, delivered
  at once and in pieces, must lead to the same outcome.  The polls of the harness are related to the
  draining of the machine of theory \<open>Segmentation\<close>, whose results do not depend on the pieces.
\<close>

section \<open>The target\<close>

definition fuzz_run :: "'e httparse \<Rightarrow> Role \<Rightarrow> u8 \<Rightarrow> u8 list \<Rightarrow> usize \<Rightarrow> Outcome option" where
  "fuzz_run hp role control wire chunk_size = do {
     connection \<leftarrow> fuzz_connection role control;
     (terminal, connection, events, body) \<leftarrow>
       receive_chunks hp (fuzz_budget wire) (slice_chunks wire chunk_size) connection [] [] T_Complete;
     (terminal, connection, events, body) \<leftarrow>
       (if terminal = T_Complete then do {
          (_, connection) \<leftarrow> unwrap_call (receive_data [] connection);
          fuzz_poll hp connection events body (fuzz_budget wire)
        } else Some (terminal, connection, events, body));
     Some (fuzz_finish connection events body terminal)
   }"

definition h11r_fragmentation :: "'e httparse \<Rightarrow> u8 list \<Rightarrow> unit option" where
  "h11r_fragmentation hp fuzz_input =
     (case fuzz_input of
        [] \<Rightarrow> Some ()
      | control # wire \<Rightarrow> do {
          let role = fuzz_role control;
          let wire = fuzz_wire control wire;
          whole \<leftarrow> fuzz_run hp role control wire (max (length wire) 1);
          fragmented \<leftarrow> fuzz_run hp role control wire (unat (and control 0x1f) + 1);
          assert (outcome_terminal whole = outcome_terminal fragmented);
          if outcome_terminal whole = T_Complete then do {
            assert (outcome_events whole = outcome_events fragmented);
            assert (outcome_body whole = outcome_body fragmented);
            assert (outcome_states whole = outcome_states fragmented);
            assert (outcome_trailing whole = outcome_trailing fragmented)
          } else Some ()
        })"

section \<open>Polls are drains\<close>

text \<open>A connection between two arrivals of the harness, with the bytes still to come.\<close>

definition tracked :: "'e httparse \<Rightarrow> Connection \<Rightarrow> u8 list \<Rightarrow> bool" where
  "tracked hp c rest \<longleftrightarrow>
     httparse_ok hp \<and> httparse_streams hp \<and> listening c \<and> searched c \<and> no_unfolding (push c rest)"

text \<open>A connection that waits although a reading from scratch already fails.\<close>

definition doomed :: "'e httparse \<Rightarrow> Connection \<Rightarrow> u8 list \<Rightarrow> bool" where
  "doomed hp c rest \<longleftrightarrow> tracked hp c rest \<and> fst (react hp (fresh c)) = Fails"

lemma listening_ok: "listening c \<Longrightarrow> receive_ok c"
  by (simp add: listening_def)

lemma tracked_good:
  assumes "tracked hp c rest"
  shows "good hp (push (fresh c) rest)"
proof -
  from assms have "steady (fresh c)"
    by (simp add: tracked_def steady_def listening_def connection_inv_def receive_ok_fresh)
  with assms show ?thesis by (simp add: good_def steady_push tracked_def no_unfolding_def)
qed

lemma react_unwound: "react hp (fresh c) = view (next_event_inner hp (unwound c))"
  using react_settle [of hp "unwound c"] by (simp add: fresh_def react_def)

lemma fresh_unwound: "unwound a = unwound b \<Longrightarrow> fresh a = fresh b"
  by (simp add: fresh_def)

lemma tracked_step:
  assumes "tracked hp c rest" and "next_event hp c = (Inr e, c')"
  shows "tracked hp c' rest"
proof -
  from assms have inner: "next_event_inner hp c = (Inr e, c')" by (simp add: next_event_Inr)
  have hp: "httparse_ok hp" "httparse_streams hp" and c: "listening c" "searched c" "no_unfolding (push c rest)"
    using assms(1) by (simp_all add: tracked_def)
  have "connection_inv c'" using next_event_kept [OF hp(1) _ assms(2)] c(1) by (simp add: listening_def)
  moreover have "receive_ok c'" using next_event_inner_ok(1) [OF inner listening_ok [OF c(1)]] .
  moreover have "eof c' = eof c" "peer_state c' \<noteq> Closed"
    using unclosed.receive_R(1) [OF hp(1) inner] c(1) by (simp_all add: stays_open_def listening_def)
  moreover have "searched c'"
    using inner_searched [OF hp(2) inner unfolding_push [OF c(3)] c(2) listening_ok [OF c(1)]] .
  moreover have "no_unfolding (push c' rest)"
    using inner_unfolding [OF hp(1) inner c(3)] by (simp add: no_unfolding_def)
  ultimately show ?thesis using hp c(1) by (simp add: tracked_def listening_def)
qed

lemma reaction_step:
  assumes "tracked hp c rest" and "next_event hp c = (r, c')"
  shows "react hp (fresh c) = (classify r, fresh c') \<and> \<not> isl r
    \<or> fst (react hp (fresh c)) = Fails \<and> (isl r \<or> r = Inr NE_NeedData \<and> doomed hp c' rest)"
proof -
  obtain r0 c0 where inner: "next_event_inner hp c = (r0, c0)" by fastforce
  have hp: "httparse_ok hp" "httparse_streams hp" and c: "listening c" "searched c" "no_unfolding (push c rest)"
    using assms(1) by (simp_all add: tracked_def)
  have lag: "lagging hp (r0, c0) (next_event_inner hp (unwound c))"
    using inner_lagging [OF hp(2) unfolding_push [OF c(3)] c(2) listening_ok [OF c(1)]] inner by simp
  show ?thesis
  proof (cases r0)
    case (Inl e)
    with inner assms(2) have "isl r" by (auto simp: next_event_def Let_def split: if_splits)
    moreover have "isl (fst (next_event_inner hp (unwound c)))"
      using lag Inl by (cases "fst (next_event_inner hp (unwound c))") (auto simp: lagging_def)
    ultimately show ?thesis by (simp add: react_unwound view_def)
  next
    case (Inr e)
    with inner assms(2) have r: "r = Inr e" "c' = c0" by (auto simp: next_event_def Let_def split: if_splits)
    with tracked_step [OF assms(1)] assms(2) have kept: "tracked hp c' rest" by simp
    from lag Inr show ?thesis
      by (auto simp: lagging_def react_unwound view_def r doomed_def kept kept [unfolded r] dest: fresh_unwound)
  qed
qed

lemma poll_doomed:
  assumes "doomed hp c rest" and "fuzz_poll hp c es b n = Some (t, c', es', b')"
  shows "es' = es \<and> b' = b \<and> (t \<noteq> T_Complete \<or> doomed hp c' rest)"
proof (cases n)
  case (Suc m)
  obtain r d where step: "next_event hp c = (r, d)" by fastforce
  with assms(1) reaction_step [OF _ step, of rest] have "isl r \<or> r = Inr NE_NeedData \<and> doomed hp d rest"
    by (auto simp: doomed_def)
  with assms(2) Suc step show ?thesis by (cases r) auto
qed (use assms(2) in simp)

text \<open>A poll that starts with what was collected before, and drains the machine: to its end, or to a
  failure that the connection reports or has yet to notice.\<close>

definition polled :: "'e httparse \<Rightarrow> Terminal \<Rightarrow> Connection \<Rightarrow> u8 list \<Rightarrow> Connection option \<Rightarrow> bool" where
  "polled hp t c' rest r \<longleftrightarrow>
     (case r of
        Some s \<Rightarrow> t = T_Complete \<and> tracked hp c' rest \<and> s = fresh c'
      | None \<Rightarrow> t \<noteq> T_Complete \<or> doomed hp c' rest)"

lemma poll_drains:
  "tracked hp c rest \<Longrightarrow> fuzz_poll hp c es b n = Some (t, c', es', b') \<Longrightarrow>
     \<exists>r es1 b1. es' = es @ es1 \<and> b' = b @ b1 \<and> drains (react hp) (fresh c) r es1 b1 \<and> polled hp t c' rest r"
proof (induction n arbitrary: c es b)
  case (Suc n)
  obtain r d where step: "next_event hp c = (r, d)" by fastforce
  from reaction_step [OF Suc.prems(1) step]
  consider (reacts) "react hp (fresh c) = (classify r, fresh d)" "\<not> isl r" | (fails) "fst (react hp (fresh c)) = Fails"
    by blast
  then show ?case
  proof cases
    case reacts
    note react = reacts(1)
    from reacts obtain e where r: "r = Inr e" by (cases r) simp_all
    with tracked_step [OF Suc.prems(1)] step have kept: "tracked hp d rest" by simp
    have waits: ?thesis if "classify r = Waits" and "t = T_Complete \<and> c' = d \<and> es' = es \<and> b' = b"
      using that react kept by (auto simp: polled_def intro!: exI [of _ "Some (fresh d)"] drain_waits)
    show ?thesis
    proof (cases e)
      case (NE_Event ev)
      have no_close: "ev \<noteq> Ev_ConnectionClosed"
        using react r NE_Event segments.no_finish [OF segments.good_before [OF tracked_good [OF Suc.prems(1)]], of Ev_ConnectionClosed] by auto
      show ?thesis
      proof (cases "\<exists>x. ev = Ev_Data x")
        case True
        then obtain x where ev: "ev = Ev_Data x" ..
        with Suc.prems(2) step r NE_Event have "fuzz_poll hp d es (b @ data_bytes x) n = Some (t, c', es', b')" by simp
        from Suc.IH [OF kept this] react r NE_Event ev show ?thesis by (auto 4 4 intro: drain_delivers)
      next
        case False
        with no_close have "classify r = Emits ev" using r NE_Event by (cases ev) simp_all
        moreover have "fuzz_poll hp d (es @ [ev]) b n = Some (t, c', es', b')"
          using Suc.prems(2) step r NE_Event no_close False by (cases ev) (simp_all add: Let_def)
        ultimately show ?thesis
          using Suc.IH [OF kept, of "es @ [ev]" b] react by (auto 4 4 intro: drain_emits)
      qed
    qed (use waits r step Suc.prems(2) in auto)
  next
    case fails
    with Suc.prems(1) have "doomed hp c rest" by (simp add: doomed_def)
    from poll_doomed [OF this Suc.prems(2)] drain_fails [of "react hp" "fresh c" "snd (react hp (fresh c))"] fails show ?thesis
      by (auto simp: polled_def prod_eq_iff intro!: exI [of _ None])
  qed
qed simp

section \<open>Pieces are arrivals\<close>

lemma tracked_receive:
  assumes "tracked hp c (x @ rest)" and "x \<noteq> []"
  shows "\<exists>d. receive_data x c = (Inr (), d) \<and> tracked hp d rest \<and> fresh d = push (fresh c) x"
proof -
  have c: "listening c" "buffer_wf (input c)" using assms(1) by (simp_all add: tracked_def listening_def connection_inv_def)
  define d where "d = c\<lparr>input := buffer_extend (input c) x\<rparr>"
  have step: "receive_data x c = (Inr (), d)" using c(1) assms(2) by (simp add: receive_data_def listening_def d_def)
  have "connection_inv d"
    using connection_inv_call [OF sample_httparse_ok, of c "A_ReceiveData x"] c(1) step by (simp add: listening_def)
  moreover have unread: "unread d = unread c @ x" using c(2) by (simp add: d_def as_slice_extend)
  moreover have "receive_ok d" using listening_ok [OF c(1)] unread
    by (auto simp: receive_ok_def d_def intro: reader_ok_append progress_ok_append)
  moreover have "searched d" using assms(1) unread search_resumes_append by (simp add: tracked_def searched_def d_def)
  moreover have "no_unfolding (push d rest)" using assms(1) unread by (simp add: tracked_def no_unfolding_def d_def)
  ultimately have "tracked hp d rest" using assms(1) by (simp add: tracked_def listening_def d_def)
  moreover have "fresh d = push (fresh c) x"
    using unread by (simp add: fresh_def push_def settle_def unwound_def d_def)
  ultimately show ?thesis using step by blast
qed

lemma doomed_receive:
  assumes "doomed hp c (x @ rest)" and "x \<noteq> []" and "receive_data x c = (Inr (), d)"
  shows "doomed hp d rest"
proof -
  from assms(1) tracked_receive [OF _ assms(2), of hp c rest] assms(3)
  have d: "tracked hp d rest" "fresh d = push (fresh c) x" by (simp_all add: doomed_def)
  from assms(1) tracked_good [of hp c "x @ rest"] have "good hp (push (push (fresh c) x) rest)"
    by (simp add: doomed_def push_push)
  from segments.fails_push [OF segments.good_before [OF this] assms(2)] assms(1) d show ?thesis
    by (simp add: doomed_def)
qed

lemma chunks_doomed:
  "doomed hp c (concat pieces @ rest) \<Longrightarrow> \<forall>p \<in> set pieces. p \<noteq> [] \<Longrightarrow> t0 = T_Complete \<Longrightarrow>
     receive_chunks hp n pieces c es b t0 = Some (t, c', es', b') \<Longrightarrow> t \<noteq> T_Complete \<or> doomed hp c' rest"
proof (induction pieces arbitrary: c es b t0)
  case (Cons p pieces)
  from Cons.prems(1,2) tracked_receive [of hp c p "concat pieces @ rest"] obtain d where d: "receive_data p c = (Inr (), d)"
    by (auto simp: doomed_def)
  with doomed_receive [of hp c p "concat pieces @ rest" d] Cons.prems(1,2) have doom: "doomed hp d (concat pieces @ rest)" by simp
  from Cons.prems(4) d obtain t1 c1 es1 b1 where poll: "fuzz_poll hp d es b n = Some (t1, c1, es1, b1)"
    and cont: "(case t1 of T_Error _ \<Rightarrow> Some (t1, c1, es1, b1) | T_Complete \<Rightarrow> receive_chunks hp n pieces c1 es1 b1 t1)
      = Some (t, c', es', b')"
    by (auto split: bind_splits)
  from poll_doomed [OF doom poll] cont Cons.IH [of c1 t1 es1 b1] Cons.prems(2) show ?case by (cases t1) auto
qed simp

lemma chunks_arrive:
  "tracked hp c (concat pieces @ rest) \<Longrightarrow> \<forall>p \<in> set pieces. p \<noteq> [] \<Longrightarrow>
     receive_chunks hp n pieces c es b T_Complete = Some (t, c', es', b') \<Longrightarrow>
     \<exists>r es1 b1. arrives (react hp) push (fresh c) pieces r es1 b1 \<and> polled hp t c' rest r
       \<and> (r \<noteq> None \<longrightarrow> es' = es @ es1 \<and> b' = b @ b1)"
proof (induction pieces arbitrary: c es b)
  case Nil
  then show ?case by (auto simp: polled_def intro!: exI [of _ "Some (fresh c)"] arrive_end)
next
  case (Cons p pieces)
  obtain d where d: "receive_data p c = (Inr (), d)" "tracked hp d (concat pieces @ rest)" "fresh d = push (fresh c) p"
    using tracked_receive [of hp c p "concat pieces @ rest"] Cons.prems(1,2) by auto
  from Cons.prems(3) d(1) obtain t1 c1 es1 b1 where poll: "fuzz_poll hp d es b n = Some (t1, c1, es1, b1)"
    and cont: "(case t1 of T_Error _ \<Rightarrow> Some (t1, c1, es1, b1) | T_Complete \<Rightarrow> receive_chunks hp n pieces c1 es1 b1 t1)
      = Some (t, c', es', b')"
    by (auto split: bind_splits)
  from poll_drains [OF d(2) poll] obtain r es2 b2 where drained: "es1 = es @ es2" "b1 = b @ b2"
    "drains (react hp) (push (fresh c) p) r es2 b2" and r: "polled hp t1 c1 (concat pieces @ rest) r"
    by (auto simp: d(3))
  show ?case
  proof (cases r)
    case None
    have "t \<noteq> T_Complete \<or> doomed hp c' rest"
      using r None cont chunks_doomed [of hp c1 pieces rest T_Complete n es1 b1 t c' es' b'] Cons.prems(2)
      by (cases t1) (auto simp: polled_def)
    moreover have "arrives (react hp) push (fresh c) (p # pieces) None es2 b2" using drained(3) None by (simp add: arrive_fail)
    ultimately show ?thesis by (intro exI [of _ None] exI [of _ es2] exI [of _ b2]) (simp add: polled_def)
  next
    case (Some s)
    with r have t1: "t1 = T_Complete" and c1: "tracked hp c1 (concat pieces @ rest)" "s = fresh c1" by (simp_all add: polled_def)
    from t1 cont have "receive_chunks hp n pieces c1 es1 b1 T_Complete = Some (t, c', es', b')" by simp
    from Cons.IH [OF c1(1) _ this] Cons.prems(2) obtain r' es3 b3 where
      "arrives (react hp) push (fresh c1) pieces r' es3 b3" "polled hp t c' rest r'"
      "r' \<noteq> None \<longrightarrow> es' = es1 @ es3 \<and> b' = b1 @ b3" by auto
    with arrive_next [of "react hp" push "fresh c" p "fresh c1" es2 b2 pieces r' es3 b3] drained Some c1(2) show ?thesis
      by (intro exI [of _ r'] exI [of _ "es2 @ es3"] exI [of _ "b2 @ b3"]) auto
  qed
qed

section \<open>The end of input\<close>

definition same_ended :: "Connection \<Rightarrow> Connection \<Rightarrow> bool" where
  "same_ended c d \<longleftrightarrow> eof c \<and> eof d \<and> receive_inv c \<and> receive_inv d \<and> fresh c = fresh d"

lemma fresh_eqD:
  assumes "fresh c = fresh d"
  shows "unread c = unread d" "conn_role c = conn_role d" "conn_state c = conn_state d" "peer_state c = peer_state d"
  using assms fresh_fields(1,2,5,6) by metis+

lemma fresh_state [simp]: "fresh (c\<lparr>conn_state := st\<rparr>) = (fresh c)\<lparr>conn_state := st\<rparr>"
  by (simp add: fresh_def settle_def unwound_def)

lemma same_ended_step:
  assumes "httparse_ok hp" and "same_ended c d"
  shows "fst (next_event hp c) = fst (next_event hp d) \<and> same_ended (snd (next_event hp c)) (snd (next_event hp d))"
proof -
  obtain r c1 where c1: "next_event_inner hp c = (r, c1)" by fastforce
  obtain q d1 where d1: "next_event_inner hp d = (q, d1)" by fastforce
  have same: "r = q \<and> fresh c1 = fresh d1"
  proof (cases "peer_state c = Error")
    case True
    with assms(2) have "peer_state d = Error" by (auto simp: same_ended_def dest: fresh_eqD)
    with True c1 d1 assms(2) show ?thesis by (simp add: Error_fails same_ended_def)
  next
    case False
    with assms(2) have "peer_state d \<noteq> Error" by (auto simp: same_ended_def dest: fresh_eqD)
    with False assms(2) have "receive_ok c" "receive_ok d" by (simp_all add: same_ended_def receive_inv_def)
    with assms(2) inner_eof_fresh [of c hp] inner_eof_fresh [of d hp] c1 d1 show ?thesis by (simp add: same_ended_def)
  qed
  then have "conn_role c1 = conn_role d1" "conn_state c1 = conn_state d1" by (auto dest: fresh_eqD)
  with same c1 d1 have "fst (next_event hp c) = fst (next_event hp d) \<and> fresh (snd (next_event hp c)) = fresh (snd (next_event hp d))"
    by (simp add: next_event_def Let_def)
  moreover have "eof (snd (next_event hp c))" "eof (snd (next_event hp d))"
    using assms discarding.next_event_R [OF assms(1), of c] discarding.next_event_R [OF assms(1), of d]
    by (metis discards_def prod.collapse same_ended_def)+
  ultimately show ?thesis
    using assms(2) next_event_inv [of c hp] next_event_inv [of d hp] by (simp add: same_ended_def)
qed

lemma same_ended_poll:
  "httparse_ok hp \<Longrightarrow> same_ended c d \<Longrightarrow> fuzz_poll hp c es b n = Some (t, c', es', b') \<Longrightarrow>
     \<exists>d'. fuzz_poll hp d es b n = Some (t, d', es', b') \<and> same_ended c' d'"
proof (induction n arbitrary: c d es b)
  case (Suc n)
  obtain r c1 where c1: "next_event hp c = (r, c1)" by fastforce
  with same_ended_step [OF Suc.prems(1,2)] obtain d1 where d1: "next_event hp d = (r, d1)" and same: "same_ended c1 d1"
    by (metis fst_conv snd_conv prod.collapse)
  note again = Suc.IH [OF Suc.prems(1) same]
  show ?case
  proof (cases r)
    case (Inr e)
    show ?thesis
    proof (cases e)
      case (NE_Event ev)
      with Inr c1 d1 same again Suc.prems(3) show ?thesis by (cases ev) (auto simp: Let_def)
    qed (use Inr c1 d1 same Suc.prems(3) in auto)
  qed (use c1 d1 same Suc.prems(3) in auto)
qed simp

lemma doomed_ends:
  assumes "doomed hp c []"
  shows "isl (fst (next_event hp (ended c)))"
proof -
  have c: "httparse_streams hp" "receive_ok c" "\<not> eof c" "isl (fst (next_event_inner hp (fresh c)))"
    using assms by (auto simp: doomed_def tracked_def listening_def react_def view_def)
  from inner_fails_ended [OF c(1,4)] c(2,3) have "isl (fst (next_event_inner hp (ended (fresh c))))"
    by (simp add: receive_ok_fresh)
  moreover have "fresh (ended c) = ended (fresh c)" by (simp add: fresh_def settle_def unwound_def)
  moreover have "receive_ok (ended c)" using c(2) by (simp add: receive_ok_def)
  ultimately have "isl (fst (next_event_inner hp (ended c)))" using inner_eof_fresh(1) [of "ended c" hp] by simp
  then show ?thesis by (cases "next_event_inner hp (ended c)") (simp add: next_event_def Let_def)
qed

section \<open>Runs\<close>

definition ends_run :: "'e httparse \<Rightarrow> usize \<Rightarrow> (Terminal \<times> Connection \<times> Event list \<times> u8 list)
    \<Rightarrow> (Terminal \<times> Connection \<times> Event list \<times> u8 list) option" where
  "ends_run hp n a =
     (case a of (t, c, es, b) \<Rightarrow> if t = T_Complete then fuzz_poll hp (ended c) es b n else Some a)"

lemma fuzz_run_ends:
  assumes "fuzz_connection role control = Some c"
    and "receive_chunks hp (fuzz_budget wire) (slice_chunks wire n) c [] [] T_Complete = Some (t, d, es, b)" and "\<not> eof d"
  shows "fuzz_run hp role control wire n =
    map_option (\<lambda>(t, c, es, b). fuzz_finish c es b t) (ends_run hp (fuzz_budget wire) (t, d, es, b))"
  using assms by (auto simp: fuzz_run_def ends_run_def receive_data_def split: option.split bind_splits)

lemma failed_run:
  assumes "t \<noteq> T_Complete \<or> doomed hp d []" and "ends_run hp n (t, d, es, b) = Some (t', d', es', b')"
  shows "t' \<noteq> T_Complete"
proof (cases "t = T_Complete")
  case True
  with assms(1) have "isl (fst (next_event hp (ended d)))" by (auto intro: doomed_ends)
  with assms(2) True show ?thesis
    by (cases n; cases "next_event hp (ended d)") (auto simp: ends_run_def split: sum.splits)
qed (use assms(2) in \<open>auto simp: ends_run_def\<close>)

lemma ended_same:
  assumes "tracked hp c []" and "tracked hp d []" and "fresh c = fresh d"
  shows "same_ended (ended c) (ended d)"
proof -
  have "fresh (ended x) = ended (fresh x)" for x by (simp add: fresh_def settle_def unwound_def)
  moreover have "receive_ok x \<Longrightarrow> receive_inv (ended x)" for x by (simp add: receive_ok_def receive_inv_def)
  ultimately show ?thesis using assms by (auto simp: same_ended_def tracked_def listening_def)
qed

lemma same_finish: "same_ended c d \<Longrightarrow> fuzz_finish c es b t = fuzz_finish d es b t"
  using fresh_eqD [of c d] by (simp add: same_ended_def fuzz_finish_def trailing_data_def local_state_def)

text \<open>Every run returns, and its outcome is that of draining all bytes at once.\<close>

definition agrees :: "Outcome \<Rightarrow> Outcome \<Rightarrow> bool" where
  "agrees w f \<longleftrightarrow>
     (outcome_terminal w = T_Complete \<longleftrightarrow> outcome_terminal f = T_Complete) \<and> (outcome_terminal w = T_Complete \<longrightarrow> w = f)"

lemma budget_suffices: "2 * length wire + 2 < usize_limit \<Longrightarrow> 2 * length wire + 1 < fuzz_budget wire"
  by (auto simp: fuzz_budget_def saturating_add_def saturating_mul_def MAX_EVENTS_def usize_limit_def)

lemma run_parts:
  assumes "httparse_ok hp" and "2 * length wire + 2 < usize_limit" and "0 < n"
    and "fuzz_connection role control = Some c" and "listening c" and "input c = buffer_default"
  obtains t d es b t' d' es' b' where
    "receive_chunks hp (fuzz_budget wire) (slice_chunks wire n) c [] [] T_Complete = Some (t, d, es, b)"
    and "ends_run hp (fuzz_budget wire) (t, d, es, b) = Some (t', d', es', b')"
    and "fuzz_run hp role control wire n = Some (fuzz_finish d' es' b' t')"
proof -
  note pieces = slice_chunks_pieces [OF assms(3), of wire]
  have "within (fuzz_budget wire) c (slice_chunks wire n)"
    using budget_suffices [OF assms(2)] assms(6) pieces by (simp add: within_def)
  then obtain t d es b where run: "receive_chunks hp (fuzz_budget wire) (slice_chunks wire n) c [] [] T_Complete = Some (t, d, es, b)"
    and d: "connection_inv d" "\<not> eof d" "within (fuzz_budget wire) d []"
    using receive_chunks_return [OF assms(1), of c "slice_chunks wire n" "fuzz_budget wire" "[]" "[]" T_Complete] pieces assms(5)
    unfolding listening_def by blast
  have "connection_inv (ended d)"
    using connection_inv_call [OF assms(1) d(1), of "A_ReceiveData []"] by (simp add: receive_data_def d(2))
  moreover have "potential (ended d) < fuzz_budget wire" using within_potential [OF d(3)] by (simp add: potential_def)
  ultimately have "\<exists>a. fuzz_poll hp (ended d) es b (fuzz_budget wire) = Some a"
    using poll_returns [OF assms(1), of "ended d" "fuzz_budget wire" es b] by blast
  then obtain t' d' es' b' where ends: "ends_run hp (fuzz_budget wire) (t, d, es, b) = Some (t', d', es', b')"
    by (cases "t = T_Complete") (auto simp: ends_run_def)
  then have "fuzz_run hp role control wire n = Some (fuzz_finish d' es' b' t')"
    by (simp add: fuzz_run_ends [OF assms(4) run d(2)])
  with run ends show thesis by (rule that)
qed

lemma run_drains:
  assumes "httparse_ok hp" and "httparse_streams hp" and "wire \<noteq> []" and "0 < n"
    and "listening c" and "input c = buffer_default" and "progress c = None" and "conn_role c = Server \<or> \<not> has_fold wire"
    and "receive_chunks hp k (slice_chunks wire n) c [] [] T_Complete = Some (t, d, es, b)"
  obtains r es1 b1 where "drains (react hp) (push (fresh c) wire) r es1 b1" and "polled hp t d [] r"
    and "r \<noteq> None \<longrightarrow> es = es1 \<and> b = b1"
proof -
  have pieces: "\<forall>p \<in> set (slice_chunks wire n). p \<noteq> []" "concat (slice_chunks wire n) = wire" "slice_chunks wire n \<noteq> []"
    using slice_chunks_pieces [OF assms(4), of wire] assms(3) by force+
  have track: "tracked hp c (concat (slice_chunks wire n) @ [])"
    using assms(1,2,5-8) pieces(2) by (simp add: tracked_def searched_None no_unfolding_def)
  from chunks_arrive [OF this pieces(1) assms(9)] obtain r es1 b1 where
    arr: "arrives (react hp) push (fresh c) (slice_chunks wire n) r es1 b1" "polled hp t d [] r"
    "r \<noteq> None \<longrightarrow> es = es1 \<and> b = b1" by auto
  from segments.segmentation_irrelevant [OF arr(1) _ pieces(1,3)] tracked_good [OF track] pieces(2) obtain es2 b2 where
    "drains (react hp) (push (fresh c) wire) r es2 b2" "r \<noteq> None \<longrightarrow> es2 = es1 \<and> b2 = b1" by auto
  with arr(2,3) show thesis by (intro that [of r es2 b2]) auto
qed

lemma polled_runs_agree:
  assumes "httparse_ok hp" and m: "ends_run hp n (t, d, es, b) = Some (t', d', es', b')" "polled hp t d [] r" "r \<noteq> None \<longrightarrow> es = es1 \<and> b = b1"
    and n: "ends_run hp n (u, e, fs, a) = Some (u', e', fs', a')" "polled hp u e [] r" "r \<noteq> None \<longrightarrow> fs = es1 \<and> a = b1"
  shows "agrees (fuzz_finish d' es' b' t') (fuzz_finish e' fs' a' u')"
proof (cases r)
  case None
  with m(2) n(2) have "t \<noteq> T_Complete \<or> doomed hp d []" "u \<noteq> T_Complete \<or> doomed hp e []"
    by (simp_all add: polled_def)
  from failed_run [OF this(1) m(1)] failed_run [OF this(2) n(1)] have "t' \<noteq> T_Complete" "u' \<noteq> T_Complete" .
  then show ?thesis by (simp add: agrees_def fuzz_finish_def Let_def)
next
  case (Some s)
  with m(2,3) n(2,3) have tracks: "tracked hp d []" "tracked hp e []" "fresh d = fresh e"
    and eqs: "t = T_Complete" "u = T_Complete" "fs = es" "a = b"
    by (simp_all add: polled_def)
  from m(1) eqs have "fuzz_poll hp (ended d) es b n = Some (t', d', es', b')" by (simp add: ends_run_def)
  from same_ended_poll [OF assms(1) ended_same [OF tracks] this] obtain e2 where
    "fuzz_poll hp (ended e) es b n = Some (t', e2, es', b')" "same_ended d' e2" by blast
  with n(1) eqs have "e' = e2" "u' = t'" "fs' = es'" "a' = b'" "same_ended d' e2" by (auto simp: ends_run_def)
  with same_finish [of d' e2] show ?thesis by (simp add: agrees_def)
qed

lemma runs_agree:
  assumes "httparse_ok hp" and "httparse_streams hp" and "2 * length wire + 2 < usize_limit" and "0 < m" and "0 < n"
    and "role = Server \<or> \<not> has_fold wire"
  shows "\<exists>w f. fuzz_run hp role control wire m = Some w \<and> fuzz_run hp role control wire n = Some f \<and> agrees w f"
proof -
  obtain c where c: "fuzz_connection role control = Some c" "listening c" "input c = buffer_default"
    "conn_role c = role" "progress c = None"
    by (rule fuzz_connection_listening)
  from assms(1,3,4) c(1-3) obtain t d es b t' d' es' b' where
    m: "receive_chunks hp (fuzz_budget wire) (slice_chunks wire m) c [] [] T_Complete = Some (t, d, es, b)"
    "ends_run hp (fuzz_budget wire) (t, d, es, b) = Some (t', d', es', b')"
    "fuzz_run hp role control wire m = Some (fuzz_finish d' es' b' t')"
    by (rule run_parts)
  from assms(1,3,5) c(1-3) obtain u e fs a u' e' fs' a' where
    n: "receive_chunks hp (fuzz_budget wire) (slice_chunks wire n) c [] [] T_Complete = Some (u, e, fs, a)"
    "ends_run hp (fuzz_budget wire) (u, e, fs, a) = Some (u', e', fs', a')"
    "fuzz_run hp role control wire n = Some (fuzz_finish e' fs' a' u')"
    by (rule run_parts)
  show ?thesis
  proof (cases "wire = []")
    case True
    then have "slice_chunks wire m = slice_chunks wire n" by (simp add: slice_chunks.simps)
    with m n show ?thesis by (simp add: agrees_def)
  next
    case False
    have fold: "conn_role c = Server \<or> \<not> has_fold wire" using assms(6) c(4) by simp
    from assms(1,2) False assms(4) c(2,3,5) fold m(1) obtain r es1 b1 where
      dm: "drains (react hp) (push (fresh c) wire) r es1 b1" "polled hp t d [] r" "r \<noteq> None \<longrightarrow> es = es1 \<and> b = b1"
      by (rule run_drains)
    from assms(1,2) False assms(5) c(2,3,5) fold n(1) obtain q es2 b2 where
      dn: "drains (react hp) (push (fresh c) wire) q es2 b2" "polled hp u e [] q" "q \<noteq> None \<longrightarrow> fs = es2 \<and> a = b2"
      by (rule run_drains)
    from drains_determ [OF dm(1) dn(1)] have "q = r" "es2 = es1" "b2 = b1" by simp_all
    with polled_runs_agree [OF assms(1) m(2) dm(2,3) n(2)] dn(2,3) m(3) n(3) show ?thesis by simp
  qed
qed

lemma client_poll:
  "httparse_ok hp \<Longrightarrow> conn_role c = Client \<Longrightarrow> fuzz_poll hp c es b n = Some (t, c', es', b') \<Longrightarrow>
     conn_role c' = Client \<and> (t = T_Complete \<or> t = T_Error None)"
proof (induction n arbitrary: c es b)
  case (Suc n)
  obtain r d where step: "next_event hp c = (r, d)" by fastforce
  with next_event_role [OF Suc.prems(1)] Suc.prems(2) have role: "conn_role d = Client" by simp
  note again = Suc.IH [OF Suc.prems(1) role]
  show ?case
  proof (cases r)
    case (Inl e)
    with step role have "suggested_status_code e = None" by (auto simp: next_event_def map_err_def Let_def split: prod.splits if_splits sum.splits)
    with Suc.prems(3) step role Inl show ?thesis by auto
  next
    case (Inr e)
    show ?thesis
    proof (cases e)
      case (NE_Event ev)
      with Inr step role again Suc.prems(3) show ?thesis by (cases ev) (auto simp: Let_def)
    qed (use Inr step role Suc.prems(3) in auto)
  qed
qed simp

lemma client_chunks:
  "httparse_ok hp \<Longrightarrow> conn_role c = Client \<Longrightarrow> receive_chunks hp n pieces c es b T_Complete = Some (t, c', es', b') \<Longrightarrow>
     conn_role c' = Client \<and> (t = T_Complete \<or> t = T_Error None)"
proof (induction pieces arbitrary: c es b)
  case (Cons p pieces)
  from Cons.prems(3) obtain d t1 c1 es1 b1 where d: "receive_data p c = (Inr (), d)"
    and poll: "fuzz_poll hp d es b n = Some (t1, c1, es1, b1)"
    and cont: "(case t1 of T_Error _ \<Rightarrow> Some (t1, c1, es1, b1) | T_Complete \<Rightarrow> receive_chunks hp n pieces c1 es1 b1 t1)
      = Some (t, c', es', b')"
    by (auto simp: unwrap_call_def split: bind_splits prod.splits sum.splits)
  have "conn_role d = Client" using d Cons.prems(2) by (auto simp: receive_data_def split: if_splits)
  from client_poll [OF Cons.prems(1) this poll] cont Cons.IH [OF Cons.prems(1), of c1 es1 b1] show ?case
    by (cases t1) auto
qed simp

lemma client_run:
  assumes "httparse_ok hp" and "fuzz_run hp Client control wire n = Some w"
  shows "outcome_terminal w = T_Complete \<or> outcome_terminal w = T_Error None"
proof -
  obtain c where c: "fuzz_connection Client control = Some c" "conn_role c = Client"
    by (rule fuzz_connection_listening)
  with assms(2) obtain t d es b where m: "receive_chunks hp (fuzz_budget wire) (slice_chunks wire n) c [] [] T_Complete = Some (t, d, es, b)"
    and cont: "do {
     (terminal, connection, events, body) \<leftarrow>
       (if t = T_Complete then do {
          (_, connection) \<leftarrow> unwrap_call (receive_data [] d);
          fuzz_poll hp connection es b (fuzz_budget wire)
        } else Some (t, d, es, b));
     Some (fuzz_finish connection events body terminal) } = Some w"
    by (auto simp: fuzz_run_def split: bind_splits)
  from client_chunks [OF assms(1) c(2) m] have d: "conn_role (ended d) = Client" "t = T_Complete \<or> t = T_Error None" by simp_all
  from cont d(2) client_poll [OF assms(1) d(1), of es b "fuzz_budget wire"] show ?thesis
    by (auto simp: receive_data_def fuzz_finish_def Let_def split: bind_splits if_splits) 
qed

section \<open>Properties\<close>

text \<open>C6. The outcome of feeding bytes to a connection and polling it after each arrival does not depend on how
  the bytes were cut into arrivals: every run returns, two runs with arrivals of any two sizes are
  both accepted or both end in an error, and accepted ones agree on the events, the body, the states of
  both sides and the bytes left over.  For a client the bytes have no obsolete line folding, which
  the crate normalizes only in what it has when it parses.\<close>

theorem fragmentation_preserves_the_outcome:
  assumes "httparse_ok hp" and "httparse_streams hp" and "2 * length wire + 2 < usize_limit" and "0 < m" and "0 < n"
    and "role = Server \<or> \<not> has_fold wire"
  shows "\<exists>w f. fuzz_run hp role control wire m = Some w \<and> fuzz_run hp role control wire n = Some f
    \<and> (outcome_terminal w = T_Complete \<longleftrightarrow> outcome_terminal f = T_Complete)
    \<and> (outcome_terminal w = T_Complete \<longrightarrow> w = f)"
  using runs_agree [OF assms] by (simp add: agrees_def)

lemma client_seed_plain: "\<not> has_fold (seed_wire Client control)"
proof -
  have "\<not> has_fold (bytes ''HTTP/1.1 200 OK'' @ CRLF @ bytes ''Content-Length: 4'' @ CRLF @ CRLF)" by code_simp
  moreover have "\<not> has_fold (bytes ''HTTP/1.1 200 Connection Established'' @ CRLF @ CRLF)" by code_simp
  moreover have "\<not> has_fold (bytes ''HTTP/1.1 101 Switching Protocols'' @ CRLF @ bytes ''Connection: upgrade'' @ CRLF
      @ bytes ''Upgrade: next-protocol'' @ CRLF @ CRLF)" by code_simp
  moreover have "\<not> has_fold (bytes ''HTTP/1.1 200 OK'' @ CRLF @ bytes ''Content-Length: 4'' @ CRLF @ CRLF @ bytes ''body'')"
    by code_simp
  ultimately show ?thesis by (simp only: seed_wire_def simp_thms if_True split: if_split)
qed

text \<open>On a client connection the fragmentation target never panics: all of its assertions hold for bytes
  without obsolete line folding.\<close>

theorem fragmentation_target_passes:
  assumes "httparse_ok hp" and "httparse_streams hp" and "2 * length (control # wire) < usize_limit"
    and "fuzz_role control = Client" and "\<not> has_fold wire"
  shows "h11r_fragmentation hp (control # wire) = Some ()"
proof -
  let ?wire = "fuzz_wire control wire"
  have seed: "length (seed_wire Client control) \<le> 200" by (simp add: seed_wire_def bytes_def)
  then have wire: "2 * length ?wire + 2 < usize_limit" using assms(3,4) by (simp add: fuzz_wire_def usize_limit_def)
  have fold: "Client = Server \<or> \<not> has_fold ?wire" using client_seed_plain assms(4,5) by (simp add: fuzz_wire_def)
  have sizes: "0 < max (length ?wire) 1" "0 < unat (and control 0x1f) + 1" by simp_all
  from runs_agree [OF assms(1,2) wire sizes fold, of control] obtain w f where
    w: "fuzz_run hp Client control ?wire (max (length ?wire) 1) = Some w"
    and f: "fuzz_run hp Client control ?wire (unat (and control 0x1f) + 1) = Some f" and "agrees w f"
    by blast
  note status = client_run [OF assms(1) w] client_run [OF assms(1) f]
  show ?thesis
  proof (cases "outcome_terminal w = T_Complete")
    case True
    with \<open>agrees w f\<close> have "w = f" unfolding agrees_def by blast
    with True w f show ?thesis unfolding h11r_fragmentation_def list.case Let_def assms(4) by (simp add: assert_def)
  next
    case False
    with \<open>agrees w f\<close> status have "outcome_terminal w = T_Error None" "outcome_terminal f = T_Error None"
      unfolding agrees_def by blast+
    with w f show ?thesis unfolding h11r_fragmentation_def list.case Let_def assms(4) by (simp add: assert_def)
  qed
qed

section \<open>Statuses of fragmented errors\<close>

text \<open>A server connection that waits for the rest of a request head, with the search position kept.\<close>

definition stalled :: "Connection \<Rightarrow> bool" where
  "stalled c \<longleftrightarrow>
     conn_role c = Server \<and> peer_state c = Idle \<and> conn_reader c = R_Head \<and> \<not> eof c \<and> buffer_wf (input c)
     \<and> length (unread c) \<le> head_limit c \<and> (\<exists>p. progress c = Some p \<and> search_resumes (Some p) (unread c) True)"

lemma stalled_waits:
  assumes "fst (poll progress_default (unread c) True) = None" and "conn_role c = Server" and "peer_state c = Idle"
    and "conn_reader c = R_Head" and "\<not> eof c" and "buffer_wf (input c)"
    and "progress c = None \<or> (\<exists>p. progress c = Some p \<and> search_resumes (Some p) (unread c) True)"
  shows "fst (wait_for_section True (c\<lparr>progress := snd (search (eof c) (progress c) (unread c) True)\<rparr>)) =
      (if head_limit c < length (unread c) then Inl (remote_err ''HTTP head exceeds max_head_bytes'' (Some 431)) else Inr NE_NeedData)"
    and "length (unread c) \<le> head_limit c \<Longrightarrow>
      stalled (snd (wait_for_section True (c\<lparr>progress := snd (search (eof c) (progress c) (unread c) True)\<rparr>)))"
proof -
  obtain p where p: "poll progress_default (unread c) True = (None, p)"
    using assms(1) by (cases "poll progress_default (unread c) True") auto
  then have again: "poll p (unread c) True = (None, p)"
    using poll_None_at [OF progress_wf_default p] by (simp add: poll_stop)
  have srch: "snd (search (eof c) (progress c) (unread c) True) \<in> {None, Some p}"
    using assms(5,7) p search_resumes_poll by (auto simp: search_def split: prod.split)
  show "fst (wait_for_section True (c\<lparr>progress := snd (search (eof c) (progress c) (unread c) True)\<rparr>)) =
      (if head_limit c < length (unread c) then Inl (remote_err ''HTTP head exceeds max_head_bytes'' (Some 431)) else Inr NE_NeedData)"
    using assms(2,5) by (simp add: wait_for_section_def need_data_or_eof_def Let_def)
  show "stalled (snd (wait_for_section True (c\<lparr>progress := snd (search (eof c) (progress c) (unread c) True)\<rparr>)))"
    if "length (unread c) \<le> head_limit c"
    using srch that assms(2-6) p again search_resumes_default [OF p]
    by (auto simp: stalled_def wait_for_section_def need_data_or_eof_def Let_def)
qed

lemma stalled_poll:
  assumes "fst (poll progress_default (unread c) True) = None" and "conn_role c = Server" and "peer_state c = Idle"
    and "conn_reader c = R_Head" and "\<not> eof c" and "buffer_wf (input c)"
    and "progress c = None \<and> hp_parse_request hp (unread c) (length (header_slots (max_header_count (limits c)))) = Inr None
      \<or> (\<exists>p. progress c = Some p \<and> search_resumes (Some p) (unread c) True)"
  shows "head_limit c < length (unread c) \<Longrightarrow> \<exists>c'. fuzz_poll hp c es b (Suc n) = Some (T_Error (Some 431), c', es, b)"
    and "length (unread c) \<le> head_limit c \<Longrightarrow>
      \<exists>c'. fuzz_poll hp c es b (Suc n) = Some (T_Complete, c', es, b) \<and> stalled c' \<and> unread c' = unread c \<and> limits c' = limits c"
proof -
  let ?w = "wait_for_section True (c\<lparr>progress := snd (search (eof c) (progress c) (unread c) True)\<rparr>)"
  have prog: "progress c = None \<or> (\<exists>p. progress c = Some p \<and> search_resumes (Some p) (unread c) True)" using assms(7) by blast
  note waits = stalled_waits [OF assms(1-6) prog]
  obtain p where p: "poll progress_default (unread c) True = (None, p)"
    using assms(1) by (cases "poll progress_default (unread c) True") auto
  have step: "next_event_inner hp c = ?w"
    using assms(2-5,7) search_resumes_poll p
    by (auto simp: head_goes_on read_head_search search_def parse_request_head_def)
  have kept: "unread (snd ?w) = unread c" "limits (snd ?w) = limits c" "conn_role (snd ?w) = Server"
    using assms(2) by (simp_all add: wait_for_section_def need_data_or_eof_def Let_def)
  show "\<exists>c'. fuzz_poll hp c es b (Suc n) = Some (T_Error (Some 431), c', es, b)" if "head_limit c < length (unread c)"
    using waits(1) that step kept(3) by (cases ?w) (auto simp: next_event_def Let_def)
  show "\<exists>c'. fuzz_poll hp c es b (Suc n) = Some (T_Complete, c', es, b) \<and> stalled c' \<and> unread c' = unread c \<and> limits c' = limits c"
    if "length (unread c) \<le> head_limit c"
    using waits(1,2) that step kept by (cases ?w) (auto simp: next_event_def Let_def)
qed

lemma poll_prefix_None:
  "fst (poll progress_default (take k d) skip) = None \<Longrightarrow> u @ x = d \<Longrightarrow> length u \<le> k \<Longrightarrow> fst (poll progress_default u skip) = None"
  using poll_default_append [of u skip _ "take (k - length u) x"] by (cases "fst (poll progress_default u skip)") auto

lemma stalled_chunks:
  "stalled c \<Longrightarrow> \<forall>p \<in> set pieces. p \<noteq> [] \<and> length p \<le> k \<Longrightarrow> head_limit c < length (unread c @ concat pieces) \<Longrightarrow>
     fst (poll progress_default (take (head_limit c + k) (unread c @ concat pieces)) True) = None \<Longrightarrow>
     \<exists>c'. receive_chunks hp (Suc n) pieces c es b T_Complete = Some (T_Error (Some 431), c', es, b)"
proof (induction pieces arbitrary: c)
  case Nil
  then show ?case by (simp add: stalled_def)
next
  case (Cons p pieces)
  let ?d = "c\<lparr>input := buffer_extend (input c) p\<rparr>"
  from Cons.prems(1,2) have recv: "receive_data p c = (Inr (), ?d)" by (simp add: receive_data_def stalled_def)
  from Cons.prems(1) have unread: "unread ?d = unread c @ p" by (simp add: stalled_def as_slice_extend)
  have "fst (poll progress_default (unread ?d) True) = None"
    unfolding unread by (rule poll_prefix_None [OF Cons.prems(4), where x = "concat pieces"])
      (use Cons.prems(1,2) in \<open>auto simp: stalled_def\<close>)
  moreover have "progress ?d = None \<and> hp_parse_request hp (unread ?d) (length (header_slots (max_header_count (limits ?d)))) = Inr None
      \<or> (\<exists>q. progress ?d = Some q \<and> search_resumes (Some q) (unread ?d) True)"
    using Cons.prems(1) search_resumes_append unread by (auto simp: stalled_def)
  moreover have "conn_role ?d = Server" "peer_state ?d = Idle" "conn_reader ?d = R_Head" "\<not> eof ?d" "buffer_wf (input ?d)"
    using Cons.prems(1) by (auto simp: stalled_def)
  ultimately have polls: "head_limit ?d < length (unread ?d) \<Longrightarrow> \<exists>c'. fuzz_poll hp ?d es b (Suc n) = Some (T_Error (Some 431), c', es, b)"
    "length (unread ?d) \<le> head_limit ?d \<Longrightarrow> \<exists>c'. fuzz_poll hp ?d es b (Suc n) = Some (T_Complete, c', es, b)
      \<and> stalled c' \<and> unread c' = unread ?d \<and> limits c' = limits ?d"
    by (blast intro: stalled_poll)+
  show ?case
  proof (cases "head_limit ?d < length (unread ?d)")
    case True
    with polls(1) recv show ?thesis by (auto simp del: fuzz_poll.simps)
  next
    case False
    with polls(2) obtain c' where c': "fuzz_poll hp ?d es b (Suc n) = Some (T_Complete, c', es, b)" "stalled c'"
      "unread c' = unread c @ p" "limits c' = limits c" using unread by auto
    with Cons.IH [OF c'(2)] Cons.prems(2-4) recv show ?thesis by (simp del: fuzz_poll.simps)
  qed
qed

definition small_limits :: Limits where
  "small_limits = \<lparr>max_head_bytes = 512, max_header_count = 8\<rparr>"

lemma small_server: "and control 0x80 \<noteq> 0 \<Longrightarrow> fuzz_connection Server control = Some (connection_new Server small_limits)"
  by (simp add: fuzz_connection_def limits_new_def small_limits_def Let_def)

lemma budget_positive: "\<exists>k. fuzz_budget wire = Suc k"
proof -
  have "0 < fuzz_budget wire"
    by (simp add: fuzz_budget_def saturating_add_def saturating_mul_def MAX_EVENTS_def usize_limit_def)
  then show ?thesis by (auto simp: gr0_conv_Suc)
qed

lemma first_arrival:
  assumes "x \<noteq> []"
  defines "d \<equiv> (connection_new Server small_limits)\<lparr>input := buffer_extend buffer_default x\<rparr>"
  shows "receive_data x (connection_new Server small_limits) = (Inr (), d)" and "unread d = x" and "limits d = small_limits"
    and "conn_role d = Server" and "peer_state d = Idle" and "conn_reader d = R_Head" and "\<not> eof d" and "buffer_wf (input d)"
    and "progress d = None"
  using assms(1) input.invar_append [OF input.invar_empty]
  by (simp_all add: receive_data_def connection_new_def d_def peer_state_def state_new_def as_slice_extend)

lemma chunks_first: "0 < n \<Longrightarrow> wire \<noteq> [] \<Longrightarrow> slice_chunks wire n = take n wire # slice_chunks (drop n wire) n"
  by (simp add: slice_chunks.simps [of wire n])

lemma slice_chunks_lengths: "p \<in> set (slice_chunks xs n) \<Longrightarrow> length p \<le> n"
  by (induction xs n rule: slice_chunks.induct) (subst (asm) (2) slice_chunks.simps, auto split: if_splits)

lemma whole_head_refused:
  assumes "and control 0x80 \<noteq> 0" and "wire \<noteq> []"
    and "hp_parse_request hp wire 8 = Inl e" and "e \<noteq> hp_too_many_headers hp"
  shows "\<exists>w. fuzz_run hp Server control wire (length wire) = Some w \<and> outcome_terminal w = T_Error (Some 400)"
proof -
  obtain k where k: "fuzz_budget wire = Suc k" using budget_positive by blast
  note run = fuzz_run_def small_server [OF assms(1)] k
  note d = first_arrival [OF assms(2)]
  let ?d = "(connection_new Server small_limits)\<lparr>input := buffer_extend buffer_default wire\<rparr>"
  have "fst (next_event_inner hp ?d) = Inl (remote_err (''invalid request head: '' @ hp_display hp e) (Some 400))"
    using assms(3,4) d by (simp add: head_goes_on read_head_search search_def parse_request_head_def small_limits_def)
  moreover have "conn_role (snd (next_event_inner hp ?d)) = Server"
    using assms(3,4) d by (simp add: head_goes_on read_head_search search_def parse_request_head_def small_limits_def)
  ultimately obtain d' where "fuzz_poll hp ?d [] [] (Suc k) = Some (T_Error (Some 400), d', [], [])"
    by (cases "next_event_inner hp ?d") (simp add: next_event_def Let_def)
  then show ?thesis
    using d(1) assms(2) by (simp add: run chunks_first fuzz_finish_def Let_def del: fuzz_poll.simps)
qed

lemma pieces_too_long:
  assumes "and control 0x80 \<noteq> 0" and "0 < n" and "n \<le> 512" and "512 < length wire"
    and "hp_parse_request hp (take n wire) 8 = Inr None"
    and "fst (poll progress_default (take (512 + n) wire) True) = None"
  shows "\<exists>f. fuzz_run hp Server control wire n = Some f \<and> outcome_terminal f = T_Error (Some 431)"
proof -
  obtain k where k: "fuzz_budget wire = Suc k" using budget_positive by blast
  have ne: "wire \<noteq> []" "take n wire \<noteq> []" using assms(2,4) by auto
  note run = fuzz_run_def small_server [OF assms(1)] k
  note d = first_arrival [OF ne(2)]
  let ?d = "(connection_new Server small_limits)\<lparr>input := buffer_extend buffer_default (take n wire)\<rparr>"
  have none: "fst (poll progress_default (unread ?d) True) = None"
    unfolding d(2) by (rule poll_prefix_None [OF assms(6), where x = "drop n wire"]) simp_all
  have fits: "length (unread ?d) \<le> head_limit ?d" using assms(3) d(2,3) by (simp add: small_limits_def)
  have partial: "progress ?d = None \<and> hp_parse_request hp (unread ?d) (length (header_slots (max_header_count (limits ?d)))) = Inr None"
    using d assms(5) by (simp add: small_limits_def)
  from stalled_poll(2) [OF none d(4-8) disjI1 [OF partial] fits, of "[]" "[]" k] obtain c' where
    first: "fuzz_poll hp ?d [] [] (Suc k) = Some (T_Complete, c', [], [])" "stalled c'"
    "unread c' = take n wire" "limits c' = small_limits"
    unfolding d(2,3) by blast
  obtain c'' where "receive_chunks hp (Suc k) (slice_chunks (drop n wire) n) c' [] [] T_Complete = Some (T_Error (Some 431), c'', [], [])"
    using stalled_chunks [OF first(2), of "slice_chunks (drop n wire) n" n hp k "[]" "[]"] slice_chunks_lengths [of _ "drop n wire" n]
      slice_chunks_pieces [OF assms(2), of "drop n wire"] first(3,4) assms(4,6)
    unfolding small_limits_def by auto
  with d(1) first(1) assms(2) ne(1) show ?thesis
    by (simp add: run chunks_first fuzz_finish_def Let_def del: fuzz_poll.simps)
qed

lemma piece_size: "unat (and control (0x1f :: u8)) + 1 \<le> 512"
proof -
  have "and control (0x1f :: u8) \<le> 0x1f" by (rule word_and_le1)
  then show ?thesis by (simp add: word_le_nat_alt)
qed

text \<open>C34. The fragmentation target can fail on a server: the status of an error depends on the arrivals.  Let the
  control byte choose the server role and the small limits, and the input be longer than the limit of 512
  bytes.  If the head parser rejects the whole input (not for its number of fields), finds the first piece
  incomplete, and no empty line ends a head within the first 512 bytes and one more piece, the input is
  answered with 400 when it arrives at once and with 431 when it arrives in the pieces that the control
  byte asks for; so the target's assertion on the terminals fails, and the target panics.\<close>

theorem fragmentation_changes_the_status:
  assumes "and control 0x80 \<noteq> 0" and "fuzz_role control = Server" and "n = unat (and control 0x1f) + 1" and "512 < length wire"
    and "hp_parse_request hp wire 8 = Inl e" and "e \<noteq> hp_too_many_headers hp"
    and "hp_parse_request hp (take n wire) 8 = Inr None"
    and "fst (poll progress_default (take (512 + n) wire) True) = None"
  shows "(\<exists>w f. fuzz_run hp Server control wire (length wire) = Some w \<and> outcome_terminal w = T_Error (Some 400)
      \<and> fuzz_run hp Server control wire n = Some f \<and> outcome_terminal f = T_Error (Some 431))
    \<and> h11r_fragmentation hp (control # wire) = None"
proof -
  have wire: "wire \<noteq> []" "max (length wire) 1 = length wire" "fuzz_wire control wire = wire"
    using assms(4) by (auto simp: fuzz_wire_def)
  have n: "0 < n" "n \<le> 512" using piece_size [of control] by (simp_all add: assms(3))
  obtain w where w: "fuzz_run hp Server control wire (length wire) = Some w" "outcome_terminal w = T_Error (Some 400)"
    using whole_head_refused [OF assms(1) wire(1) assms(5,6)] by blast
  obtain f where f: "fuzz_run hp Server control wire n = Some f" "outcome_terminal f = T_Error (Some 431)"
    using pieces_too_long [OF assms(1) n assms(4,7,8)] by blast
  have "outcome_terminal w \<noteq> outcome_terminal f" using w(2) f(2) by simp
  then have "h11r_fragmentation hp (control # wire) = None"
    using w(1) f(1) unfolding h11r_fragmentation_def list.case Let_def assms(2) wire(3) wire(2) assms(3) [symmetric]
    by (simp add: assert_def)
  with w f show ?thesis by blast
qed

theorem fragmentation_preserves_the_outcome_witness:
  "\<exists>w f. fuzz_run sample_httparse Server 0x80 (bytes ''GET'') 3 = Some w \<and> fuzz_run sample_httparse Server 0x80 (bytes ''GET'') 1 = Some f
    \<and> (outcome_terminal w = T_Complete \<longleftrightarrow> outcome_terminal f = T_Complete)
    \<and> (outcome_terminal w = T_Complete \<longrightarrow> w = f)"
  using fragmentation_preserves_the_outcome [OF sample_httparse_ok sample_httparse_streams, of "bytes ''GET''" 3 1 Server "0x80"]
  by (simp add: bytes_def usize_limit_def)

theorem fragmentation_target_passes_witness: "h11r_fragmentation sample_httparse (0x41 # bytes ''HTTP/1.1'') = Some ()"
proof -
  have "fuzz_role 0x41 = Client" "\<not> has_fold (bytes ''HTTP/1.1'')" by code_simp+
  then show ?thesis
    using fragmentation_target_passes [OF sample_httparse_ok sample_httparse_streams, of "0x41" "bytes ''HTTP/1.1''"]
    by (simp add: bytes_def usize_limit_def)
qed

text \<open>A parser that rejects a zero byte as soon as it sees one.\<close>

definition strict_httparse :: "bool httparse" where
  "strict_httparse = sample_httparse\<lparr>hp_parse_request := \<lambda>d n. if 0 \<in> set d then Inl False else sample_parse_request d n\<rparr>"

lemma no_line_end: "LF \<notin> set d \<Longrightarrow> fst (poll progress_default d skip) = None"
proof -
  assume none: "LF \<notin> set d"
  have "\<not> empty_line_ends d n" for n
  proof
    assume "empty_line_ends d n"
    then have "n - 1 < length d" "d ! (n - 1) = LF" by (auto simp: empty_line_ends_def)
    with none show False by (metis nth_mem)
  qed
  then have "\<not> section_ends d skip n" for n by (simp add: section_ends_def)
  with poll_scan [OF scan_inv_default, of d skip] show ?thesis by (auto split: option.splits)
qed

definition long_head :: "u8 list" where
  "long_head = replicate 600 0x61 @ [0]"

theorem fragmentation_changes_the_status_witness: "h11r_fragmentation strict_httparse (0x80 # long_head) = None"
proof -
  have c: "and (0x80 :: u8) 0x80 \<noteq> 0" "fuzz_role 0x80 = Server" "1 = unat (and (0x80 :: u8) 0x1f) + 1" by code_simp+
  have "512 < length long_head" by (simp add: long_head_def)
  moreover have "hp_parse_request strict_httparse long_head 8 = Inl False" by (simp add: strict_httparse_def long_head_def)
  moreover have "False \<noteq> hp_too_many_headers strict_httparse" by (simp add: strict_httparse_def sample_httparse_def)
  moreover have "take 1 long_head = [0x61]" by (simp add: long_head_def take_replicate)
  then have "hp_parse_request strict_httparse (take 1 long_head) 8 = Inr None"
    by (simp add: strict_httparse_def sample_parse_request_def no_line_end)
  moreover have "fst (poll progress_default (take (512 + 1) long_head) True) = None"
    by (rule no_line_end) (simp add: long_head_def take_replicate)
  ultimately show ?thesis by (rule fragmentation_changes_the_status [OF c, THEN conjunct2])
qed

end
