(* ===== verification/Python_Values.thy ===== *)
theory Python_Values
  imports Sending
begin

text \<open>
  The Python bindings (\<^verbatim>\<open>crates/h11r-python/src/api.rs\<close>), first part: the event classes with their
  equality, the conversions of core values into Python values, and the conversions of Python
  arguments into core values.

  The Python runtime and PyO3 are not part of the repository.  Objects are an opaque type \<open>'o\<close>, and
  what the bindings ask of the runtime is the record \<open>python\<close>: casts to \<^verbatim>\<open>bytes\<close>, \<^verbatim>\<open>str\<close> and
  \<^verbatim>\<open>tuple\<close>, memory views, attribute access, iteration and integer extraction, each with the exceptions
  of type \<open>'x\<close> they may raise.  The values the bindings create are modelled by their contents: a
  \<^verbatim>\<open>Py<PyBytes>\<close> is its bytes, and a \<^verbatim>\<open>Py<PyTuple>\<close> of header pairs is the list of the pairs.  Failures to
  allocate such values are not modelled, nor is an error of Python's comparison of two such tuples, which
  compare by their bytes.  An iterator is the list of what it yields, so that one that never ends, or
  whose steps change other arguments, has no counterpart here.
\<close>

section \<open>Exceptions and the runtime\<close>

text \<open>An exception: one of the classes the bindings raise themselves, with its message and, for the
  remote error, its attribute \<^verbatim>\<open>suggested_status_code\<close>; or one that the runtime raised.\<close>

datatype 'x py_err =
    Py_TypeError string
  | Py_ValueError string
  | Py_LocalProtocolError string
  | Py_RemoteProtocolError string "u16 option"
  | Py_Raised 'x

record ('o, 'x) python =
  cast_bytes :: "'o \<Rightarrow> u8 list option"
  cast_str :: "'o \<Rightarrow> ('x + u8 list) option"
  cast_tuple :: "'o \<Rightarrow> 'o list option"
  memoryview :: "'o \<Rightarrow> 'x + 'o"
  call_tobytes :: "'o \<Rightarrow> 'x + 'o"
  cast_into_bytes_error :: "'o \<Rightarrow> 'x"
  getattr :: "'o \<Rightarrow> string \<Rightarrow> 'x + 'o"
  extract_bool :: "'o \<Rightarrow> 'x + bool"
  extract_usize :: "'o \<Rightarrow> 'x + usize"
  try_iter :: "'o \<Rightarrow> 'x + ('x + 'o) list"
  setattr_status_error :: "u16 option \<Rightarrow> 'x option"
  raised_type_error :: "'x \<Rightarrow> bool"
  raised_attribute_error :: "'x \<Rightarrow> bool"

definition raised :: "'x + 'a \<Rightarrow> 'x py_err + 'a" where
  "raised r = map_err Py_Raised r"

fun is_type_error :: "('o, 'x) python \<Rightarrow> 'x py_err \<Rightarrow> bool" where
  "is_type_error py (Py_TypeError _) = True"
| "is_type_error py (Py_Raised x) = raised_type_error py x"
| "is_type_error py _ = False"

definition bind_result :: "'e + 'a \<Rightarrow> ('a \<Rightarrow> 'e + 'b) \<Rightarrow> 'e + 'b" where
  "bind_result r f = (case r of Inl e \<Rightarrow> Inl e | Inr x \<Rightarrow> f x)"

lemma bind_result_simps [simp]: "bind_result (Inl e) f = Inl e" "bind_result (Inr x) f = f x"
  by (simp_all add: bind_result_def)

lemma bind_result_Inr: "bind_result r f = Inr y \<longleftrightarrow> (\<exists>x. r = Inr x \<and> f x = Inr y)"
  by (cases r) simp_all

lemma raised_simps [simp]: "raised (Inl x) = Inl (Py_Raised x)" "raised (Inr a) = Inr a"
  by (simp_all add: raised_def)

section \<open>Messages of the core's errors\<close>

definition display_invalid_limits :: "InvalidLimits \<Rightarrow> string" where
  "display_invalid_limits _ = ''HTTP limits must be non-zero''"

definition display_invalid_method :: "InvalidMethod \<Rightarrow> string" where
  "display_invalid_method _ = ''HTTP method must be a non-empty token''"

definition display_invalid_status :: "InvalidStatusCode \<Rightarrow> string" where
  "display_invalid_status _ = ''HTTP status code must be between 100 and 599''"

definition display_local :: "LocalProtocolError \<Rightarrow> string" where
  "display_local error = local_message error"

definition display_remote :: "RemoteProtocolError \<Rightarrow> string" where
  "display_remote error = remote_message error"

definition local_error :: "LocalProtocolError \<Rightarrow> 'x py_err" where
  "local_error error = Py_LocalProtocolError (display_local error)"

definition remote_error :: "('o, 'x) python \<Rightarrow> RemoteProtocolError \<Rightarrow> 'x py_err" where
  "remote_error py error =
     (let status = suggested_status_code error in
      case setattr_status_error py status of
        Some set_error \<Rightarrow> Py_Raised set_error
      | None \<Rightarrow> Py_RemoteProtocolError (display_remote error) status)"

section \<open>Enumerations\<close>

datatype PyRole = PyClient | PyServer

fun role_from :: "PyRole \<Rightarrow> Role" where
  "role_from PyClient = Client"
| "role_from PyServer = Server"

datatype PyState =
    PyIdle | PySendResponse | PySendBody | PyDone | PyMightSwitchProtocol | PySwitchedProtocol
  | PyMustClose | PyClosed | PyError

fun state_from :: "State \<Rightarrow> PyState" where
  "state_from Idle = PyIdle"
| "state_from SendResponse = PySendResponse"
| "state_from SendBody = PySendBody"
| "state_from Done = PyDone"
| "state_from MightSwitchProtocol = PyMightSwitchProtocol"
| "state_from SwitchedProtocol = PySwitchedProtocol"
| "state_from MustClose = PyMustClose"
| "state_from Closed = PyClosed"
| "state_from Error = PyError"

datatype PyReceiveStatus = PyNeedData | PyPaused

section \<open>Event classes\<close>

type_synonym PyBytes = "u8 list"
type_synonym PyHeaders = "(PyBytes \<times> PyBytes) list"

definition bytes_eq :: "PyBytes \<Rightarrow> PyBytes \<Rightarrow> bool" where
  "bytes_eq left right \<longleftrightarrow> left = right"

text \<open>Equality of two Python tuples of tuples of bytes: the same length, and equal items.\<close>

fun tuple_eq :: "PyHeaders \<Rightarrow> PyHeaders \<Rightarrow> bool" where
  "tuple_eq [] [] = True"
| "tuple_eq ((a, b) # left) ((c, d) # right) \<longleftrightarrow> a = c \<and> b = d \<and> tuple_eq left right"
| "tuple_eq _ _ = False"

definition py_headers :: "Header list \<Rightarrow> PyHeaders" where
  "py_headers headers = map (\<lambda>(name, value). (name, value)) headers"

fun py_version :: "Version \<Rightarrow> PyBytes" where
  "py_version Http10 = bytes ''1.0''"
| "py_version Http11 = bytes ''1.1''"

record PyRequest =
  pyreq_method :: PyBytes
  pyreq_target :: PyBytes
  pyreq_headers :: PyHeaders
  pyreq_http_version :: PyBytes

definition PyRequest_from_core :: "Request \<Rightarrow> PyRequest" where
  "PyRequest_from_core value =
     \<lparr>pyreq_method = as_bytes (req_method value), pyreq_target = req_target value,
      pyreq_headers = py_headers (req_headers value), pyreq_http_version = py_version (req_http_version value)\<rparr>"

definition PyRequest_eq :: "PyRequest \<Rightarrow> PyRequest \<Rightarrow> bool" where
  "PyRequest_eq self other \<longleftrightarrow>
     bytes_eq (pyreq_method self) (pyreq_method other) \<and> bytes_eq (pyreq_target self) (pyreq_target other)
     \<and> tuple_eq (pyreq_headers self) (pyreq_headers other)
     \<and> bytes_eq (pyreq_http_version self) (pyreq_http_version other)"

record PyResponseValue =
  pyresp_status_code :: u16
  pyresp_reason :: PyBytes
  pyresp_headers :: PyHeaders
  pyresp_http_version :: PyBytes

definition PyResponseValue_from_core :: "Response \<Rightarrow> PyResponseValue" where
  "PyResponseValue_from_core value =
     \<lparr>pyresp_status_code = as_u16 (resp_status value), pyresp_reason = resp_reason value,
      pyresp_headers = py_headers (resp_headers value), pyresp_http_version = py_version (resp_http_version value)\<rparr>"

definition PyResponseValue_eq :: "PyResponseValue \<Rightarrow> PyResponseValue \<Rightarrow> bool" where
  "PyResponseValue_eq self other \<longleftrightarrow>
     pyresp_status_code self = pyresp_status_code other \<and> bytes_eq (pyresp_reason self) (pyresp_reason other)
     \<and> tuple_eq (pyresp_headers self) (pyresp_headers other)
     \<and> bytes_eq (pyresp_http_version self) (pyresp_http_version other)"

datatype PyInformationalResponse = PyInformationalResponse PyResponseValue

fun PyInformationalResponse_eq :: "PyInformationalResponse \<Rightarrow> PyInformationalResponse \<Rightarrow> bool" where
  "PyInformationalResponse_eq (PyInformationalResponse self) (PyInformationalResponse other) =
     PyResponseValue_eq self other"

text \<open>The getters of the class.\<close>

primrec info_status_code :: "PyInformationalResponse \<Rightarrow> u16" where
  "info_status_code (PyInformationalResponse value) = pyresp_status_code value"

primrec info_reason :: "PyInformationalResponse \<Rightarrow> PyBytes" where
  "info_reason (PyInformationalResponse value) = pyresp_reason value"

primrec info_headers :: "PyInformationalResponse \<Rightarrow> PyHeaders" where
  "info_headers (PyInformationalResponse value) = pyresp_headers value"

primrec info_http_version :: "PyInformationalResponse \<Rightarrow> PyBytes" where
  "info_http_version (PyInformationalResponse value) = pyresp_http_version value"

datatype PyResponse = PyResponse PyResponseValue

fun PyResponse_eq :: "PyResponse \<Rightarrow> PyResponse \<Rightarrow> bool" where
  "PyResponse_eq (PyResponse self) (PyResponse other) = PyResponseValue_eq self other"

primrec response_status_code :: "PyResponse \<Rightarrow> u16" where
  "response_status_code (PyResponse value) = pyresp_status_code value"

primrec response_reason :: "PyResponse \<Rightarrow> PyBytes" where
  "response_reason (PyResponse value) = pyresp_reason value"

primrec response_headers :: "PyResponse \<Rightarrow> PyHeaders" where
  "response_headers (PyResponse value) = pyresp_headers value"

primrec response_http_version :: "PyResponse \<Rightarrow> PyBytes" where
  "response_http_version (PyResponse value) = pyresp_http_version value"

record PyData =
  pydata_data :: PyBytes
  pydata_chunk_start :: bool
  pydata_chunk_end :: bool

definition PyData_eq :: "PyData \<Rightarrow> PyData \<Rightarrow> bool" where
  "PyData_eq self other \<longleftrightarrow>
     bytes_eq (pydata_data self) (pydata_data other) \<and> pydata_chunk_start self = pydata_chunk_start other
     \<and> pydata_chunk_end self = pydata_chunk_end other"

record PyEndOfMessage =
  pyeom_trailers :: PyHeaders

definition PyEndOfMessage_eq :: "PyEndOfMessage \<Rightarrow> PyEndOfMessage \<Rightarrow> bool" where
  "PyEndOfMessage_eq self other \<longleftrightarrow> tuple_eq (pyeom_trailers self) (pyeom_trailers other)"

datatype PyConnectionClosed = PyConnectionClosed

definition PyConnectionClosed_new :: PyConnectionClosed where
  "PyConnectionClosed_new = PyConnectionClosed"

text \<open>The objects that \<^verbatim>\<open>next_event\<close> returns.\<close>

datatype PyNext =
    Py_Request PyRequest
  | Py_InformationalResponse PyInformationalResponse
  | Py_Response PyResponse
  | Py_Data PyData
  | Py_EndOfMessage PyEndOfMessage
  | Py_ConnectionClosed PyConnectionClosed
  | Py_Status PyReceiveStatus

fun event_to_py :: "Event \<Rightarrow> PyNext" where
  "event_to_py (Ev_Request value) = Py_Request (PyRequest_from_core value)"
| "event_to_py (Ev_InformationalResponse value) =
     Py_InformationalResponse (PyInformationalResponse (PyResponseValue_from_core value))"
| "event_to_py (Ev_Response value) = Py_Response (PyResponse (PyResponseValue_from_core value))"
| "event_to_py (Ev_Data value) =
     Py_Data \<lparr>pydata_data = data_bytes value, pydata_chunk_start = chunk_start value,
              pydata_chunk_end = chunk_end value\<rparr>"
| "event_to_py (Ev_EndOfMessage value) = Py_EndOfMessage \<lparr>pyeom_trailers = py_headers (eom_trailers value)\<rparr>"
| "event_to_py Ev_ConnectionClosed = Py_ConnectionClosed PyConnectionClosed"

text \<open>Python's \<^verbatim>\<open>==\<close> on these objects: objects of different classes are not equal.\<close>

fun py_eq :: "PyNext \<Rightarrow> PyNext \<Rightarrow> bool" where
  "py_eq (Py_Request a) (Py_Request b) = PyRequest_eq a b"
| "py_eq (Py_InformationalResponse a) (Py_InformationalResponse b) = PyInformationalResponse_eq a b"
| "py_eq (Py_Response a) (Py_Response b) = PyResponse_eq a b"
| "py_eq (Py_Data a) (Py_Data b) = PyData_eq a b"
| "py_eq (Py_EndOfMessage a) (Py_EndOfMessage b) = PyEndOfMessage_eq a b"
| "py_eq (Py_ConnectionClosed a) (Py_ConnectionClosed b) \<longleftrightarrow> a = b"
| "py_eq (Py_Status a) (Py_Status b) \<longleftrightarrow> a = b"
| "py_eq _ _ = False"

section \<open>Arguments\<close>

definition with_buffer_bytes :: "('o, 'x) python \<Rightarrow> 'o \<Rightarrow> (u8 list \<Rightarrow> 'r) \<Rightarrow> 'x py_err + 'r" where
  "with_buffer_bytes py value consume =
     (case cast_bytes py value of
        Some contents \<Rightarrow> Inr (consume contents)
      | None \<Rightarrow>
          bind_result (raised (memoryview py value)) (\<lambda>view.
          bind_result (raised (call_tobytes py view)) (\<lambda>object.
          case cast_bytes py object of
            None \<Rightarrow> Inl (Py_Raised (cast_into_bytes_error py object))
          | Some contents \<Rightarrow> Inr (consume contents))))"

definition contiguous_buffer_len :: "('o, 'x) python \<Rightarrow> 'o \<Rightarrow> 'x py_err + usize" where
  "contiguous_buffer_len py value =
     (case cast_bytes py value of
        Some contents \<Rightarrow> Inr (length contents)
      | None \<Rightarrow>
          bind_result (raised (memoryview py value)) (\<lambda>view.
          bind_result (raised (getattr py view ''contiguous'')) (\<lambda>object.
          bind_result (raised (extract_bool py object)) (\<lambda>contiguous.
          if \<not> contiguous then Inl (Py_ValueError ''send_data_parts requires a contiguous buffer'')
          else bind_result (raised (getattr py view ''nbytes'')) (\<lambda>object. raised (extract_usize py object))))))"

definition body_nbytes :: "('o, 'x) python \<Rightarrow> 'o \<Rightarrow> 'x py_err + usize" where
  "body_nbytes py value =
     (case contiguous_buffer_len py value of
        Inr len \<Rightarrow> Inr len
      | Inl buffer_error \<Rightarrow>
          if is_type_error py buffer_error then
            (case getattr py value ''nbytes'' of
               Inr len \<Rightarrow> raised (extract_usize py len)
             | Inl error \<Rightarrow> if raised_attribute_error py error then Inl buffer_error else Inl (Py_Raised error))
          else Inl buffer_error)"

definition is_ascii :: "u8 list \<Rightarrow> bool" where
  "is_ascii text = list_all (\<lambda>byte. byte < 0x80) text"

definition text_or_buffer :: "('o, 'x) python \<Rightarrow> 'o \<Rightarrow> 'x py_err + u8 list" where
  "text_or_buffer py value =
     (case cast_str py value of
        Some to_str \<Rightarrow>
          bind_result (raised to_str) (\<lambda>text.
          if \<not> is_ascii text then Inl (Py_ValueError ''HTTP str inputs must be ASCII'') else Inr text)
      | None \<Rightarrow> with_buffer_bytes py value (\<lambda>contents. contents))"

definition extract_method :: "('o, 'x) python \<Rightarrow> 'o \<Rightarrow> 'x py_err + Method" where
  "extract_method py value =
     (case cast_str py value of
        Some to_str \<Rightarrow>
          bind_result (raised to_str) (\<lambda>text.
          if \<not> is_ascii text then Inl (Py_ValueError ''HTTP str inputs must be ASCII'')
          else map_err (\<lambda>error. Py_ValueError (display_invalid_method error)) (method_from_bytes text))
      | None \<Rightarrow>
          bind_result (with_buffer_bytes py value method_from_bytes) (\<lambda>method.
          map_err (\<lambda>error. Py_ValueError (display_invalid_method error)) method))"

definition extract_header :: "('o, 'x) python \<Rightarrow> 'x + 'o \<Rightarrow> 'x py_err + Header" where
  "extract_header py item =
     bind_result (raised item) (\<lambda>item.
     case cast_tuple py item of
       None \<Rightarrow> Inl (Py_TypeError ''each header must be a 2-tuple'')
     | Some pair \<Rightarrow>
         (case pair of
            [name, value] \<Rightarrow>
              bind_result (text_or_buffer py name) (\<lambda>name.
              bind_result (text_or_buffer py value) (\<lambda>value. Inr (name, value)))
          | _ \<Rightarrow> Inl (Py_TypeError ''each header must contain name and value'')))"

text \<open>\<^verbatim>\<open>collect\<close> into a \<^verbatim>\<open>Result\<close>: the first error ends the iteration.\<close>

fun collect_headers :: "('o, 'x) python \<Rightarrow> ('x + 'o) list \<Rightarrow> 'x py_err + Header list" where
  "collect_headers py [] = Inr []"
| "collect_headers py (item # items) =
     bind_result (extract_header py item) (\<lambda>header.
     bind_result (collect_headers py items) (\<lambda>headers. Inr (header # headers)))"

definition extract_headers :: "('o, 'x) python \<Rightarrow> 'o option \<Rightarrow> 'x py_err + Header list" where
  "extract_headers py value =
     (case value of
        None \<Rightarrow> Inr []
      | Some value \<Rightarrow> bind_result (raised (try_iter py value)) (collect_headers py))"

definition optional_bytes :: "('o, 'x) python \<Rightarrow> 'o option \<Rightarrow> 'x py_err + u8 list" where
  "optional_bytes py value = (case value of None \<Rightarrow> Inr [] | Some value \<Rightarrow> text_or_buffer py value)"

definition quoted :: "string \<Rightarrow> string" where
  "quoted text = [CHR 0x27] @ text @ [CHR 0x27]"

definition extract_version :: "('o, 'x) python \<Rightarrow> 'o option \<Rightarrow> 'x py_err + Version" where
  "extract_version py value =
     (case value of
        None \<Rightarrow> Inr Http11
      | Some value \<Rightarrow>
          bind_result (text_or_buffer py value) (\<lambda>text.
          if text = bytes ''1.1'' then Inr Http11
          else if text = bytes ''1.0'' then Inr Http10
          else Inl (Py_ValueError (''http_version must be b'' @ quoted ''1.0'' @ '' or b'' @ quoted ''1.1''))))"

definition py_status :: "u16 \<Rightarrow> 'x py_err + StatusCode" where
  "py_status value = map_err (\<lambda>error. Py_ValueError (display_invalid_status error)) (status_from_u16 value)"

definition PyEndOfMessage_new :: "('o, 'x) python \<Rightarrow> 'o option \<Rightarrow> 'x py_err + PyEndOfMessage" where
  "PyEndOfMessage_new py trailers =
     bind_result (extract_headers py trailers) (\<lambda>trailers. Inr \<lparr>pyeom_trailers = py_headers trailers\<rparr>)"

end
