(* ===== verification/Python_Connection.thy ===== *)
theory Python_Connection
  imports Python_Values Reports
begin

text \<open>
  The Python bindings (\<^verbatim>\<open>crates/h11r-python/src/api.rs\<close>), second part: the class \<^verbatim>\<open>Connection\<close>.  A Python
  connection is a core connection; every method converts its arguments, calls the core method of the
  same name and converts the outcome.  The arguments that PyO3 converts before it enters a method
  (\<^verbatim>\<open>role\<close>, the limits, \<^verbatim>\<open>status_code\<close>) are given as the converted values.
\<close>

section \<open>The class Connection\<close>

type_synonym PyConnection = Connection
type_synonym ('x, 'a) py_outcome = "('x py_err + 'a) \<times> PyConnection"

definition py_new :: "PyRole \<Rightarrow> usize \<Rightarrow> usize \<Rightarrow> 'x py_err + PyConnection" where
  "py_new role head_bytes header_count =
     bind_result (map_err (\<lambda>error. Py_ValueError (display_invalid_limits error))
       (limits_new head_bytes header_count)) (\<lambda>limits.
     Inr (connection_new (role_from role) limits))"

text \<open>The constructor without its keyword arguments.\<close>

definition py_new_default :: "PyRole \<Rightarrow> 'x py_err + PyConnection" where
  "py_new_default role = py_new role 65536 100"

text \<open>The end of every method that calls the core: \<^verbatim>\<open>.map_err(local_error)\<close>.\<close>

definition or_local_error :: "'a local_result \<Rightarrow> ('x, 'a) py_outcome" where
  "or_local_error r = (map_err local_error (fst r), snd r)"

text \<open>A method whose arguments are converted first: an exception in the conversion ends it.\<close>

definition with_arguments :: "'x py_err + 'q \<Rightarrow> ('q \<Rightarrow> PyConnection \<Rightarrow> ('x, 'a) py_outcome) \<Rightarrow> PyConnection \<Rightarrow> ('x, 'a) py_outcome" where
  "with_arguments arguments method self =
     (case arguments of Inl e \<Rightarrow> (Inl e, self) | Inr q \<Rightarrow> method q self)"

definition py_receive_data :: "('o, 'x) python \<Rightarrow> 'o \<Rightarrow> PyConnection \<Rightarrow> ('x, unit) py_outcome" where
  "py_receive_data py data self =
     (case with_buffer_bytes py data (\<lambda>contents. or_local_error (receive_data contents self)) of
        Inl e \<Rightarrow> (Inl e, self)
      | Inr outcome \<Rightarrow> outcome)"

definition py_member :: "string \<Rightarrow> PyReceiveStatus option" where
  "py_member name = map_of [(''NEED_DATA'', PyNeedData), (''PAUSED'', PyPaused)] name"

definition py_next_event :: "'e httparse \<Rightarrow> ('o, 'x) python \<Rightarrow> PyConnection \<Rightarrow> ('x, PyNext) py_outcome" where
  "py_next_event hp py self =
     (case next_event hp self of
        (Inl error, self) \<Rightarrow> (Inl (remote_error py error), self)
      | (Inr NE_NeedData, self) \<Rightarrow> (Inr (Py_Status (the (py_member ''NEED_DATA''))), self)
      | (Inr NE_Paused, self) \<Rightarrow> (Inr (Py_Status (the (py_member ''PAUSED''))), self)
      | (Inr (NE_Event event), self) \<Rightarrow> (Inr (event_to_py event), self))"

definition request_arguments ::
  "('o, 'x) python \<Rightarrow> 'o \<Rightarrow> 'o \<Rightarrow> 'o \<Rightarrow> 'o option \<Rightarrow> 'x py_err + Request" where
  "request_arguments py method target headers http_version =
     bind_result (extract_method py method) (\<lambda>method.
     bind_result (text_or_buffer py target) (\<lambda>target.
     bind_result (extract_headers py (Some headers)) (\<lambda>headers.
     bind_result (extract_version py http_version) (\<lambda>http_version.
     Inr \<lparr>req_method = method, req_target = target, req_headers = headers, req_http_version = http_version\<rparr>))))"

definition py_send_request ::
  "('o, 'x) python \<Rightarrow> 'o \<Rightarrow> 'o \<Rightarrow> 'o \<Rightarrow> 'o option \<Rightarrow> PyConnection \<Rightarrow> ('x, PyBytes) py_outcome" where
  "py_send_request py method target headers http_version self =
     with_arguments (request_arguments py method target headers http_version)
       (\<lambda>request self. or_local_error (send_request request self)) self"

definition response_arguments ::
  "('o, 'x) python \<Rightarrow> u16 \<Rightarrow> 'o option \<Rightarrow> 'o option \<Rightarrow> 'o option \<Rightarrow> 'x py_err + Response" where
  "response_arguments py status_code headers reason http_version =
     bind_result (py_status status_code) (\<lambda>status.
     bind_result (optional_bytes py reason) (\<lambda>reason.
     bind_result (extract_headers py headers) (\<lambda>headers.
     bind_result (extract_version py http_version) (\<lambda>http_version.
     Inr \<lparr>resp_status = status, resp_reason = reason, resp_headers = headers, resp_http_version = http_version\<rparr>))))"

definition py_send_informational_response ::
  "('o, 'x) python \<Rightarrow> u16 \<Rightarrow> 'o option \<Rightarrow> 'o option \<Rightarrow> 'o option \<Rightarrow> PyConnection \<Rightarrow> ('x, PyBytes) py_outcome" where
  "py_send_informational_response py status_code headers reason http_version self =
     with_arguments (response_arguments py status_code headers reason http_version)
       (\<lambda>response self. or_local_error (send_informational_response response self)) self"

definition py_send_response ::
  "('o, 'x) python \<Rightarrow> u16 \<Rightarrow> 'o option \<Rightarrow> 'o option \<Rightarrow> 'o option \<Rightarrow> PyConnection \<Rightarrow> ('x, PyBytes) py_outcome" where
  "py_send_response py status_code headers reason http_version self =
     with_arguments (response_arguments py status_code headers reason http_version)
       (\<lambda>response self. or_local_error (send_response response self)) self"

definition py_send_data :: "('o, 'x) python \<Rightarrow> 'o \<Rightarrow> PyConnection \<Rightarrow> ('x, PyBytes) py_outcome" where
  "py_send_data py data self =
     (case with_buffer_bytes py data (\<lambda>contents. send_data contents self) of
        Inl e \<Rightarrow> (Inl e, self)
      | Inr outcome \<Rightarrow> or_local_error outcome)"

text \<open>\<^verbatim>\<open>send_data_parts\<close> once the number of body bytes is known.\<close>

definition parts_around :: "'o \<Rightarrow> usize \<Rightarrow> PyConnection \<Rightarrow> ('x, PyBytes \<times> 'o \<times> PyBytes) py_outcome" where
  "parts_around data len self =
     (case send_data_framing len self of
        (Inl error, self) \<Rightarrow> (Inl (local_error error), self)
      | (Inr (prefix, suffix), self) \<Rightarrow> (Inr (prefix, data, suffix), self))"

definition py_send_data_parts ::
  "('o, 'x) python \<Rightarrow> 'o \<Rightarrow> PyConnection \<Rightarrow> ('x, PyBytes \<times> 'o \<times> PyBytes) py_outcome" where
  "py_send_data_parts py data self = with_arguments (body_nbytes py data) (parts_around data) self"

definition py_end_of_message :: "('o, 'x) python \<Rightarrow> 'o option \<Rightarrow> PyConnection \<Rightarrow> ('x, PyBytes) py_outcome" where
  "py_end_of_message py trailers self =
     with_arguments (extract_headers py trailers) (\<lambda>trailers self. or_local_error (end_of_message trailers self)) self"

definition py_start_next_cycle :: "PyConnection \<Rightarrow> ('x, unit) py_outcome" where
  "py_start_next_cycle self = or_local_error (start_next_cycle self)"

definition py_close :: "PyConnection \<Rightarrow> ('x, unit) py_outcome" where
  "py_close self = or_local_error (close self)"

text \<open>The getters of the class.\<close>

definition py_local_state :: "PyConnection \<Rightarrow> PyState" where
  "py_local_state self = state_from (local_state self)"

definition py_peer_state :: "PyConnection \<Rightarrow> PyState" where
  "py_peer_state self = state_from (peer_state self)"

definition py_peer_http_version :: "PyConnection \<Rightarrow> PyBytes option" where
  "py_peer_http_version self = map_option py_version (peer_http_version self)"

definition py_client_is_waiting_for_100_continue :: "PyConnection \<Rightarrow> bool" where
  "py_client_is_waiting_for_100_continue self = client_is_waiting_for_100_continue self"

definition py_trailing_data :: "PyConnection \<Rightarrow> PyBytes \<times> bool" where
  "py_trailing_data self = (let (data, at_eof) = trailing_data self in (data, at_eof))"

section \<open>The extension module\<close>

text \<open>The module is its dictionary of names.  The version is the one the build passes in.\<close>

datatype module_entry =
    PyClass_Role | PyClass_State | PyClass_ReceiveStatus | PyClass_Request | PyClass_InformationalResponse
  | PyClass_Response | PyClass_Data | PyClass_EndOfMessage | PyClass_ConnectionClosed | PyClass_Connection
  | Exception_ProtocolError | Exception_LocalProtocolError | Exception_RemoteProtocolError
  | Module_Str string

type_synonym py_module = "string \<rightharpoonup> module_entry"

definition register :: "py_module \<Rightarrow> py_module" where
  "register module = module
     (''Role'' \<mapsto> PyClass_Role, ''State'' \<mapsto> PyClass_State, ''ReceiveStatus'' \<mapsto> PyClass_ReceiveStatus,
      ''Request'' \<mapsto> PyClass_Request, ''InformationalResponse'' \<mapsto> PyClass_InformationalResponse,
      ''Response'' \<mapsto> PyClass_Response, ''Data'' \<mapsto> PyClass_Data, ''EndOfMessage'' \<mapsto> PyClass_EndOfMessage,
      ''ConnectionClosed'' \<mapsto> PyClass_ConnectionClosed, ''Connection'' \<mapsto> PyClass_Connection,
      ''ProtocolError'' \<mapsto> Exception_ProtocolError, ''LocalProtocolError'' \<mapsto> Exception_LocalProtocolError,
      ''RemoteProtocolError'' \<mapsto> Exception_RemoteProtocolError)"

definition core_module :: "string \<Rightarrow> py_module" where
  "core_module pkg_version = register (Map.empty(''__version__'' \<mapsto> Module_Str pkg_version))"

text \<open>Every name that the Python package imports from the extension module is there, and no other.\<close>

definition package_imports :: "string list" where
  "package_imports =
     [''Connection'', ''ConnectionClosed'', ''Data'', ''EndOfMessage'', ''InformationalResponse'', ''LocalProtocolError'',
      ''ProtocolError'', ''ReceiveStatus'', ''RemoteProtocolError'', ''Request'', ''Response'', ''Role'', ''State'', ''__version__'']"

lemma package_imports_resolve: "dom (core_module pkg_version) = set package_imports"
  by (auto simp: core_module_def register_def package_imports_def)

section \<open>Calls and call sequences\<close>

datatype 'o py_op =
    P_ReceiveData 'o
  | P_NextEvent
  | P_SendRequest 'o 'o 'o "'o option"
  | P_SendInformationalResponse u16 "'o option" "'o option" "'o option"
  | P_SendResponse u16 "'o option" "'o option" "'o option"
  | P_SendData 'o
  | P_SendDataParts 'o
  | P_EndOfMessage "'o option"
  | P_StartNextCycle
  | P_Close

text \<open>What a call gives its caller.\<close>

datatype 'o py_value = V_None | V_Bytes PyBytes | V_Parts PyBytes 'o PyBytes | V_Next PyNext

definition as_value :: "('a \<Rightarrow> 'o py_value) \<Rightarrow> ('x, 'a) py_outcome \<Rightarrow> ('x, 'o py_value) py_outcome" where
  "as_value f r = (case fst r of Inl e \<Rightarrow> (Inl e, snd r) | Inr v \<Rightarrow> (Inr (f v), snd r))"

fun py_call :: "'e httparse \<Rightarrow> ('o, 'x) python \<Rightarrow> 'o py_op \<Rightarrow> PyConnection \<Rightarrow> ('x, 'o py_value) py_outcome" where
  "py_call hp py (P_ReceiveData d) c = as_value (\<lambda>_. V_None) (py_receive_data py d c)"
| "py_call hp py P_NextEvent c = as_value V_Next (py_next_event hp py c)"
| "py_call hp py (P_SendRequest m t hs v) c = as_value V_Bytes (py_send_request py m t hs v c)"
| "py_call hp py (P_SendInformationalResponse s hs r v) c =
     as_value V_Bytes (py_send_informational_response py s hs r v c)"
| "py_call hp py (P_SendResponse s hs r v) c = as_value V_Bytes (py_send_response py s hs r v c)"
| "py_call hp py (P_SendData d) c = as_value V_Bytes (py_send_data py d c)"
| "py_call hp py (P_SendDataParts d) c = as_value (\<lambda>(p, d, s). V_Parts p d s) (py_send_data_parts py d c)"
| "py_call hp py (P_EndOfMessage t) c = as_value V_Bytes (py_end_of_message py t c)"
| "py_call hp py P_StartNextCycle c = as_value (\<lambda>_. V_None) (py_start_next_cycle c)"
| "py_call hp py P_Close c = as_value (\<lambda>_. V_None) (py_close c)"

definition py_calls :: "'e httparse \<Rightarrow> ('o, 'x) python \<Rightarrow> 'o py_op list \<Rightarrow> PyConnection \<Rightarrow> PyConnection" where
  "py_calls hp py ops c = foldl (\<lambda>c op. snd (py_call hp py op c)) c ops"

lemma py_calls_simps [simp]:
  "py_calls hp py [] c = c"
  "py_calls hp py (op # ops) c = py_calls hp py ops (snd (py_call hp py op c))"
  by (simp_all add: py_calls_def)

end
