(* ===== verification/Python_Bindings.thy ===== *)
theory Python_Bindings
  imports Python_Connection Bodies
begin

text \<open>
  What the Python bindings promise, whatever the runtime does: a script of Python calls is a script of core
  calls (a functional refinement by \<open>core_op\<close>, \<open>core_reply\<close> and \<open>told_python\<close>), exceptions
  leave the connection usable, event objects compare like the core's events, a body handed over
  without copying is framed like the copied one, and the objects a connection reports can be passed on
  to another connection.  What is needed of the runtime is stated as predicates on the record
  \<open>python\<close>: \<open>memoryview_ok\<close> for memory views and \<open>builtins_ok\<close> for the built-in classes of the values that
  the bindings create.
\<close>

section \<open>Outcomes\<close>

lemma outcome_simps [simp]:
  "fst (or_local_error r) = Inl e \<longleftrightarrow> (\<exists>x. fst r = Inl x \<and> e = local_error x)"
  "fst (or_local_error r) = Inr v \<longleftrightarrow> fst r = Inr v"
  "snd (or_local_error r) = snd r"
  by (cases "fst r"; auto simp: or_local_error_def)+

lemma with_arguments_simps [simp]:
  "with_arguments (Inl e) f c = (Inl e, c)" "with_arguments (Inr q) f c = f q c"
  by (simp_all add: with_arguments_def)

lemma as_value_simps [simp]:
  "snd (as_value f r) = snd r" "fst (as_value f r) = Inl e \<longleftrightarrow> fst r = Inl e"
  by (cases "fst r"; simp add: as_value_def)+

lemma with_buffer_bytes_map: "with_buffer_bytes py obj f = map_sum id f (with_buffer_bytes py obj id)"
  by (auto simp: with_buffer_bytes_def bind_result_def split: option.split sum.split)

abbreviation buffer_bytes :: "('o, 'x) python \<Rightarrow> 'o \<Rightarrow> 'x py_err + u8 list" where
  "buffer_bytes py obj \<equiv> with_buffer_bytes py obj id"

lemma py_receive_data_eq:
  "py_receive_data py obj c = with_arguments (buffer_bytes py obj) (\<lambda>d c. or_local_error (receive_data d c)) c"
  unfolding py_receive_data_def with_buffer_bytes_map [of _ _ "\<lambda>d. or_local_error (receive_data d c)"]
  by (cases "buffer_bytes py obj") simp_all

lemma py_send_data_eq:
  "py_send_data py obj c = with_arguments (buffer_bytes py obj) (\<lambda>d c. or_local_error (send_data d c)) c"
  unfolding py_send_data_def with_buffer_bytes_map [of _ _ "\<lambda>d. send_data d c"]
  by (cases "buffer_bytes py obj") simp_all

lemmas py_sends = py_receive_data_eq py_send_request_def py_send_informational_response_def py_send_response_def
  py_send_data_eq py_send_data_parts_def py_end_of_message_def py_start_next_cycle_def py_close_def

section \<open>Python calls are core calls\<close>

lemma parts_around_eq:
  "parts_around obj n c = or_local_error (and_then (send_data_framing n c) (\<lambda>(p, s) c. (Inr (p, obj, s), c)))"
  by (auto simp: parts_around_def or_local_error_def and_then_def split: prod.split sum.split)

text \<open>The core call that a Python call stands for, which is known from its arguments alone: the method of the
  same name on the converted arguments, or the exception of the first conversion that fails.  A body that is not
  copied is known to the core by its length only.\<close>

fun core_op :: "('o, 'x) python \<Rightarrow> 'o py_op \<Rightarrow> 'x py_err + api_op" where
  "core_op py (P_ReceiveData obj) = bind_result (buffer_bytes py obj) (\<lambda>d. Inr (A_ReceiveData d))"
| "core_op py P_NextEvent = Inr A_NextEvent"
| "core_op py (P_SendRequest m t hs v) = bind_result (request_arguments py m t hs v) (\<lambda>q. Inr (A_SendRequest q))"
| "core_op py (P_SendInformationalResponse s hs r v) =
     bind_result (response_arguments py s hs r v) (\<lambda>q. Inr (A_SendInformationalResponse q))"
| "core_op py (P_SendResponse s hs r v) = bind_result (response_arguments py s hs r v) (\<lambda>q. Inr (A_SendResponse q))"
| "core_op py (P_SendData obj) = bind_result (buffer_bytes py obj) (\<lambda>d. Inr (A_SendData d))"
| "core_op py (P_SendDataParts obj) = bind_result (body_nbytes py obj) (\<lambda>n. Inr (A_SendDataFraming n))"
| "core_op py (P_EndOfMessage t) = bind_result (extract_headers py t) (\<lambda>t. Inr (A_EndOfMessage t))"
| "core_op py P_StartNextCycle = Inr A_StartNextCycle"
| "core_op py P_Close = Inr A_Close"

text \<open>What the core returns, and how Python is told.\<close>

datatype core_answer =
    C_Local_Error LocalProtocolError
  | C_Remote_Error RemoteProtocolError
  | C_Unit
  | C_Bytes "u8 list"
  | C_Framing "u8 list" "u8 list"
  | C_Next NextEvent

definition reply_of :: "('a \<Rightarrow> core_answer) \<Rightarrow> 'a local_result \<Rightarrow> core_answer" where
  "reply_of f r = (case fst r of Inl e \<Rightarrow> C_Local_Error e | Inr x \<Rightarrow> f x)"

fun core_reply :: "'e httparse \<Rightarrow> api_op \<Rightarrow> Connection \<Rightarrow> core_answer" where
  "core_reply hp (A_ReceiveData d) c = reply_of (\<lambda>_. C_Unit) (receive_data d c)"
| "core_reply hp A_NextEvent c = (case fst (next_event hp c) of Inl e \<Rightarrow> C_Remote_Error e | Inr n \<Rightarrow> C_Next n)"
| "core_reply hp (A_SendRequest q) c = reply_of C_Bytes (send_request q c)"
| "core_reply hp (A_SendInformationalResponse q) c = reply_of C_Bytes (send_informational_response q c)"
| "core_reply hp (A_SendResponse q) c = reply_of C_Bytes (send_response q c)"
| "core_reply hp (A_SendData d) c = reply_of C_Bytes (send_data d c)"
| "core_reply hp (A_SendDataParts d) c = reply_of (\<lambda>p. C_Framing (parts_prefix p) (parts_suffix p)) (send_data_parts d c)"
| "core_reply hp (A_SendDataFraming n) c = reply_of (\<lambda>(p, s). C_Framing p s) (send_data_framing n c)"
| "core_reply hp (A_EndOfMessage t) c = reply_of C_Bytes (end_of_message t c)"
| "core_reply hp A_StartNextCycle c = reply_of (\<lambda>_. C_Unit) (start_next_cycle c)"
| "core_reply hp A_Close c = reply_of (\<lambda>_. C_Unit) (close c)"

fun next_told :: "NextEvent \<Rightarrow> PyNext" where
  "next_told NE_NeedData = Py_Status PyNeedData"
| "next_told NE_Paused = Py_Status PyPaused"
| "next_told (NE_Event e) = event_to_py e"

fun told_python :: "('o, 'x) python \<Rightarrow> 'o py_op \<Rightarrow> core_answer \<Rightarrow> 'x py_err + 'o py_value" where
  "told_python py op (C_Local_Error e) = Inl (Py_LocalProtocolError (local_message e))"
| "told_python py op (C_Remote_Error e) =
     (case setattr_status_error py (suggested_status_code e) of
        None \<Rightarrow> Inl (Py_RemoteProtocolError (remote_message e) (suggested_status_code e))
      | Some set_error \<Rightarrow> Inl (Py_Raised set_error))"
| "told_python py op C_Unit = Inr V_None"
| "told_python py op (C_Bytes d) = Inr (V_Bytes d)"
| "told_python py op (C_Framing p s) = (case op of P_SendDataParts obj \<Rightarrow> Inr (V_Parts p obj s) | _ \<Rightarrow> Inr V_None)"
| "told_python py op (C_Next n) = Inr (V_Next (next_told n))"

lemma as_value_local:
  "as_value f (or_local_error r) = (case fst r of Inl e \<Rightarrow> Inl (Py_LocalProtocolError (local_message e)) | Inr x \<Rightarrow> Inr (f x), snd r)"
  by (cases "fst r") (simp_all add: as_value_def or_local_error_def local_error_def display_local_def)

lemma as_value_arguments:
  "as_value f (with_arguments a g c) = (case a of Inl e \<Rightarrow> (Inl e, c) | Inr q \<Rightarrow> as_value f (g q c))"
  by (cases a) (simp_all add: as_value_def)

lemma next_event_told:
  "as_value V_Next (py_next_event hp py c) = (told_python py P_NextEvent (core_reply hp A_NextEvent c), snd (next_event hp c))"
  by (auto simp: py_next_event_def as_value_def remote_error_def display_remote_def py_member_def
      split: prod.split sum.split NextEvent.split option.split)

text \<open>The simulation of one call.\<close>

lemma py_call_core:
  "py_call hp py op c =
     (case core_op py op of Inl e \<Rightarrow> (Inl e, c) | Inr aop \<Rightarrow> (told_python py op (core_reply hp aop c), api_call hp aop c))"
proof (cases "op = P_NextEvent")
  case True
  then show ?thesis by (simp add: next_event_told)
next
  case False
  then show ?thesis
    by (cases op)
       (simp_all add: py_sends parts_around_eq as_value_arguments as_value_local bind_result_def reply_of_def and_then_def
         split: sum.split prod.split)
qed

text \<open>A script of Python calls, with what each of them returns or raises; and the core calls it makes.\<close>

fun py_script :: "'e httparse \<Rightarrow> ('o, 'x) python \<Rightarrow> 'o py_op list \<Rightarrow> PyConnection \<Rightarrow> ('x py_err + 'o py_value) list \<times> PyConnection" where
  "py_script hp py [] c = ([], c)"
| "py_script hp py (op # ops) c =
     (let (outcome, c) = py_call hp py op c; (outcomes, c) = py_script hp py ops c in (outcome # outcomes, c))"

fun core_script :: "'e httparse \<Rightarrow> ('o, 'x) python \<Rightarrow> 'o py_op list \<Rightarrow> Connection \<Rightarrow> ('x py_err + 'o py_value) list" where
  "core_script hp py [] c = []"
| "core_script hp py (op # ops) c =
     (case core_op py op of
        Inl e \<Rightarrow> Inl e # core_script hp py ops c
      | Inr aop \<Rightarrow> told_python py op (core_reply hp aop c) # core_script hp py ops (api_call hp aop c))"

definition core_ops :: "('o, 'x) python \<Rightarrow> 'o py_op list \<Rightarrow> api_op list" where
  "core_ops py ops = concat (map (\<lambda>op. case core_op py op of Inl _ \<Rightarrow> [] | Inr aop \<Rightarrow> [aop]) ops)"

lemma py_script_core: "py_script hp py ops c = (core_script hp py ops c, api_calls hp (core_ops py ops) c)"
  by (induction ops arbitrary: c) (auto simp: py_call_core core_ops_def split: sum.split)

lemma py_calls_core: "py_calls hp py ops c = api_calls hp (core_ops py ops) c"
  by (induction ops arbitrary: c) (auto simp: py_call_core core_ops_def split: sum.split)

lemma py_new_Inr:
  "py_new role b n = Inr c \<longleftrightarrow>
     0 < b \<and> 0 < n \<and> c = connection_new (role_from role) \<lparr>max_head_bytes = b, max_header_count = n\<rparr>"
  by (auto simp: py_new_def limits_new_def)

section \<open>Exceptions\<close>

lemma failed_core_calls:
  "fst (receive_data d c) = Inl e \<Longrightarrow> snd (receive_data d c) = c"
  "fst (send_request q c) = Inl e \<Longrightarrow> snd (send_request q c) = c"
  "fst (send_informational_response i c) = Inl e \<Longrightarrow> snd (send_informational_response i c) = c"
  "fst (send_response p c) = Inl e \<Longrightarrow> snd (send_response p c) = c"
  "fst (send_data d c) = Inl e \<Longrightarrow> snd (send_data d c) = c"
  "fst (send_data_framing n c) = Inl e \<Longrightarrow> snd (send_data_framing n c) = c"
  "fst (end_of_message t c) = Inl e \<Longrightarrow> snd (end_of_message t c) = c"
  "fst (start_next_cycle c) = Inl e \<Longrightarrow> snd (start_next_cycle c) = c"
  "fst (close c) = Inl e \<Longrightarrow> snd (close c) = c"
  by (cases "receive_data d c"; cases "send_request q c"; cases "send_informational_response i c";
      cases "send_response p c"; cases "send_data d c"; cases "send_data_framing n c";
      cases "end_of_message t c"; cases "start_next_cycle c"; cases "close c";
      auto simp: receive_data_def start_next_cycle_cases dest: failed_send failed_send_data split: if_splits)+

lemma failed_parts:
  "fst (parts_around obj n c) = Inl e \<Longrightarrow> snd (parts_around obj n c) = c \<and> (\<exists>x. e = local_error x)"
  using failed_core_calls(6) [of n c] by (auto simp: parts_around_def split: prod.splits sum.splits)

text \<open>The exceptions that converting arguments can end with.\<close>

fun argument_error :: "'x py_err \<Rightarrow> bool" where
  "argument_error (Py_TypeError _) = True"
| "argument_error (Py_ValueError _) = True"
| "argument_error (Py_Raised _) = True"
| "argument_error _ = False"

definition argument :: "'x py_err + 'a \<Rightarrow> bool" where
  "argument a \<longleftrightarrow> (\<forall>e. a = Inl e \<longrightarrow> argument_error e)"

lemma argument_simps [simp]: "argument (Inr a)" "argument (Inl e) = argument_error e"
  by (simp_all add: argument_def)

lemma argument_bind [intro!]: "argument a \<Longrightarrow> (\<And>x. argument (f x)) \<Longrightarrow> argument (bind_result a f)"
  by (cases a) simp_all

lemma argument_raised [simp]: "argument (raised a)"
  by (cases a) simp_all

lemma argument_value_error [simp]: "argument (map_err (\<lambda>x. Py_ValueError (f x)) a)"
  by (cases a) simp_all

lemma conversions_are_arguments [simp]:
  "argument (with_buffer_bytes py obj f)" "argument (contiguous_buffer_len py obj)" "argument (text_or_buffer py obj)"
  "argument (extract_method py obj)" "argument (py_status code)"
  by (auto simp: with_buffer_bytes_def contiguous_buffer_len_def text_or_buffer_def extract_method_def py_status_def
      split: option.split)

lemma argument_body_nbytes [simp]: "argument (body_nbytes py obj)"
  using conversions_are_arguments(2) [of py obj]
  by (cases "contiguous_buffer_len py obj") (simp_all add: body_nbytes_def split: sum.split del: conversions_are_arguments)

lemma argument_header [simp]: "argument (extract_header py item)"
  by (auto simp: extract_header_def split: option.split list.split)

lemma argument_headers [simp]: "argument (collect_headers py items)"
  by (induction items) auto

lemma message_parts_are_arguments [simp]:
  "argument (extract_headers py v)" "argument (optional_bytes py v)" "argument (extract_version py v)"
  by (auto simp: extract_headers_def optional_bytes_def extract_version_def split: option.split)

lemma messages_are_arguments [simp]:
  "argument (request_arguments py m t hs v)" "argument (response_arguments py s hs' r v)"
  by (auto simp: request_arguments_def response_arguments_def)

text \<open>How a method other than \<^verbatim>\<open>next_event\<close> fails.\<close>

definition fails_safely :: "('x, 'a) py_outcome \<Rightarrow> PyConnection \<Rightarrow> bool" where
  "fails_safely r c \<longleftrightarrow>
     (\<forall>e. fst r = Inl e \<longrightarrow> snd r = c \<and> (argument_error e \<or> (\<exists>x. e = local_error x)))"

lemma with_arguments_safe:
  "argument a \<Longrightarrow> (\<And>q. fails_safely (f q c) c) \<Longrightarrow> fails_safely (with_arguments a f c) c"
  by (cases a) (simp_all add: fails_safely_def)

lemma fails_safely_as_value: "fails_safely (as_value f r) c = fails_safely r c"
  by (simp add: fails_safely_def)

lemma core_calls_safe:
  "fails_safely (or_local_error (receive_data d c)) c" "fails_safely (or_local_error (send_request q c)) c"
  "fails_safely (or_local_error (send_informational_response i c)) c" "fails_safely (or_local_error (send_response p c)) c"
  "fails_safely (or_local_error (send_data d c)) c" "fails_safely (parts_around obj n c) c"
  "fails_safely (or_local_error (end_of_message t c)) c" "fails_safely (or_local_error (start_next_cycle c)) c"
  "fails_safely (or_local_error (close c)) c"
  unfolding fails_safely_def by (auto simp: failed_core_calls dest: failed_parts)

lemma calls_fail_safely: "op \<noteq> P_NextEvent \<Longrightarrow> fails_safely (py_call hp py op c) c"
  by (cases op)
     (simp_all add: py_sends fails_safely_as_value with_arguments_safe core_calls_safe)

section \<open>Event objects\<close>

lemma tuple_eq_iff: "tuple_eq a b \<longleftrightarrow> a = b"
  by (induction a b rule: tuple_eq.induct) auto

lemma py_headers_eq [simp]: "py_headers hs = hs"
  by (simp add: py_headers_def case_prod_unfold)

lemma py_version_inject [simp]: "py_version v = py_version w \<longleftrightarrow> v = w"
  by (cases v; cases w) (simp_all add: bytes_def)

lemmas event_class_eqs = PyRequest_eq_def PyResponseValue_eq_def PyData_eq_def PyEndOfMessage_eq_def bytes_eq_def
  tuple_eq_iff PyRequest_from_core_def PyResponseValue_from_core_def

lemma event_to_py_eq: "py_eq (event_to_py a) (event_to_py b) \<longleftrightarrow> a = b"
  by (cases a; cases b)
     (auto simp: event_class_eqs Method.expand StatusCode.expand intro!: Request.equality Response.equality
       Data.equality EndOfMessage.equality)

text \<open>The attributes of the objects \<^verbatim>\<open>next_event\<close> returns, as the type stubs and the class documentation
  promise them.\<close>

definition is_version :: "PyBytes \<Rightarrow> bool" where
  "is_version v \<longleftrightarrow> v = bytes ''1.0'' \<or> v = bytes ''1.1''"

fun py_next_ok :: "PyRole \<Rightarrow> usize \<Rightarrow> PyNext \<Rightarrow> bool" where
  "py_next_ok role n (Py_Request q) \<longleftrightarrow>
     role = PyServer \<and> pyreq_method q \<noteq> [] \<and> list_all is_token_byte (pyreq_method q)
     \<and> length (pyreq_headers q) \<le> n \<and> is_version (pyreq_http_version q)"
| "py_next_ok role n (Py_InformationalResponse q) \<longleftrightarrow>
     role = PyClient \<and> 100 \<le> info_status_code q \<and> info_status_code q < 200
     \<and> length (info_headers q) \<le> n \<and> is_version (info_http_version q)"
| "py_next_ok role n (Py_Response q) \<longleftrightarrow>
     role = PyClient \<and> 200 \<le> response_status_code q \<and> response_status_code q \<le> 599
     \<and> length (response_headers q) \<le> n \<and> is_version (response_http_version q)"
| "py_next_ok role n (Py_Data d) \<longleftrightarrow> pydata_data d \<noteq> []"
| "py_next_ok role n (Py_EndOfMessage m) \<longleftrightarrow> length (pyeom_trailers m) \<le> n"
| "py_next_ok role n (Py_ConnectionClosed _) = True"
| "py_next_ok role n (Py_Status _) = True"

lemma is_version [simp]: "is_version (py_version v)"
  by (cases v) (simp_all add: is_version_def)

lemma event_to_py_ok:
  assumes "event_ok (role_from role) lims e" and "max_header_count lims = n"
  shows "py_next_ok role n (event_to_py e)"
  using assms
  by (cases e; cases role)
     (auto simp: PyRequest_from_core_def PyResponseValue_from_core_def valid_method_def valid_status_def
       is_informational_def)

section \<open>Bodies without copying\<close>

text \<open>What the Python documentation says of memory views: the attributes \<^verbatim>\<open>contiguous\<close> and \<^verbatim>\<open>nbytes\<close> of a
  view are a boolean and an integer, and \<^verbatim>\<open>tobytes()\<close> returns \<^verbatim>\<open>nbytes\<close> bytes.\<close>

definition memoryview_ok :: "('o, 'x) python \<Rightarrow> bool" where
  "memoryview_ok py \<longleftrightarrow>
     (\<forall>obj view. memoryview py obj = Inr view \<longrightarrow>
        (\<exists>flag b. getattr py view ''contiguous'' = Inr flag \<and> extract_bool py flag = Inr b)
        \<and> (\<exists>int n. getattr py view ''nbytes'' = Inr int \<and> extract_usize py int = Inr n
             \<and> (\<forall>copy d. call_tobytes py view = Inr copy \<longrightarrow> cast_bytes py copy = Some d \<longrightarrow> n = length d)))"

lemma buffer_length:
  assumes "memoryview_ok py" and "buffer_bytes py obj = Inr d" and "contiguous_buffer_len py obj = Inr n"
  shows "n = length d"
proof (cases "cast_bytes py obj")
  case (Some contents)
  with assms(2,3) show ?thesis by (simp add: with_buffer_bytes_def contiguous_buffer_len_def)
next
  case None
  with assms(2) obtain view copy where view: "memoryview py obj = Inr view" "call_tobytes py view = Inr copy"
    "cast_bytes py copy = Some d"
    by (auto simp: with_buffer_bytes_def bind_result_Inr raised_def split: option.splits sum.splits)
  with assms(1) obtain int m where "getattr py view ''nbytes'' = Inr int" "extract_usize py int = Inr m" "m = length d"
    unfolding memoryview_ok_def by blast
  with assms(3) None view show ?thesis
    by (auto simp: contiguous_buffer_len_def bind_result_Inr split: if_splits)
qed

lemma send_data_by_parts:
  "send_data d c = and_then (send_data_framing (length d) c) (\<lambda>(p, s) c. (Inr (p @ d @ s), c))"
  by (auto simp: send_data_def send_data_parts_def and_then_def split: prod.split sum.split)

section \<open>Passing objects on\<close>

text \<open>The built-in classes of the values that the bindings create: a \<^verbatim>\<open>bytes\<close> object is no \<^verbatim>\<open>str\<close> and holds its
  bytes; a \<^verbatim>\<open>tuple\<close> holds and iterates over its items.\<close>

definition builtins_ok :: "('o, 'x) python \<Rightarrow> (PyBytes \<Rightarrow> 'o) \<Rightarrow> ('o list \<Rightarrow> 'o) \<Rightarrow> bool" where
  "builtins_ok py of_bytes of_tuple \<longleftrightarrow>
     (\<forall>d. cast_str py (of_bytes d) = None \<and> cast_bytes py (of_bytes d) = Some d)
     \<and> (\<forall>items. cast_tuple py (of_tuple items) = Some items \<and> try_iter py (of_tuple items) = Inr (map Inr items))"

definition headers_object :: "(PyBytes \<Rightarrow> 'o) \<Rightarrow> ('o list \<Rightarrow> 'o) \<Rightarrow> PyHeaders \<Rightarrow> 'o" where
  "headers_object of_bytes of_tuple hs = of_tuple (map (\<lambda>(name, value). of_tuple [of_bytes name, of_bytes value]) hs)"

lemma bytes_arguments:
  assumes "builtins_ok py of_bytes of_tuple"
  shows "text_or_buffer py (of_bytes d) = Inr d" "extract_method py (of_bytes d) = map_err (\<lambda>e. Py_ValueError (display_invalid_method e)) (method_from_bytes d)"
  using assms by (simp_all add: builtins_ok_def text_or_buffer_def extract_method_def with_buffer_bytes_def)

lemma headers_argument:
  assumes "builtins_ok py of_bytes of_tuple"
  shows "extract_headers py (Some (headers_object of_bytes of_tuple hs)) = Inr hs"
proof -
  have "collect_headers py (map Inr (map (\<lambda>(name, value). of_tuple [of_bytes name, of_bytes value]) hs)) = Inr hs"
    using assms bytes_arguments [OF assms]
    by (induction hs) (auto simp: extract_header_def builtins_ok_def)
  with assms show ?thesis by (simp add: extract_headers_def headers_object_def builtins_ok_def)
qed

lemma version_argument:
  assumes "builtins_ok py of_bytes of_tuple"
  shows "extract_version py (Some (of_bytes (py_version v))) = Inr v"
  by (cases v) (simp_all add: extract_version_def bytes_arguments [OF assms] bytes_def)

lemma request_object_argument:
  assumes "builtins_ok py of_bytes of_tuple" and "valid_method (req_method q)" and "r = PyRequest_from_core q"
  shows "request_arguments py (of_bytes (pyreq_method r)) (of_bytes (pyreq_target r))
    (headers_object of_bytes of_tuple (pyreq_headers r)) (Some (of_bytes (pyreq_http_version r))) = Inr q"
proof -
  have "method_from_bytes (as_bytes (req_method q)) = Inr (req_method q)"
    using assms(2) by (simp add: method_from_bytes_Inr)
  then show ?thesis
    by (simp add: request_arguments_def assms(3) PyRequest_from_core_def bytes_arguments [OF assms(1)]
        headers_argument [OF assms(1)] version_argument [OF assms(1)])
qed

lemma response_object_argument:
  assumes "builtins_ok py of_bytes of_tuple" and "valid_status (resp_status q)" and "r = PyResponseValue_from_core q"
  shows "response_arguments py (pyresp_status_code r) (Some (headers_object of_bytes of_tuple (pyresp_headers r)))
    (Some (of_bytes (pyresp_reason r))) (Some (of_bytes (pyresp_http_version r))) = Inr q"
proof -
  have "status_from_u16 (as_u16 (resp_status q)) = Inr (resp_status q)"
    using assms(2) by (simp add: status_from_u16_Inr)
  then show ?thesis
    by (simp add: response_arguments_def py_status_def optional_bytes_def assms(3) PyResponseValue_from_core_def
        bytes_arguments [OF assms(1)] headers_argument [OF assms(1)] version_argument [OF assms(1)])
qed

section \<open>A small runtime\<close>

text \<open>A runtime to apply the properties to: byte strings, text, byte arrays with their views, tuples,
  integers and booleans; its only exceptions are the two kinds that the bindings tell apart.\<close>

datatype small_object =
    O_Bytes PyBytes | O_Str "u8 list" | O_ByteArray "u8 list" | O_View "u8 list"
  | O_Tuple "small_object list" | O_Int usize | O_Bool bool | O_None

datatype small_exception = X_TypeError | X_AttributeError

definition small_python :: "(small_object, small_exception) python" where
  "small_python =
     \<lparr>cast_bytes = (\<lambda>obj. case obj of O_Bytes d \<Rightarrow> Some d | _ \<Rightarrow> None),
      cast_str = (\<lambda>obj. case obj of O_Str d \<Rightarrow> Some (Inr d) | _ \<Rightarrow> None),
      cast_tuple = (\<lambda>obj. case obj of O_Tuple items \<Rightarrow> Some items | _ \<Rightarrow> None),
      memoryview = (\<lambda>obj. case obj of O_ByteArray d \<Rightarrow> Inr (O_View d) | O_View d \<Rightarrow> Inr (O_View d) | _ \<Rightarrow> Inl X_TypeError),
      call_tobytes = (\<lambda>obj. case obj of O_View d \<Rightarrow> Inr (O_Bytes d) | _ \<Rightarrow> Inl X_AttributeError),
      cast_into_bytes_error = (\<lambda>_. X_TypeError),
      getattr = (\<lambda>obj name. case obj of
          O_View d \<Rightarrow> if name = ''contiguous'' then Inr (O_Bool True)
            else if name = ''nbytes'' then Inr (O_Int (length d)) else Inl X_AttributeError
        | _ \<Rightarrow> Inl X_AttributeError),
      extract_bool = (\<lambda>obj. case obj of O_Bool b \<Rightarrow> Inr b | _ \<Rightarrow> Inl X_TypeError),
      extract_usize = (\<lambda>obj. case obj of O_Int n \<Rightarrow> Inr n | _ \<Rightarrow> Inl X_TypeError),
      try_iter = (\<lambda>obj. case obj of O_Tuple items \<Rightarrow> Inr (map Inr items) | _ \<Rightarrow> Inl X_TypeError),
      setattr_status_error = (\<lambda>_. None),
      raised_type_error = (\<lambda>x. x = X_TypeError),
      raised_attribute_error = (\<lambda>x. x = X_AttributeError)\<rparr>"

lemma small_builtins: "builtins_ok small_python O_Bytes O_Tuple"
  by (simp add: builtins_ok_def small_python_def)

lemma small_memoryview: "memoryview_ok small_python"
  by (auto simp: memoryview_ok_def small_python_def split: small_object.splits)

lemma small_py_server: "py_new PyServer 64 8 = Inr (connection_new Server sample_limits)"
  by (simp add: py_new_Inr sample_limits_def)

section \<open>Properties of the bindings\<close>

text \<open>C19. A script of Python calls on a new connection does what the core does.  The constructor refuses zero
  limits and otherwise makes the connection it was asked for.  Each call is the core call of the same name on
  its converted arguments, which depends on these alone; it returns the core's bytes, framing or event, or
  raises the core's error with its message and status.  A call whose arguments cannot be converted raises the
  exception of the conversion and makes no core call.  So the connection is the one that exactly these core
  calls leave, in this order, and keeps the connection's invariant.\<close>

theorem python_calls_refine_the_core:
  assumes "httparse_ok hp" and "py_new role b n = Inr c"
  shows "0 < b \<and> 0 < n \<and> c = connection_new (role_from role) \<lparr>max_head_bytes = b, max_header_count = n\<rparr>
    \<and> py_script hp py ops c = (core_script hp py ops c, api_calls hp (core_ops py ops) c)
    \<and> connection_inv (snd (py_script hp py ops c))"
  using assms connection_inv_calls [OF assms(1) connection_inv_new] by (simp add: py_new_Inr py_script_core)

theorem python_calls_refine_the_core_witness:
  "snd (py_script sample_httparse small_python [P_ReceiveData (O_Bytes [0x47]), P_SendData O_None, P_Close] (connection_new Server sample_limits))
     = api_calls sample_httparse [A_ReceiveData [0x47], A_Close] (connection_new Server sample_limits)"
proof -
  have "core_ops small_python [P_ReceiveData (O_Bytes [0x47]), P_SendData O_None, P_Close] = [A_ReceiveData [0x47], A_Close]"
    by (simp add: core_ops_def with_buffer_bytes_def small_python_def)
  with python_calls_refine_the_core [OF sample_httparse_ok small_py_server] show ?thesis by (metis snd_conv)
qed

text \<open>C21. An exception from a method other than \<^verbatim>\<open>next_event\<close> leaves the connection as it was, and it is one
  of the argument conversion or the core's local error; an exception from \<^verbatim>\<open>next_event\<close> means that the
  peer is poisoned and is the remote error with its suggested status, or the error met while attaching
  the status.\<close>

theorem python_exceptions:
  assumes "httparse_ok hp" and "py_call hp py op c = (Inl e, c')"
  shows "if op = P_NextEvent
    then py_peer_state c' = PyError
      \<and> (\<exists>error. fst (next_event hp c) = Inl error
           \<and> (case setattr_status_error py (suggested_status_code error) of
                None \<Rightarrow> e = Py_RemoteProtocolError (remote_message error) (suggested_status_code error)
              | Some set_error \<Rightarrow> e = Py_Raised set_error))
    else c' = c \<and> (argument_error e \<or> (\<exists>error. e = Py_LocalProtocolError (local_message error)))"
proof (cases "op = P_NextEvent")
  case True
  with assms(2) obtain error where core: "next_event hp c = (Inl error, c')" and e: "e = remote_error py error"
    by (auto simp: py_next_event_def as_value_def split: prod.splits sum.splits NextEvent.splits)
  from next_event_Inl [OF assms(1) core] e core True show ?thesis
    by (simp add: py_peer_state_def remote_error_def display_remote_def split: option.split)
next
  case False
  from calls_fail_safely [OF this, of hp py c] assms(2) have "c' = c \<and> (argument_error e \<or> (\<exists>x. e = local_error x))"
    by (simp add: fails_safely_def)
  with False show ?thesis by (auto simp: local_error_def display_local_def)
qed

theorem python_exceptions_witness:
  "py_call sample_httparse small_python (P_SendData O_None) (connection_new Client sample_limits)
     = (Inl (Py_Raised X_TypeError), connection_new Client sample_limits)"
proof -
  obtain e c' where call: "py_call sample_httparse small_python (P_SendData O_None) (connection_new Client sample_limits) = (Inl e, c')"
    and e: "e = Py_Raised X_TypeError"
    by (simp add: py_send_data_def with_buffer_bytes_def small_python_def as_value_def)
  with python_exceptions [OF sample_httparse_ok call] show ?thesis by simp
qed

text \<open>C20. The objects that \<^verbatim>\<open>next_event\<close> returns have the attributes their classes document: only a server is
  given requests, with a method token; only a client is given responses, informational with a status
  from 100 to 199 and final with one from 200 to 599; versions are 1.0 or 1.1; data is never empty;
  headers and trailers stay within the connection's limit.\<close>

theorem python_events_are_well_typed:
  assumes "httparse_ok hp" and "py_new role b n = Inr new"
    and "py_next_event hp py (py_calls hp py pops new) = (Inr v, c')"
  shows "py_next_ok role n v"
proof -
  let ?c = "py_calls hp py pops new"
  obtain ops where "?c = api_calls hp ops new" using py_calls_core by blast
  with frame.api_calls_R [OF assms(1), of new ops] assms(2)
  have frame: "conn_role ?c = role_from role" "max_header_count (limits ?c) = n"
    by (auto simp: same_frame_def py_new_Inr connection_new_def)
  from assms(3) consider s where "v = Py_Status s"
    | event where "next_event hp ?c = (Inr (NE_Event event), c')" "v = event_to_py event"
    by (auto simp: py_next_event_def split: prod.splits sum.splits NextEvent.splits)
  then show ?thesis
  proof cases
    case (2 event)
    from reported_event_ok [OF assms(1) 2(1)] frame have "event_ok (role_from role) (limits ?c) event" by simp
    from event_to_py_ok [OF this frame(2)] 2(2) show ?thesis by simp
  qed simp
qed

definition greeted :: "small_object py_op list" where
  "greeted = [P_ReceiveData (O_ByteArray (bytes ''GET / HTTP/1.1'' @ CRLF @ bytes ''Host: a'' @ CRLF @ CRLF))]"

definition greeting_object :: PyRequest where
  "greeting_object = \<lparr>pyreq_method = bytes ''GET'', pyreq_target = bytes ''/'',
     pyreq_headers = [(bytes ''Host'', bytes ''a'')], pyreq_http_version = bytes ''1.1''\<rparr>"

lemma greeted_event:
  obtains c' where "py_next_event sample_httparse small_python (py_calls sample_httparse small_python greeted (connection_new Server sample_limits))
      = (Inr (Py_Request greeting_object), c')"
proof -
  have "fst (py_next_event sample_httparse small_python (py_calls sample_httparse small_python greeted (connection_new Server sample_limits)))
      = Inr (Py_Request greeting_object)"
    by code_simp
  then show thesis using that by (metis prod.collapse)
qed

theorem python_events_are_well_typed_witness:
  "\<exists>q. fst (py_next_event sample_httparse small_python (py_calls sample_httparse small_python greeted (connection_new Server sample_limits)))
      = Inr (Py_Request q) \<and> py_next_ok PyServer (max_header_count sample_limits) (Py_Request q)"
proof -
  obtain c' where event: "py_next_event sample_httparse small_python (py_calls sample_httparse small_python greeted (connection_new Server sample_limits))
      = (Inr (Py_Request greeting_object), c')"
    by (rule greeted_event)
  from python_events_are_well_typed [OF sample_httparse_ok small_py_server event] event show ?thesis
    by (intro exI [of _ greeting_object]) (simp add: sample_limits_def)
qed

text \<open>Event objects compare in Python exactly as the events they were made of: two objects that
  \<^verbatim>\<open>next_event\<close> returned are equal only when the core reported the same event.\<close>

theorem event_objects_compare_as_events:
  "py_eq (event_to_py a) (event_to_py b) \<longleftrightarrow> a = b"
  by (rule event_to_py_eq)

text \<open>C22. Handing a body over without copying it frames it as the copying call does: for a contiguous
  buffer, \<^verbatim>\<open>send_data_parts\<close> returns the very object with a prefix and a suffix that enclose its bytes to
  what \<^verbatim>\<open>send_data\<close> writes, fails when \<^verbatim>\<open>send_data\<close> fails, with the same exception, and leaves the same
  connection.\<close>

theorem zero_copy_framing_agrees:
  assumes "memoryview_ok py" and "with_buffer_bytes py obj id = Inr d" and "contiguous_buffer_len py obj = Inr n"
  shows "py_send_data py obj c =
    (case py_send_data_parts py obj c of
       (Inl e, c') \<Rightarrow> (Inl e, c')
     | (Inr (prefix, body, suffix), c') \<Rightarrow> (Inr (prefix @ d @ suffix), c'))
    \<and> (\<forall>prefix body suffix c'. py_send_data_parts py obj c = (Inr (prefix, body, suffix), c') \<longrightarrow> body = obj)"
proof -
  from buffer_length [OF assms] assms(3) have "body_nbytes py obj = Inr (length d)" by (simp add: body_nbytes_def)
  then show ?thesis
    by (auto simp: py_send_data_eq assms(2) py_send_data_parts_def parts_around_def or_local_error_def
        send_data_by_parts and_then_def split: prod.split sum.split)
qed

theorem zero_copy_framing_agrees_witness:
  "fst (py_send_data_parts small_python (O_ByteArray [0x61, 0x62]) (sample_sender F_Chunked))
     = Inr (bytes ''2'' @ CRLF, O_ByteArray [0x61, 0x62], CRLF)
   \<and> fst (py_send_data small_python (O_ByteArray [0x61, 0x62]) (sample_sender F_Chunked))
     = Inr (bytes ''2'' @ CRLF @ [0x61, 0x62] @ CRLF)"
proof -
  have ready: "advance_local SE_Data (sample_sender F_Chunked) = (Inr (), sample_sender F_Chunked)"
    "writer (sample_sender F_Chunked) = Some F_Chunked"
    using data_is_local [OF sample_sending] sample_sending [of F_Chunked] by (simp_all add: sending_body_def)
  have hex: "format_hex (Suc (Suc 0)) = bytes ''2''" by (simp add: format_hex.simps hex_digit_def bytes_def)
  have parts: "fst (py_send_data_parts small_python (O_ByteArray [0x61, 0x62]) (sample_sender F_Chunked))
      = Inr (bytes ''2'' @ CRLF, O_ByteArray [0x61, 0x62], CRLF)"
    by (simp add: py_send_data_parts_def body_nbytes_def contiguous_buffer_len_def small_python_def parts_around_def
      send_data_framing_def data_framing_def ready hex)
  have "with_buffer_bytes small_python (O_ByteArray [0x61, 0x62]) id = Inr [0x61, 0x62]"
    "contiguous_buffer_len small_python (O_ByteArray [0x61, 0x62]) = Inr 2"
    by (simp_all add: with_buffer_bytes_def contiguous_buffer_len_def small_python_def)
  note agrees = zero_copy_framing_agrees [OF small_memoryview this, THEN conjunct1, of "sample_sender F_Chunked"]
  from parts obtain c' where "py_send_data_parts small_python (O_ByteArray [0x61, 0x62]) (sample_sender F_Chunked)
      = (Inr (bytes ''2'' @ CRLF, O_ByteArray [0x61, 0x62], CRLF), c')"
    by (metis prod.collapse)
  with agrees show ?thesis by simp
qed

text \<open>C23. What a connection reports can be passed on: the attributes of a request or response object that
  \<^verbatim>\<open>next_event\<close> returned, given to the sending method of any connection, send exactly the message that
  the core reported.\<close>

theorem reported_messages_can_be_forwarded:
  assumes "httparse_ok hp" and "builtins_ok py of_bytes of_tuple" and "py_next_event hp py c = (Inr v, c')"
  shows "case v of
      Py_Request r \<Rightarrow> (\<exists>q. fst (next_event hp c) = Inr (NE_Event (Ev_Request q))
        \<and> py_send_request py (of_bytes (pyreq_method r)) (of_bytes (pyreq_target r))
            (headers_object of_bytes of_tuple (pyreq_headers r)) (Some (of_bytes (pyreq_http_version r))) out
          = or_local_error (send_request q out))
    | Py_InformationalResponse r \<Rightarrow> (\<exists>q. fst (next_event hp c) = Inr (NE_Event (Ev_InformationalResponse q))
        \<and> py_send_informational_response py (info_status_code r)
            (Some (headers_object of_bytes of_tuple (info_headers r))) (Some (of_bytes (info_reason r)))
            (Some (of_bytes (info_http_version r))) out
          = or_local_error (send_informational_response q out))
    | Py_Response r \<Rightarrow> (\<exists>q. fst (next_event hp c) = Inr (NE_Event (Ev_Response q))
        \<and> py_send_response py (response_status_code r)
            (Some (headers_object of_bytes of_tuple (response_headers r))) (Some (of_bytes (response_reason r)))
            (Some (of_bytes (response_http_version r))) out
          = or_local_error (send_response q out))
    | _ \<Rightarrow> True"
proof -
  from assms(3) consider s where "v = Py_Status s"
    | event where "next_event hp c = (Inr (NE_Event event), c')" "v = event_to_py event"
    by (auto simp: py_next_event_def split: prod.splits sum.splits NextEvent.splits)
  then show ?thesis
  proof cases
    case (2 event)
    from reported_event_ok [OF assms(1) 2(1)] 2 show ?thesis
      by (cases event)
         (simp_all add: py_sends request_object_argument [OF assms(2) _ refl] response_object_argument [OF assms(2) _ refl])
  qed simp
qed

theorem reported_messages_can_be_forwarded_witness:
  "\<exists>q. py_send_request small_python (O_Bytes (bytes ''GET'')) (O_Bytes (bytes ''/''))
      (O_Tuple [O_Tuple [O_Bytes (bytes ''Host''), O_Bytes (bytes ''a'')]]) (Some (O_Bytes (bytes ''1.1'')))
      (connection_new Client sample_limits) = or_local_error (send_request q (connection_new Client sample_limits))"
proof -
  obtain c' where event: "py_next_event sample_httparse small_python (py_calls sample_httparse small_python greeted (connection_new Server sample_limits))
      = (Inr (Py_Request greeting_object), c')"
    by (rule greeted_event)
  from reported_messages_can_be_forwarded [OF sample_httparse_ok small_builtins event, of "connection_new Client sample_limits"]
  show ?thesis by (auto simp: greeting_object_def headers_object_def)
qed

end
