(* ===== verification/Spec2Isabelle.thy ===== *)
theory Spec2Isabelle
  imports Dialogue Trailer_Folding Conversions Unit_Tests Fuzz_Fragmentation Python_Bindings
begin

text \<open>
  h11r: a sans-I/O HTTP/1.1 protocol engine.

  The program.  The crate \<^verbatim>\<open>src/crates/h11r\<close> is a protocol engine that never touches a transport: a caller
  feeds received bytes into a \<^verbatim>\<open>Connection\<close>, polls it for events, and writes out the bytes that the
  sending methods return.  A connection owns the joint lifecycle of both protocol actors
  (\<^verbatim>\<open>state.rs\<close>), an input buffer, the framing of the two messages in progress, and the negotiation of
  protocol switches (\<^verbatim>\<open>connection.rs\<close>); the wire layer (\<^verbatim>\<open>wire.rs\<close>) holds the buffer, the parsers around
  the third-party head parser \<^verbatim>\<open>httparse\<close>, the validation of outgoing fields, the framing decision and
  the serializers; \<^verbatim>\<open>lib.rs\<close>, \<^verbatim>\<open>method.rs\<close> and \<^verbatim>\<open>status.rs\<close> hold the public vocabulary.  The crate
  \<^verbatim>\<open>src/crates/h11r-python\<close> wraps the engine for Python, and \<^verbatim>\<open>src/fuzz\<close> drives it with arbitrary bytes.

  The theories, in the order in which they build on each other:

  \<^item> \<open>Prelude\<close>: byte and integer types, the slice and ASCII operations of Rust's standard library
    that the crate calls, results, and the shared lemmas and collections (\<open>byte_eval\<close>, \<open>byte_class\<close>).
  \<^item> \<open>Method\<close>, \<open>Status\<close>, \<open>Lib\<close>: \<^verbatim>\<open>method.rs\<close>, \<^verbatim>\<open>status.rs\<close>, \<^verbatim>\<open>lib.rs\<close>.
  \<^item> \<open>State\<close>, \<open>Lifecycle\<close>: \<^verbatim>\<open>state.rs\<close>.  \<open>State\<close> has the joint state, the direct transitions, the coupled
    rules and the four operations; the loop of \<^verbatim>\<open>stabilize\<close> is a terminating recursion.  \<open>Lifecycle\<close> has
    the operations as a step relation and the properties of runs: the reachable configurations, the
    permanence of a lost keep-alive and of an error, switches only when proposed, one exchange per
    cycle.
  \<^item> \<open>Buffer\<close>: \<^verbatim>\<open>Buffer\<close> and \<^verbatim>\<open>SectionProgress\<close> of \<^verbatim>\<open>wire.rs\<close>, with the interface \<open>byte_queue\<close> and its
    interpretation, the cost of compaction, and the specification of the section search.
  \<^item> \<open>Header_Fields\<close>, \<open>Net_Addr\<close>, \<open>Authority\<close>, \<open>Framing\<close>, \<open>Chunk_Line\<close>, \<open>Head_Parse\<close>, \<open>Serialize\<close>: the
    functions of \<^verbatim>\<open>wire.rs\<close> on fields, authorities (\<open>Net_Addr\<close> models the IPv6 parser of the standard
    library), framing, chunk lines, heads and trailers, and output.
  \<^item> \<open>Connection\<close>: every method of \<^verbatim>\<open>connection.rs\<close> on a record with the source's thirteen fields.
  \<^item> \<open>Evolution\<close>: locales for relations that are closed under the methods, proved once per method, and
    their interpretations (frame, lifecycle refinement, input discipline, buffer well-formedness).
  \<^item> \<open>Connection_Inv\<close>: the invariant of a connection and its preservation by every call.
  \<^item> \<open>Reading\<close>: an induction rule over one poll, with a case for every way in which \<^verbatim>\<open>next_event_inner\<close> reads.
  \<^item> \<open>Sample_Parser\<close>: a concrete head parser that satisfies the hypotheses on \<^verbatim>\<open>httparse\<close>.
  \<^item> \<open>Receiving\<close>, \<open>Sending\<close>, \<open>Bodies\<close>, \<open>Exchange\<close>: what the receiving methods, the sending methods,
    body transfer and whole exchanges between two connections guarantee.
  \<^item> \<open>Draining\<close>, \<open>Section_Parser\<close>, \<open>Input_View\<close>, \<open>Resumption\<close>, \<open>Segmentation\<close>, \<open>End_Of_Input\<close>: the events do not
    depend on how the input was cut into arrivals.  \<open>Draining\<close> states this for an abstract machine
    (locale \<open>segmented_input\<close>); the others show that a connection is one: \<^verbatim>\<open>next_event\<close> sees the unread bytes
    and not their representation, and resumed searches agree with searches from scratch.
  \<^item> \<open>Sample_Messages\<close>, \<open>Messages\<close>, \<open>Trailers\<close>: whole messages, their heads, bodies and trailers, between two
    connections; \<open>Trailer_Folding\<close>: trailers that a client loses to what follows them.
  \<^item> \<open>Reports\<close>: the locale \<open>report\<close>, for properties of whatever \<^verbatim>\<open>next_event\<close> returns, with its interpretations.
  \<^item> \<open>Panic\<close>, \<open>Unit_Tests\<close>: code that may panic, and the unit tests inside \<^verbatim>\<open>state.rs\<close>, \<^verbatim>\<open>status.rs\<close>,
    \<^verbatim>\<open>method.rs\<close> and \<^verbatim>\<open>wire.rs\<close>.
  \<^item> \<open>Fuzz_Common\<close>, \<open>Fuzz_Receive\<close>, \<open>Fuzz_Fragmentation\<close>, \<open>Fuzz_Send\<close>: the fuzz targets, and that they never
    panic (with the one exception that \<open>Fuzz_Fragmentation\<close> exhibits).
  \<^item> \<open>Session\<close>: any number of exchanges over one pair of persistent connections.
  \<^item> \<open>Endpoints\<close>, \<open>Dialogue\<close>: a client and a server connection whose applications make any calls in any
    order.  \<open>Endpoints\<close> says what it means that the two match and shows that heads keep it; \<open>Dialogue\<close> adds bodies,
    ends, closing and new cycles, and shows that nothing one end agrees to send is refused by the other.
  \<^item> \<open>Conversions\<close>: the standard traits of methods and status codes, with their derived orders as
    instances of \<open>linorder\<close>.
  \<^item> \<open>Python_Values\<close>, \<open>Python_Connection\<close>, \<open>Python_Bindings\<close>: the classes, conversions and methods of
    \<^verbatim>\<open>api.rs\<close>, and what they promise to Python code.
  \<^item> This theory: the properties of every reachable connection.

  Correspondence.  A struct is a record, an enum a datatype, a byte an \<open>8 word\<close>, a status code a
  \<open>16 word\<close>, a \<^verbatim>\<open>usize\<close> a natural number with the 64-bit limit written out where the code checks for
  overflow.  A fallible function returns a sum with the error on the left; a method on \<^verbatim>\<open>&mut self\<close>
  returns its result together with the connection it leaves, also on failure.  Where a method is
  long, its parts are definitions of their own (\<open>peer_state_return\<close>, \<open>chunk_size_step\<close>,
  \<open>select_response_framing\<close>, \<open>data_framing\<close>, \<open>message_terminator\<close>), composed in the source's order.
  All loops of the two crates are terminating recursions on a measure, so every operation is total.
  Slices out of range panic in Rust; the invariant shows the read offsets to be in range.  In the fuzz
  targets and the unit tests, where panics are meant to be seen, a panic is the value \<open>None\<close>.

  Bounds.  The polling loop of the fuzz harness has a budget in the source (\<^verbatim>\<open>MAX_EVENTS\<close> or a multiple of the
  input length); exhausting it is a panic, and \<open>receive_never_panics\<close> shows it to be enough.  The application
  loop of \<open>Session\<close> polls a bounded number of times per message; three polls are shown to be enough.  In
  \<open>Dialogue\<close> one poll follows each utterance, and is shown to report it.

  Hypotheses.  \<^verbatim>\<open>httparse\<close> is not part of the repository.  It is an argument (\<open>hp\<close>) of the receiving
  methods, with the hypotheses \<open>httparse_ok\<close> (a completed parse ends inside its input and fills no
  more header slots than it was given), \<open>httparse_streams\<close> (it completes a section exactly when the section
  is there, whatever follows), \<open>parses_empty_section\<close>, \<open>parses_request\<close>, \<open>parses_response\<close>, \<open>parses_trailers\<close> and \<open>parses_fuzz_heads\<close>
  (it reports an empty section, the parts of written heads and written trailers as they are).  Each property with such a
  hypothesis is applied to \<open>sample_httparse\<close>, for which they are proved.  The Python runtime and PyO3 are
  an argument too, the record \<open>python\<close>; the hypotheses \<open>memoryview_ok\<close> and \<open>builtins_ok\<close> say how memory views and
  the built-in classes behave, and hold of the instance \<open>small_python\<close>.

  Not modelled: memory reservation other than the capacity of heads; failures to allocate Python
  objects, endless iterators and iterators with side effects; the derived \<^verbatim>\<open>Debug\<close> and \<^verbatim>\<open>Hash\<close> implementations; the attributes that PyO3 derives for its classes;
  libFuzzer; the integration tests and benchmarks, which contain no code of the engine.
\<close>

section \<open>Every reachable connection\<close>

text \<open>C1. Whatever calls are made on a new connection, in whatever order, successful or not, the connection
  keeps its invariant: the joint lifecycle is in a legal configuration, the buffer offset, the
  section search and the chunk-line search stay inside the unread bytes, the reader stands beyond the
  head exactly while the peer is sending a body (or has switched after a CONNECT), a writer is present
  exactly while the local actor is, and the local actor is never poisoned.\<close>

theorem connection_invariant:
  assumes "httparse_ok hp"
  shows "connection_inv (api_calls hp ops (connection_new role lims))"
  using assms connection_inv_new by (rule connection_inv_calls)

theorem connection_invariant_witness:
  "connection_inv (api_calls sample_httparse [A_ReceiveData [0x47], A_NextEvent, A_Close] (connection_new Server sample_limits))"
  by (rule connection_invariant [OF sample_httparse_ok])

text \<open>C2. The connection refines the lifecycle machine: the joint state after any sequence of calls is the
  end of a run of accepted lifecycle operations from the initial state, in which the local actor is
  never poisoned; role and limits never change.\<close>

theorem lifecycle_refinement:
  assumes "httparse_ok hp"
  shows "conn_role (api_calls hp ops (connection_new role lims)) = role
    \<and> limits (api_calls hp ops (connection_new role lims)) = lims
    \<and> (\<exists>sops. state_run state_new sops (conn_state (api_calls hp ops (connection_new role lims)))
         \<and> Op_Error role \<notin> set sops)"
  using lifecycle.api_calls_R [OF assms, of "connection_new role lims" ops]
    frame.api_calls_R [OF assms, of "connection_new role lims" ops]
  by (simp add: lifecycle_refined_def same_frame_def connection_new_def)

theorem lifecycle_refinement_witness:
  "conn_role (api_calls sample_httparse [A_Close, A_NextEvent] (connection_new Client sample_limits)) = Client"
  using lifecycle_refinement [OF sample_httparse_ok] by blast

end
